(* ===== verification/Prelude.thy ===== *)
theory Prelude
  imports Main "HOL-Library.Word" "HOL-Library.Char_ord" "HOL-Library.List_Lexorder"
begin

section \<open>Prelude: byte strings, machine integers, ordered maps and sets\<close>

text \<open>
  The types every component uses and the model of the two ordered containers of the
  Rust standard library the code relies on. A \<open>Vec<u8>\<close> is a list of \<open>char\<close> (HOL's
  8-bit character type, so a byte string literal \<open>b"SET"\<close> is \<open>''SET''\<close>, and the order of
  \<open>List_Lexorder\<close> over \<open>Char_ord\<close> is the unsigned lexicographic order of \<open>Vec<u8>\<close>).
  A Rust \<open>String\<close> is its UTF-8 bytes. A \<open>BTreeMap\<close> is the list of its entries in
  ascending key order and a \<open>BTreeSet\<close> the list of its elements in ascending order: that
  list is what iteration, equality and serialization of the Rust containers see.
  The interfaces \<open>keyed_map\<close> and \<open>key_set\<close> state what the components need of the
  containers; they are interpreted on the ordered lists at the end.
\<close>

type_synonym byte = char
type_synonym bytes = "char list"

type_synonym u8 = "8 word"
type_synonym u32 = "32 word"
type_synonym u64 = "64 word"

text \<open>\<open>trains_core::ProcId\<close>: a ring position, one byte wide.\<close>

type_synonym proc_id = u8

named_theorems bt_simps \<open>lookups in ordered maps and membership in ordered sets\<close>
named_theorems bt_intros \<open>preservation of the order invariant of maps and sets\<close>

subsection \<open>The interfaces\<close>

locale keyed_map =
  fixes get :: "'m \<Rightarrow> 'k \<Rightarrow> 'v option"
    and ins :: "'k \<Rightarrow> 'v \<Rightarrow> 'm \<Rightarrow> 'm"
    and del :: "'k \<Rightarrow> 'm \<Rightarrow> 'm"
    and emp :: 'm
    and ok :: "'m \<Rightarrow> bool"
  assumes get_emp: "get emp k = None"
    and get_ins: "get (ins k v m) k' = (if k' = k then Some v else get m k')"
    and get_del: "get (del k m) k' = (if k' = k then None else get m k')"
    and ok_emp: "ok emp"
    and ok_ins: "ok m \<Longrightarrow> ok (ins k v m)"
    and ok_del: "ok m \<Longrightarrow> ok (del k m)"
    and ext: "ok m \<Longrightarrow> ok m' \<Longrightarrow> (\<And>k. get m k = get m' k) \<Longrightarrow> m = m'"
begin

lemma ins_ins: "ok m \<Longrightarrow> ins k v (ins k w m) = ins k v m"
  by (rule ext) (auto simp: get_ins intro: ok_ins)

lemma ins_commute: "ok m \<Longrightarrow> k \<noteq> k' \<Longrightarrow> ins k v (ins k' w m) = ins k' w (ins k v m)"
  by (rule ext) (auto simp: get_ins intro: ok_ins)

lemma ins_same: "ok m \<Longrightarrow> get m k = Some v \<Longrightarrow> ins k v m = m"
  by (rule ext) (auto simp: get_ins intro: ok_ins)

lemma del_ins: "ok m \<Longrightarrow> del k (ins k v m) = del k m"
  by (rule ext) (auto simp: get_ins get_del intro: ok_ins ok_del)

lemma ins_del: "ok m \<Longrightarrow> ins k v (del k m) = ins k v m"
  by (rule ext) (auto simp: get_ins get_del intro: ok_ins ok_del)

lemma del_absent: "ok m \<Longrightarrow> get m k = None \<Longrightarrow> del k m = m"
  by (rule ext) (auto simp: get_del intro: ok_del)

lemma del_commute: "ok m \<Longrightarrow> del k (del k' m) = del k' (del k m)"
  by (rule ext) (auto simp: get_del intro: ok_del)

end

locale key_set =
  fixes mem :: "'k \<Rightarrow> 's \<Rightarrow> bool"
    and add :: "'k \<Rightarrow> 's \<Rightarrow> 's"
    and rem :: "'k \<Rightarrow> 's \<Rightarrow> 's"
    and emp :: 's
    and ok :: "'s \<Rightarrow> bool"
  assumes mem_emp: "\<not> mem x emp"
    and mem_add: "mem y (add x s) \<longleftrightarrow> y = x \<or> mem y s"
    and mem_rem: "mem y (rem x s) \<longleftrightarrow> y \<noteq> x \<and> mem y s"
    and ok_emp: "ok emp"
    and ok_add: "ok s \<Longrightarrow> ok (add x s)"
    and ok_rem: "ok s \<Longrightarrow> ok (rem x s)"
    and ext: "ok s \<Longrightarrow> ok t \<Longrightarrow> (\<And>x. mem x s = mem x t) \<Longrightarrow> s = t"
begin

lemma add_present: "ok s \<Longrightarrow> mem x s \<Longrightarrow> add x s = s"
  by (rule ext) (auto simp: mem_add intro: ok_add)

lemma rem_absent: "ok s \<Longrightarrow> \<not> mem x s \<Longrightarrow> rem x s = s"
  by (rule ext) (auto simp: mem_rem intro: ok_rem)

lemma rem_add: "ok s \<Longrightarrow> \<not> mem x s \<Longrightarrow> rem x (add x s) = s"
  by (rule ext) (auto simp: mem_rem mem_add intro: ok_rem ok_add)

lemma add_rem: "ok s \<Longrightarrow> mem x s \<Longrightarrow> add x (rem x s) = s"
  by (rule ext) (auto simp: mem_rem mem_add intro: ok_rem ok_add)

lemma add_commute: "ok s \<Longrightarrow> add x (add y s) = add y (add x s)"
  by (rule ext) (auto simp: mem_add intro: ok_add)

end

subsection \<open>\<open>BTreeMap\<close>: entries in ascending key order\<close>

type_synonym ('k, 'v) btree_map = "('k \<times> 'v) list"

definition bt_ok :: "('k::linorder, 'v) btree_map \<Rightarrow> bool" where
  "bt_ok m \<longleftrightarrow> sorted_wrt (<) (map fst m)"

definition bt_get :: "('k, 'v) btree_map \<Rightarrow> 'k \<Rightarrow> 'v option" where
  "bt_get m k = map_of m k"

definition bt_insert :: "'k::linorder \<Rightarrow> 'v \<Rightarrow> ('k, 'v) btree_map \<Rightarrow> ('k, 'v) btree_map" where
  "bt_insert k v m = filter (\<lambda>e. fst e < k) m @ (k, v) # filter (\<lambda>e. k < fst e) m"

definition bt_remove :: "'k \<Rightarrow> ('k, 'v) btree_map \<Rightarrow> ('k, 'v) btree_map" where
  "bt_remove k m = filter (\<lambda>e. fst e \<noteq> k) m"

definition bt_contains :: "('k, 'v) btree_map \<Rightarrow> 'k \<Rightarrow> bool" where
  "bt_contains m k \<longleftrightarrow> bt_get m k \<noteq> None"

lemma map_of_filter_key:
  "map_of (filter (\<lambda>e. P (fst e)) m) k = (if P k then map_of m k else None)"
  by (induction m) auto

lemma bt_get_Nil [simp, bt_simps]: "bt_get [] k = None"
  by (simp add: bt_get_def)

lemma bt_get_insert [simp, bt_simps]:
  "bt_get (bt_insert k v m) k' = (if k' = k then Some v else bt_get m k')"
  using map_of_filter_key [of "\<lambda>x. x < k" m k'] map_of_filter_key [of "\<lambda>x. k < x" m k']
  by (auto simp: bt_get_def bt_insert_def map_add_def split: option.splits)

lemma bt_get_remove [simp, bt_simps]:
  "bt_get (bt_remove k m) k' = (if k' = k then None else bt_get m k')"
  unfolding bt_get_def bt_remove_def using map_of_filter_key [of "\<lambda>x. x \<noteq> k" m k'] by auto

lemma bt_contains_insert [simp, bt_simps]:
  "bt_contains (bt_insert k v m) k' \<longleftrightarrow> k' = k \<or> bt_contains m k'"
  by (auto simp: bt_contains_def)

lemma bt_contains_remove [simp, bt_simps]:
  "bt_contains (bt_remove k m) k' \<longleftrightarrow> k' \<noteq> k \<and> bt_contains m k'"
  by (auto simp: bt_contains_def)

lemma bt_contains_iff: "bt_contains m k \<longleftrightarrow> k \<in> fst ` set m"
  by (auto simp: bt_contains_def bt_get_def map_of_eq_None_iff)

lemma bt_ok_Nil [simp, bt_intros]: "bt_ok []"
  by (simp add: bt_ok_def)

lemma bt_ok_filter: "bt_ok m \<Longrightarrow> bt_ok (filter P m)"
  unfolding bt_ok_def by (induction m) auto

lemma bt_ok_insert [simp, bt_intros]:
  assumes "bt_ok m"
  shows "bt_ok (bt_insert k v m)"
proof -
  have "bt_ok (filter (\<lambda>e. fst e < k) m)" "bt_ok (filter (\<lambda>e. k < fst e) m)"
    using assms by (simp_all add: bt_ok_filter)
  then show ?thesis
    by (auto simp: bt_insert_def bt_ok_def sorted_wrt_append)
qed

lemma bt_ok_remove [simp, bt_intros]: "bt_ok m \<Longrightarrow> bt_ok (bt_remove k m)"
  by (simp add: bt_remove_def bt_ok_filter)

lemma bt_ok_distinct: "bt_ok m \<Longrightarrow> distinct (map fst m)"
  unfolding bt_ok_def by (simp add: strict_sorted_iff)

lemma bt_ok_ext:
  assumes "bt_ok m" "bt_ok m'" "\<And>k. bt_get m k = bt_get m' k"
  shows "m = m'"
proof -
  have get: "map_of m = map_of m'"
    using assms(3) by (auto simp: bt_get_def)
  have "fst ` set m = fst ` set m'"
    by (metis dom_map_of_conv_image_fst get)
  then have keys: "map fst m = map fst m'"
    using assms(1,2) unfolding bt_ok_def by (intro strict_sorted_equal) auto
  have entries: "map (\<lambda>k. (k, the (map_of n k))) (map fst n) = n" if "bt_ok n"
    for n :: "('a, 'b) btree_map"
    using bt_ok_distinct [OF that] by (auto intro!: map_idI simp: comp_def)
  show ?thesis
    using entries [OF assms(1)] entries [OF assms(2)] get keys by metis
qed

lemma bt_ok_get_iff: "bt_ok m \<Longrightarrow> bt_get m k = Some v \<longleftrightarrow> (k, v) \<in> set m"
  by (simp add: bt_get_def bt_ok_distinct)

subsection \<open>\<open>BTreeSet\<close>: elements in ascending order\<close>

type_synonym 'k btree_set = "'k list"

definition bs_ok :: "'k::linorder btree_set \<Rightarrow> bool" where
  "bs_ok s \<longleftrightarrow> sorted_wrt (<) s"

definition bs_contains :: "'k \<Rightarrow> 'k btree_set \<Rightarrow> bool" where
  "bs_contains x s \<longleftrightarrow> x \<in> set s"

definition bs_insert :: "'k::linorder \<Rightarrow> 'k btree_set \<Rightarrow> 'k btree_set" where
  "bs_insert x s = filter (\<lambda>y. y < x) s @ x # filter (\<lambda>y. x < y) s"

definition bs_remove :: "'k \<Rightarrow> 'k btree_set \<Rightarrow> 'k btree_set" where
  "bs_remove x s = filter (\<lambda>y. y \<noteq> x) s"

lemma set_bs_insert [simp, bt_simps]: "set (bs_insert x s) = insert x (set s)"
  by (auto simp: bs_insert_def)

lemma set_bs_remove [simp, bt_simps]: "set (bs_remove x s) = set s - {x}"
  by (auto simp: bs_remove_def)

lemma bs_ok_Nil [simp, bt_intros]: "bs_ok []"
  by (simp add: bs_ok_def)

lemma bs_ok_insert [simp, bt_intros]: "bs_ok s \<Longrightarrow> bs_ok (bs_insert x s)"
  by (auto simp: bs_ok_def bs_insert_def sorted_wrt_append sorted_wrt_filter)

lemma bs_ok_remove [simp, bt_intros]: "bs_ok s \<Longrightarrow> bs_ok (bs_remove x s)"
  by (simp add: bs_ok_def bs_remove_def sorted_wrt_filter)

lemma bs_ok_distinct: "bs_ok s \<Longrightarrow> distinct s"
  by (simp add: bs_ok_def strict_sorted_iff)

lemma bs_ok_ext: "bs_ok s \<Longrightarrow> bs_ok t \<Longrightarrow> set s = set t \<Longrightarrow> s = t"
  unfolding bs_ok_def by (rule strict_sorted_equal)

lemma length_bs_remove_less: "x \<in> set s \<Longrightarrow> length (bs_remove x s) < length s"
  unfolding bs_remove_def by (rule length_filter_less) auto

lemma length_bs_insert:
  assumes "bs_ok s"
  shows "length (bs_insert x s) = (if x \<in> set s then length s else Suc (length s))"
proof -
  have "length (bs_insert x s) = card (insert x (set s))"
    using assms by (metis bs_ok_distinct bs_ok_insert distinct_card set_bs_insert)
  also have "\<dots> = (if x \<in> set s then length s else Suc (length s))"
    using assms by (simp add: card_insert_if bs_ok_distinct distinct_card)
  finally show ?thesis .
qed

subsection \<open>The interfaces hold of the ordered lists\<close>

interpretation btm: keyed_map bt_get bt_insert bt_remove "[]" bt_ok
  by unfold_locales (auto intro: bt_ok_ext)

interpretation bts: key_set bs_contains bs_insert bs_remove "[]" bs_ok
  by unfold_locales (auto simp: bs_contains_def intro: bs_ok_ext)

subsection \<open>Machine integers\<close>

text \<open>
  An \<open>i64\<close> is an \<open>int\<close> between \<open>i64_min\<close> and \<open>i64_max\<close>. \<open>checked_add\<close> is \<open>i64::checked_add\<close>.
  \<open>wrapping_neg\<close> is unary minus as an optimised build computes it (a build with overflow
  checks panics at the one value where it wraps).
\<close>

definition i64_min :: int where "i64_min = - 9223372036854775808"
definition i64_max :: int where "i64_max = 9223372036854775807"

definition i64_ok :: "int \<Rightarrow> bool" where
  "i64_ok n \<longleftrightarrow> i64_min \<le> n \<and> n \<le> i64_max"

definition checked_add :: "int \<Rightarrow> int \<Rightarrow> int option" where
  "checked_add a b = (if i64_ok (a + b) then Some (a + b) else None)"

definition wrapping_neg :: "int \<Rightarrow> int" where
  "wrapping_neg n = (if n = i64_min then i64_min else - n)"

lemma wrapping_neg_ok: "i64_ok n \<Longrightarrow> i64_ok (wrapping_neg n)"
  by (auto simp: i64_ok_def wrapping_neg_def i64_min_def i64_max_def)

lemma word_less_inc:
  fixes x y :: "'a::len word"
  assumes "x \<noteq> - 1"
  shows "y < x + 1 \<longleftrightarrow> y \<le> x"
  using assms by (metis inc_less_eq_iff less_inc_imp_less_eq not_less order_less_le)

end
