(* ===== verification/Rust_Std.thy ===== *)
theory Rust_Std
  imports Prelude
begin

section \<open>The parts of the Rust standard library the program uses\<close>

text \<open>
  Text and number primitives of \<open>std\<close> that the source calls: UTF-8 validation
  (\<open>std::str::from_utf8\<close>), lossy decoding (\<open>String::from_utf8_lossy\<close>), trimming of Unicode
  white space (\<open>str::trim\<close>), ASCII upper-casing, decimal printing of integers (\<open>to_string\<close>)
  and \<open>str::parse\<close> at the integer types. A \<open>String\<close> is the list of its UTF-8 bytes. The
  lemmas show that printing and parsing are inverse and that the text primitives leave
  plain ASCII unchanged.
\<close>

named_theorems std_simps \<open>evaluation of the standard library on well-formed text\<close>

subsection \<open>UTF-8\<close>

abbreviation code :: "byte \<Rightarrow> nat" where
  "code c \<equiv> of_char c"

definition byte_or_0 :: "bytes \<Rightarrow> nat \<Rightarrow> byte" where
  "byte_or_0 bs i = (if i < length bs then bs ! i else CHR 0x00)"

definition cont_byte :: "byte \<Rightarrow> bool" where
  "cont_byte c \<longleftrightarrow> 128 \<le> code c \<and> code c < 192"

definition second_ok :: "byte \<Rightarrow> byte \<Rightarrow> bool" where
  "second_ok b0 b1 \<longleftrightarrow>
     (if code b0 = 224 then 160 \<le> code b1 \<and> code b1 < 192
      else if code b0 = 237 then 128 \<le> code b1 \<and> code b1 < 160
      else if code b0 = 240 then 144 \<le> code b1 \<and> code b1 < 192
      else if code b0 = 244 then 128 \<le> code b1 \<and> code b1 < 144
      else cont_byte b1)"

text \<open>
  \<open>utf8_next bs\<close>: whether the front of \<open>bs\<close> is a well-formed scalar value, and how many
  bytes it, or the maximal ill-formed prefix that is replaced as one unit, takes.
\<close>

definition utf8_next :: "bytes \<Rightarrow> bool \<times> nat" where
  "utf8_next bs =
     (let b0 = byte_or_0 bs 0; b1 = byte_or_0 bs 1; b2 = byte_or_0 bs 2; b3 = byte_or_0 bs 3
      in if code b0 < 128 then (True, 1)
         else if 194 \<le> code b0 \<and> code b0 < 224 then
           (if cont_byte b1 then (True, 2) else (False, 1))
         else if 224 \<le> code b0 \<and> code b0 < 240 then
           (if \<not> second_ok b0 b1 then (False, 1)
            else if cont_byte b2 then (True, 3) else (False, 2))
         else if 240 \<le> code b0 \<and> code b0 < 245 then
           (if \<not> second_ok b0 b1 then (False, 1)
            else if \<not> cont_byte b2 then (False, 2)
            else if cont_byte b3 then (True, 4) else (False, 3))
         else (False, 1))"

definition replacement_char :: bytes where
  "replacement_char = [CHR 0xEF, CHR 0xBF, CHR 0xBD]"

fun utf8_valid :: "bytes \<Rightarrow> bool" where
  "utf8_valid [] = True"
| "utf8_valid (b # bs) =
     (fst (utf8_next (b # bs)) \<and> utf8_valid (drop (snd (utf8_next (b # bs)) - 1) bs))"

fun from_utf8_lossy :: "bytes \<Rightarrow> bytes" where
  "from_utf8_lossy [] = []"
| "from_utf8_lossy (b # bs) =
     (if fst (utf8_next (b # bs)) then take (snd (utf8_next (b # bs))) (b # bs)
      else replacement_char)
     @ from_utf8_lossy (drop (snd (utf8_next (b # bs)) - 1) bs)"

definition from_utf8 :: "bytes \<Rightarrow> bytes option" where
  "from_utf8 bs = (if utf8_valid bs then Some bs else None)"

definition is_ascii :: "byte \<Rightarrow> bool" where
  "is_ascii c \<longleftrightarrow> code c < 128"

lemma snd_utf8_next_pos: "0 < snd (utf8_next bs)"
  by (simp add: utf8_next_def Let_def)

lemma utf8_next_ascii: "is_ascii b \<Longrightarrow> utf8_next (b # bs) = (True, 1)"
  by (simp add: utf8_next_def byte_or_0_def is_ascii_def)

lemma from_utf8_lossy_valid [std_simps]: "utf8_valid bs \<Longrightarrow> from_utf8_lossy bs = bs"
proof (induction bs rule: utf8_valid.induct)
  case (2 b bs)
  have "take n (b # bs) @ drop (n - 1) bs = b # bs" if "0 < n" for n
    using that by (cases n) auto
  with 2 snd_utf8_next_pos [of "b # bs"] show ?case by simp
qed simp

lemma utf8_valid_ascii [std_simps]: "list_all is_ascii bs \<Longrightarrow> utf8_valid bs"
  by (induction bs) (auto simp: utf8_next_ascii)

lemma from_utf8_lossy_ascii: "list_all is_ascii bs \<Longrightarrow> from_utf8_lossy bs = bs"
  by (simp add: std_simps)

definition to_ascii_uppercase :: "bytes \<Rightarrow> bytes" where
  "to_ascii_uppercase =
     List.map (\<lambda>c. if 97 \<le> code c \<and> code c \<le> 122 then char_of (code c - 32) else c)"

lemma to_ascii_uppercase_idem [simp]:
  "to_ascii_uppercase (to_ascii_uppercase s) = to_ascii_uppercase s"
  by (auto simp: to_ascii_uppercase_def)

subsection \<open>White space\<close>

definition white_space :: "bytes list" where
  "white_space =
     [[CHR 0x09], [CHR 0x0A], [CHR 0x0B], [CHR 0x0C], [CHR 0x0D], [CHR 0x20],
      [CHR 0xC2, CHR 0x85], [CHR 0xC2, CHR 0xA0], [CHR 0xE1, CHR 0x9A, CHR 0x80],
      [CHR 0xE2, CHR 0x80, CHR 0x80], [CHR 0xE2, CHR 0x80, CHR 0x81],
      [CHR 0xE2, CHR 0x80, CHR 0x82], [CHR 0xE2, CHR 0x80, CHR 0x83],
      [CHR 0xE2, CHR 0x80, CHR 0x84], [CHR 0xE2, CHR 0x80, CHR 0x85],
      [CHR 0xE2, CHR 0x80, CHR 0x86], [CHR 0xE2, CHR 0x80, CHR 0x87],
      [CHR 0xE2, CHR 0x80, CHR 0x88], [CHR 0xE2, CHR 0x80, CHR 0x89],
      [CHR 0xE2, CHR 0x80, CHR 0x8A], [CHR 0xE2, CHR 0x80, CHR 0xA8],
      [CHR 0xE2, CHR 0x80, CHR 0xA9], [CHR 0xE2, CHR 0x80, CHR 0xAF],
      [CHR 0xE2, CHR 0x81, CHR 0x9F], [CHR 0xE3, CHR 0x80, CHR 0x80]]"

definition starts_with :: "bytes \<Rightarrow> bytes \<Rightarrow> bool" where
  "starts_with w bs \<longleftrightarrow> take (length w) bs = w"

definition prefix_len :: "bytes list \<Rightarrow> bytes \<Rightarrow> nat" where
  "prefix_len ws bs = (case filter (\<lambda>w. starts_with w bs) ws of [] \<Rightarrow> 0 | w # _ \<Rightarrow> length w)"

lemma prefix_len_le: "prefix_len ws bs \<le> length bs"
proof -
  have "length w \<le> length bs" if "starts_with w bs" for w
    using that unfolding starts_with_def by (metis length_take min.cobounded1)
  then show ?thesis
    by (auto simp: prefix_len_def filter_eq_Cons_iff split: list.splits)
qed

function strip_all :: "bytes list \<Rightarrow> bytes \<Rightarrow> bytes" where
  "strip_all ws bs = (let n = prefix_len ws bs in if n = 0 then bs else strip_all ws (drop n bs))"
  by pat_completeness auto
termination
proof (relation "measure (\<lambda>(ws, bs). length bs)")
  fix ws bs x
  assume "x = prefix_len ws bs" "x \<noteq> 0"
  then show "((ws, drop x bs), (ws, bs)) \<in> measure (\<lambda>(ws, bs). length bs)"
    using prefix_len_le [of ws bs] by auto
qed auto

declare strip_all.simps [simp del]

definition trim :: "bytes \<Rightarrow> bytes" where
  "trim bs = rev (strip_all (List.map rev white_space) (rev (strip_all white_space bs)))"

lemma starts_with_hd: "starts_with w bs \<Longrightarrow> w \<noteq> [] \<Longrightarrow> bs \<noteq> [] \<and> hd bs = hd w"
  by (cases w; cases bs) (auto simp: starts_with_def)

lemma strip_all_keep:
  assumes "bs = [] \<or> hd bs \<notin> hd ` set ws" and "[] \<notin> set ws"
  shows "strip_all ws bs = bs"
proof -
  have "\<not> starts_with w bs" if "w \<in> set ws" for w
    using assms starts_with_hd [of w bs] that by (metis image_eqI)
  then have "filter (\<lambda>w. starts_with w bs) ws = []"
    by (simp add: filter_empty_conv)
  then show ?thesis by (subst strip_all.simps) (simp add: prefix_len_def)
qed

lemma white_space_nonempty: "[] \<notin> set white_space" "[] \<notin> rev ` set white_space"
  by (simp_all add: white_space_def)

text \<open>Printable ASCII characters other than the space end no white-space sequence.\<close>

definition graphic :: "byte \<Rightarrow> bool" where
  "graphic c \<longleftrightarrow> 33 \<le> code c \<and> code c < 127"

lemma graphic_not_white:
  assumes "graphic c"
  shows "c \<notin> hd ` set white_space" "c \<notin> hd ` rev ` set white_space"
  using assms by (auto simp: white_space_def graphic_def)

lemma trim_graphic [std_simps]:
  assumes "list_all graphic bs"
  shows "trim bs = bs"
proof (cases "bs = []")
  case True
  then show ?thesis
    by (simp add: trim_def strip_all_keep white_space_nonempty)
next
  case False
  then have "graphic (hd bs)" "graphic (hd (rev bs))"
    using assms by (simp_all add: list_all_iff hd_rev)
  note ends = graphic_not_white [OF this(1)] graphic_not_white [OF this(2)]
  have "strip_all white_space bs = bs"
    using ends(1) by (simp add: strip_all_keep white_space_nonempty)
  moreover have "strip_all (List.map rev white_space) (rev bs) = rev bs"
    using ends(4) by (simp add: strip_all_keep white_space_nonempty)
  ultimately show ?thesis by (simp add: trim_def)
qed

subsection \<open>Integers as decimal text\<close>

definition digit :: "nat \<Rightarrow> byte" where
  "digit d = ''0123456789'' ! d"

fun show_nat :: "nat \<Rightarrow> bytes" where
  "show_nat n = (if n < 10 then [digit n] else show_nat (n div 10) @ [digit (n mod 10)])"

declare show_nat.simps [simp del]

definition show_int :: "int \<Rightarrow> bytes" where
  "show_int i = (if i < 0 then CHR ''-'' # show_nat (nat (- i)) else show_nat (nat i))"

definition is_digit :: "byte \<Rightarrow> bool" where
  "is_digit c \<longleftrightarrow> 48 \<le> code c \<and> code c \<le> 57"

definition digits_value :: "bytes \<Rightarrow> nat option" where
  "digits_value bs =
     (if bs \<noteq> [] \<and> list_all is_digit bs
      then Some (foldl (\<lambda>a c. 10 * a + (code c - 48)) 0 bs) else None)"

definition parse_i64 :: "bytes \<Rightarrow> int option" where
  "parse_i64 bs =
     (let v = (case bs of
                 [] \<Rightarrow> None
               | c # cs \<Rightarrow>
                   if c = CHR ''+'' then map_option int (digits_value cs)
                   else if c = CHR ''-'' then map_option (\<lambda>n. - int n) (digits_value cs)
                   else map_option int (digits_value (c # cs)))
      in case v of None \<Rightarrow> None | Some i \<Rightarrow> if i64_ok i then Some i else None)"

definition parse_usize :: "bytes \<Rightarrow> nat option" where
  "parse_usize bs =
     (let v = (case bs of
                 [] \<Rightarrow> None
               | c # cs \<Rightarrow> if c = CHR ''+'' then digits_value cs else digits_value (c # cs))
      in case v of None \<Rightarrow> None | Some n \<Rightarrow> if n < 2 ^ 64 then Some n else None)"

lemma ten_cases:
  assumes "d < (10::nat)"
  shows "d \<in> {0, 1, 2, 3, 4, 5, 6, 7, 8, 9}"
  using assms by auto

lemma digit_props:
  assumes "d < 10"
  shows "is_digit (digit d)" "code (digit d) = 48 + d"
  using ten_cases [OF assms] by (auto simp: digit_def is_digit_def)

lemma is_digit_graphic: "is_digit c \<Longrightarrow> graphic c"
  by (simp add: is_digit_def graphic_def)

lemma is_digit_ascii: "is_digit c \<Longrightarrow> is_ascii c"
  by (simp add: is_digit_def is_ascii_def)

lemma show_nat_digits: "show_nat n \<noteq> [] \<and> list_all is_digit (show_nat n)"
proof (induction n rule: show_nat.induct)
  case (1 n)
  then show ?case by (subst (1 2) show_nat.simps) (auto simp: digit_props)
qed

lemma foldl_show_nat: "foldl (\<lambda>a c. 10 * a + (code c - 48)) 0 (show_nat n) = n"
proof (induction n rule: show_nat.induct)
  case (1 n)
  show ?case
  proof (cases "n < 10")
    case True
    then show ?thesis by (subst show_nat.simps) (simp add: digit_props)
  next
    case False
    with 1 show ?thesis by (subst show_nat.simps) (simp add: digit_props)
  qed
qed

lemma digits_value_show_nat [std_simps]: "digits_value (show_nat n) = Some n"
  using show_nat_digits [of n] foldl_show_nat [of n] by (simp add: digits_value_def)

lemma digits_value_Cons:
  assumes "digits_value (c # cs) = Some n"
  shows "c \<noteq> CHR ''+''" "c \<noteq> CHR ''-''"
  using assms by (auto simp: digits_value_def is_digit_def split: if_splits)

lemma parse_i64_show_int [std_simps]:
  assumes "i64_ok i"
  shows "parse_i64 (show_int i) = Some i"
proof (cases "i < 0")
  case True
  with assms show ?thesis
    by (simp add: parse_i64_def show_int_def std_simps)
next
  case False
  obtain c cs where c: "show_nat (nat i) = c # cs"
    using show_nat_digits [of "nat i"] by (cases "show_nat (nat i)") auto
  then have "digits_value (c # cs) = Some (nat i)"
    by (metis digits_value_show_nat)
  with False assms c digits_value_Cons [OF this] show ?thesis
    by (simp add: parse_i64_def show_int_def)
qed

lemma parse_usize_show_nat [std_simps]:
  assumes "n < 2 ^ 64"
  shows "parse_usize (show_nat n) = Some n"
proof -
  obtain c cs where c: "show_nat n = c # cs"
    using show_nat_digits [of n] by (cases "show_nat n") auto
  then have "digits_value (c # cs) = Some n"
    by (metis digits_value_show_nat)
  with assms c digits_value_Cons [OF this] show ?thesis
    by (simp add: parse_usize_def)
qed

lemma parse_i64_range: "parse_i64 bs = Some i \<Longrightarrow> i64_ok i"
  by (auto simp: parse_i64_def Let_def split: option.splits if_splits)

lemma show_int_graphic [std_simps]: "list_all graphic (show_int i)"
proof -
  have "list_all graphic (show_nat n)" for n
    using show_nat_digits [of n] by (auto simp: list_all_iff is_digit_graphic)
  then show ?thesis by (auto simp: show_int_def graphic_def)
qed

lemma graphic_ascii: "list_all graphic bs \<Longrightarrow> list_all is_ascii bs"
  by (auto simp: list_all_iff graphic_def is_ascii_def)

lemma show_int_ascii [std_simps]: "list_all is_ascii (show_int i)"
  by (rule graphic_ascii [OF show_int_graphic])

lemma show_nat_show_int: "show_nat n = show_int (int n)"
  by (simp add: show_int_def)

end
