(* ===== verification/Resp.thy ===== *)
theory Resp
  imports Rust_Std
begin

section \<open>RESP2: replies, requests, the incremental decoder and the reply reader\<close>

text \<open>
  The wire protocol of \<open>src/crates/trains-valkey/src/resp.rs\<close>. Server side: the reply tree and
  its encoder, and the decoder a connection feeds socket bytes into. Client side: the
  request encoder and the blocking reply reader. A blocking reader is the list of the
  bytes that will still arrive before end of file; reading returns the result and the
  bytes left. A panic of the Rust code (\<open>Vec::with_capacity\<close> past \<open>isize::MAX\<close> bytes) is an
  error value of its own. An allocation that fails for lack of memory is not modelled.
\<close>

named_theorems resp_simps \<open>reading back what the encoders wrote\<close>

subsection \<open>Replies and their encoding\<close>

datatype reply =
    Simple bytes
  | Error bytes
  | Integer int
  | Bulk bytes
  | NilReply
  | NilArray
  | Array "reply list"

abbreviation CR :: byte where "CR \<equiv> CHR 0x0D"
abbreviation LF :: byte where "LF \<equiv> CHR 0x0A"

definition crlf :: bytes where "crlf = [CR, LF]"

definition reply_ok :: reply where
  "reply_ok = Simple ''OK''"

definition reply_error :: "bytes \<Rightarrow> reply" where
  "reply_error msg = Error msg"

fun encode :: "reply \<Rightarrow> bytes \<Rightarrow> bytes" where
  "encode (Simple s) out = ((out @ ''+'') @ s) @ crlf"
| "encode (Error s) out = ((out @ ''-'') @ s) @ crlf"
| "encode (Integer i) out = ((out @ '':'') @ show_int i) @ crlf"
| "encode (Bulk b) out = ((((out @ ''$'') @ show_nat (length b)) @ crlf) @ b) @ crlf"
| "encode NilReply out = out @ ''$-1'' @ crlf"
| "encode NilArray out = out @ ''*-1'' @ crlf"
| "encode (Array items) out =
     foldl (\<lambda>o' it. encode it o') (((out @ ''*'') @ show_nat (length items)) @ crlf) items"

definition to_bytes :: "reply \<Rightarrow> bytes" where
  "to_bytes r = encode r []"

lemma foldl_append_out:
  assumes "\<And>x out. x \<in> set xs \<Longrightarrow> f out x = out @ g x"
  shows "foldl f out xs = out @ concat (map g xs)"
  using assms by (induction xs arbitrary: out) auto

lemma encode_append: "encode r out = out @ to_bytes r"
proof (induction r arbitrary: out)
  case (Array items)
  have arr: "encode (Array items) o' =
      (((o' @ ''*'') @ show_nat (length items)) @ crlf) @ concat (map to_bytes items)" for o'
    by (simp only: encode.simps)
      (rule foldl_append_out [of items "\<lambda>o' it. encode it o'" to_bytes], rule Array.IH)
  show ?case
    by (simp only: to_bytes_def [of "Array items"] arr append_assoc append_Nil)
qed (simp_all add: to_bytes_def)

lemma to_bytes_Array:
  "to_bytes (Array items) =
     CHR ''*'' # show_nat (length items) @ crlf @ concat (map to_bytes items)"
proof -
  have "to_bytes (Array items) = (([] @ ''*'') @ show_nat (length items)) @ crlf
      @ concat (map to_bytes items)"
    unfolding to_bytes_def [of "Array items"] encode.simps
    by (subst foldl_append_out [of items "\<lambda>o' it. encode it o'" to_bytes])
      (simp_all add: encode_append)
  then show ?thesis by simp
qed

lemma to_bytes_simps [resp_simps]:
  "to_bytes (Simple s) = CHR ''+'' # s @ crlf"
  "to_bytes (Error s) = CHR ''-'' # s @ crlf"
  "to_bytes (Integer i) = CHR '':'' # show_int i @ crlf"
  "to_bytes (Bulk b) = CHR ''$'' # show_nat (length b) @ crlf @ b @ crlf"
  "to_bytes NilReply = ''$-1'' @ crlf"
  "to_bytes NilArray = ''*-1'' @ crlf"
  by (simp_all add: to_bytes_def)

subsection \<open>Requests\<close>

definition encode_request :: "bytes list \<Rightarrow> bytes" where
  "encode_request argv =
     foldl (\<lambda>out a. ((out @ (''$'' @ show_nat (length a) @ crlf)) @ a) @ crlf)
       (''*'' @ show_nat (length argv) @ crlf) argv"

definition request_element :: "bytes \<Rightarrow> bytes" where
  "request_element a = ''$'' @ show_nat (length a) @ crlf @ a @ crlf"

lemma encode_request_eq:
  "encode_request argv =
     ''*'' @ show_nat (length argv) @ crlf @ concat (map request_element argv)"
  unfolding encode_request_def
  by (subst foldl_append_out [of _ _ request_element]) (auto simp: request_element_def)

subsection \<open>The incremental request decoder\<close>

datatype resp_error =
    Protocol bytes
  | CapacityPanic  \<comment> \<open>\<open>Vec::with_capacity\<close> panics with ``capacity overflow''\<close>

type_synonym parsed_frame = "bytes list \<times> nat"

fun find_crlf :: "bytes \<Rightarrow> nat option" where
  "find_crlf (a # b # r) =
     (if a = CR \<and> b = LF then Some 0 else map_option Suc (find_crlf (b # r)))"
| "find_crlf _ = None"

definition parse_crlf_line :: "bytes \<Rightarrow> (bytes \<times> nat) option" where
  "parse_crlf_line b =
     (case find_crlf b of None \<Rightarrow> None | Some idx \<Rightarrow> Some (take idx b, idx + 2))"

text \<open>\<open>str::from_utf8(b).ok().and_then(|s| s.trim().parse().ok())\<close>\<close>

definition parse_int_field :: "bytes \<Rightarrow> int option" where
  "parse_int_field b =
     (case from_utf8 b of None \<Rightarrow> None | Some s \<Rightarrow> parse_i64 (trim s))"

text \<open>The loop of \<open>parse_command\<close> over the elements still to read.\<close>

fun parse_elements ::
  "bytes \<Rightarrow> nat \<Rightarrow> nat \<Rightarrow> bytes list \<Rightarrow> resp_error + parsed_frame option" where
  "parse_elements b 0 cur argv = Inr (Some (argv, cur))"
| "parse_elements b (Suc n) cur argv =
     (case parse_crlf_line (drop cur b) of
        None \<Rightarrow> Inr None
      | Some (bulk_hdr, used) \<Rightarrow>
          (case bulk_hdr of
             [] \<Rightarrow> Inl (Protocol ''expected bulk-string element'')
           | c # len_text \<Rightarrow>
               if c \<noteq> CHR ''$'' then Inl (Protocol ''expected bulk-string element'')
               else
                 (case parse_int_field len_text of
                    None \<Rightarrow> Inl (Protocol ''bad bulk length'')
                  | Some len \<Rightarrow>
                      (let cur = cur + used in
                       if len < 0 then parse_elements b n cur (argv @ [[]])
                       else if length (drop cur b) < nat len + 2 then Inr None
                       else if take 2 (drop (cur + nat len) b) \<noteq> crlf then
                         Inl (Protocol ''missing CRLF after bulk payload'')
                       else parse_elements b n (cur + nat len + 2)
                              (argv @ [take (nat len) (drop cur b)])))))"

definition isize_max :: int where "isize_max = 9223372036854775807"

text \<open>A \<open>Vec<Vec<u8>>\<close> takes three machine words (24 bytes) an element.\<close>

definition argv_capacity_ok :: "int \<Rightarrow> bool" where
  "argv_capacity_ok n \<longleftrightarrow> 24 * n \<le> isize_max"

fun find_lf :: "bytes \<Rightarrow> nat option" where
  "find_lf [] = None"
| "find_lf (c # r) = (if c = LF then Some 0 else map_option Suc (find_lf r))"

fun split_blank :: "bytes \<Rightarrow> bytes list" where
  "split_blank [] = [[]]"
| "split_blank (c # r) =
     (if c = CHR '' '' \<or> c = CHR 0x09 then [] # split_blank r
      else (case split_blank r of [] \<Rightarrow> [[c]] | w # ws \<Rightarrow> (c # w) # ws))"

definition parse_inline :: "bytes \<Rightarrow> resp_error + parsed_frame option" where
  "parse_inline b =
     (case find_lf b of
        None \<Rightarrow> Inr None
      | Some nl \<Rightarrow>
          (let line = take nl b;
               line = (if line \<noteq> [] \<and> last line = CR then butlast line else line)
           in Inr (Some (filter (\<lambda>s. s \<noteq> []) (split_blank line), nl + 1))))"

definition parse_command :: "bytes \<Rightarrow> resp_error + parsed_frame option" where
  "parse_command b =
     (case b of
        [] \<Rightarrow> Inr None
      | c # _ \<Rightarrow>
          if c \<noteq> CHR ''*'' then parse_inline b
          else
            (case parse_crlf_line b of
               None \<Rightarrow> Inr None
             | Some (header, used) \<Rightarrow>
                 (case parse_int_field (tl header) of
                    None \<Rightarrow> Inl (Protocol ''bad multibulk header'')
                  | Some n \<Rightarrow>
                      if n \<le> 0 then Inr (Some ([], used))
                      else if \<not> argv_capacity_ok n then Inl CapacityPanic
                      else parse_elements b (nat n) used [])))"

record resp_decoder =
  buf :: bytes

definition decoder_new :: resp_decoder where
  "decoder_new = \<lparr>buf = []\<rparr>"

definition feed :: "bytes \<Rightarrow> resp_decoder \<Rightarrow> resp_decoder" where
  "feed bs d = d\<lparr>buf := buf d @ bs\<rparr>"

definition next_command :: "resp_decoder \<Rightarrow> (resp_error + bytes list option) \<times> resp_decoder" where
  "next_command d =
     (case parse_command (buf d) of
        Inl e \<Rightarrow> (Inl e, d)
      | Inr None \<Rightarrow> (Inr None, d)
      | Inr (Some (argv, used)) \<Rightarrow> (Inr (Some argv), d\<lparr>buf := drop used (buf d)\<rparr>))"

text \<open>
  The inner loop of a connection (\<open>client_loop\<close>): take commands until the buffer holds no
  complete one, or until the first protocol error. Every command taken shortens the buffer.
\<close>

lemma find_crlf_bound: "find_crlf b = Some i \<Longrightarrow> i + 2 \<le> length b"
  by (induction b arbitrary: i rule: find_crlf.induct) (auto split: if_splits)

lemma find_lf_bound: "find_lf b = Some i \<Longrightarrow> i < length b"
  by (induction b arbitrary: i) (auto split: if_splits)

lemma parse_crlf_line_bound:
  "parse_crlf_line b = Some (h, u) \<Longrightarrow> h = take (u - 2) b \<and> 2 \<le> u \<and> u \<le> length b"
  by (auto simp: parse_crlf_line_def dest: find_crlf_bound split: option.splits)

lemma parse_elements_bound:
  "parse_elements b n cur argv = Inr (Some (argv', used)) \<Longrightarrow> cur \<le> length b \<Longrightarrow>
     cur \<le> used \<and> used \<le> length b"
proof (induction b n cur argv rule: parse_elements.induct)
  case (2 b n cur argv)
  from "2.prems" obtain hdr u c tx len where
    h: "parse_crlf_line (drop cur b) = Some (hdr, u)" "hdr = c # tx" "\<not> c \<noteq> CHR ''$''"
      "parse_int_field tx = Some len"
    by (auto split: option.splits prod.splits list.splits if_splits)
  have u: "cur + u \<le> length b"
    using parse_crlf_line_bound [OF h(1)] "2.prems"(2) by auto
  consider (neg) "len < 0"
      "parse_elements b n (cur + u) (argv @ [[]]) = Inr (Some (argv', used))"
    | (payload) "\<not> len < 0" "nat len + 2 \<le> length (drop (cur + u) b)"
      "take 2 (drop (cur + u + nat len) b) = crlf"
      "parse_elements b n (cur + u + nat len + 2) (argv @ [take (nat len) (drop (cur + u) b)])
         = Inr (Some (argv', used))"
    using "2.prems"(1) h by (auto simp: Let_def split: if_splits)
  then show ?case
  proof cases
    case neg
    then have "cur + u \<le> used \<and> used \<le> length b"
      using "2.IH"(1) [OF h(1) refl h(2,3,4) refl] u by simp
    then show ?thesis by simp
  next
    case payload
    then have "cur + u + nat len + 2 \<le> used \<and> used \<le> length b"
      using "2.IH"(2) [OF h(1) refl h(2,3,4) refl] u by simp
    then show ?thesis by simp
  qed
qed simp

lemma parse_command_bound:
  assumes "parse_command b = Inr (Some (argv, used))"
  shows "0 < used \<and> used \<le> length b"
proof (cases b)
  case (Cons c r)
  show ?thesis
  proof (cases "c = CHR ''*''")
    case False
    with assms Cons obtain nl where "find_lf b = Some nl" "used = nl + 1"
      by (auto simp: parse_command_def parse_inline_def Let_def split: option.splits)
    then show ?thesis using find_lf_bound [of b nl] by simp
  next
    case True
    from assms Cons True obtain h u where h: "parse_crlf_line b = Some (h, u)"
      by (auto simp: parse_command_def split: option.splits)
    with assms Cons True consider "used = u"
      | n where "parse_elements b (nat n) u [] = Inr (Some (argv, used))"
      by (auto simp: parse_command_def split: option.splits if_splits)
    then have "u \<le> used \<and> used \<le> length b"
      using parse_crlf_line_bound [OF h] by cases (auto dest: parse_elements_bound)
    then show ?thesis
      using parse_crlf_line_bound [OF h] by simp
  qed
qed (use assms in \<open>simp add: parse_command_def\<close>)

lemma next_command_Some:
  "next_command d = (Inr (Some argv), d') \<Longrightarrow>
     \<exists>used. parse_command (buf d) = Inr (Some (argv, used)) \<and> d' = d\<lparr>buf := drop used (buf d)\<rparr>"
  by (auto simp: next_command_def split: sum.splits option.splits)

lemma next_command_shorter:
  "(Inr (Some argv), d') = next_command d \<Longrightarrow> length (buf d') < length (buf d)"
  using next_command_Some [of d argv d'] parse_command_bound [of "buf d" argv] by fastforce

function drain :: "resp_decoder \<Rightarrow> (bytes list list \<times> resp_error option) \<times> resp_decoder" where
  "drain d =
     (case next_command d of
        (Inl e, d') \<Rightarrow> (([], Some e), d')
      | (Inr None, d') \<Rightarrow> (([], None), d')
      | (Inr (Some argv), d') \<Rightarrow>
          (case drain d' of ((cmds, e), d'') \<Rightarrow> ((argv # cmds, e), d'')))"
  by pat_completeness auto
termination
  by (relation "measure (\<lambda>d. length (buf d))") (auto dest: next_command_shorter)

declare drain.simps [simp del]

text \<open>A connection that receives its bytes in chunks, draining after each.\<close>

fun run_chunks ::
  "bytes list \<Rightarrow> resp_decoder \<Rightarrow> (bytes list list \<times> resp_error option) \<times> resp_decoder" where
  "run_chunks [] d = (([], None), d)"
| "run_chunks (c # cs) d =
     (case drain (feed c d) of
        ((cmds, Some e), d') \<Rightarrow> ((cmds, Some e), d')
      | ((cmds, None), d') \<Rightarrow>
          (case run_chunks cs d' of ((cmds', e), d'') \<Rightarrow> ((cmds @ cmds', e), d'')))"

subsection \<open>Decoding does not depend on how the bytes are cut\<close>

lemma find_crlf_append: "find_crlf b = Some i \<Longrightarrow> find_crlf (b @ c) = Some i"
  by (induction b arbitrary: i rule: find_crlf.induct) (auto split: if_splits)

lemma find_lf_append: "find_lf b = Some i \<Longrightarrow> find_lf (b @ c) = Some i"
  by (induction b arbitrary: i) (auto split: if_splits)

lemma parse_crlf_line_append:
  "parse_crlf_line b = Some x \<Longrightarrow> parse_crlf_line (b @ c) = Some x"
  by (auto simp: parse_crlf_line_def find_crlf_append dest: find_crlf_bound split: option.splits)

lemma parse_elements_append:
  "parse_elements b n cur argv = res \<Longrightarrow> res \<noteq> Inr None \<Longrightarrow> cur \<le> length b \<Longrightarrow>
     parse_elements (b @ c) n cur argv = res"
proof (induction b n cur argv rule: parse_elements.induct)
  case (2 b n cur argv)
  from "2.prems"(1,2) obtain hdr u where
    h: "parse_crlf_line (drop cur b) = Some (hdr, u)"
    by (auto split: option.splits)
  have hc: "parse_crlf_line (drop cur (b @ c)) = Some (hdr, u)"
    using parse_crlf_line_append [OF h] "2.prems"(3) by simp
  have u: "cur + u \<le> length b"
    using parse_crlf_line_bound [OF h] "2.prems"(3) by auto
  show ?case
  proof (cases "\<exists>tx len. hdr = CHR ''$'' # tx \<and> parse_int_field tx = Some len")
    case False
    with "2.prems"(1) h hc show ?thesis by (auto split: list.splits option.splits)
  next
    case True
    then obtain tx len where
      t: "hdr = CHR ''$'' # tx" "parse_int_field tx = Some len" by blast
    note IH = "2.IH" [OF h refl t(1) _ t(2) refl]
    consider (neg) "len < 0" | (short) "\<not> len < 0" "length (drop (cur + u) b) < nat len + 2"
      | (full) "\<not> len < 0" "nat len + 2 \<le> length (drop (cur + u) b)"
      by linarith
    then show ?thesis
    proof cases
      case neg
      with "2.prems" h hc t IH(1) u show ?thesis by simp
    next
      case short
      with "2.prems" h t show ?thesis by (simp add: Let_def)
    next
      case full
      have tk: "take 2 (drop (cur + u + nat len) (b @ c)) = take 2 (drop (cur + u + nat len) b)"
        "take (nat len) (drop (cur + u) (b @ c)) = take (nat len) (drop (cur + u) b)"
        using full u by simp_all
      show ?thesis
      proof (cases "take 2 (drop (cur + u + nat len) b) = crlf")
        case True
        with full "2.prems" h hc t tk u IH(2) show ?thesis by (simp add: Let_def)
      next
        case False
        with full "2.prems" h hc t tk u show ?thesis by (simp add: Let_def)
      qed
    qed
  qed
qed simp

lemma parse_command_append:
  assumes "parse_command b = res" "res \<noteq> Inr None"
  shows "parse_command (b @ c) = res"
proof (cases b)
  case (Cons x r)
  show ?thesis
  proof (cases "x = CHR ''*''")
    case False
    with Cons assms obtain nl where nl: "find_lf b = Some nl"
      by (auto simp: parse_command_def parse_inline_def split: option.splits)
    then have "find_lf (b @ c) = Some nl" "take nl (b @ c) = take nl b"
      using find_lf_bound [OF nl] by (simp_all add: find_lf_append)
    then have "parse_inline (b @ c) = parse_inline b"
      unfolding parse_inline_def by (simp only: nl option.case)
    then show ?thesis
      using Cons False assms by (simp add: parse_command_def)
  next
    case True
    obtain h u where h: "parse_crlf_line b = Some (h, u)"
      using assms Cons True by (auto simp: parse_command_def split: option.splits)
    have "u \<le> length b" using parse_crlf_line_bound [OF h] by simp
    then have el: "parse_elements b (nat n) u [] = res \<Longrightarrow> res \<noteq> Inr None \<Longrightarrow>
        parse_elements (b @ c) (nat n) u [] = res" for n
      using parse_elements_append by blast
    show ?thesis
      using assms Cons True h parse_crlf_line_append [OF h, of c] el
      by (auto simp: parse_command_def split: option.splits if_splits)
  qed
qed (use assms in \<open>simp add: parse_command_def\<close>)

lemma drain_append:
  "drain d = ((cmds, e), d') \<Longrightarrow>
     drain (feed c d) =
       (case e of
          Some _ \<Rightarrow> ((cmds, e), feed c d')
        | None \<Rightarrow> (case drain (feed c d') of ((cmds', e'), d'') \<Rightarrow> ((cmds @ cmds', e'), d'')))"
proof (induction d arbitrary: cmds e d' rule: drain.induct)
  case (1 d)
  consider (err) x where "parse_command (buf d) = Inl x" | (more) "parse_command (buf d) = Inr None"
    | (cmd) argv used where "parse_command (buf d) = Inr (Some (argv, used))"
    by (metis obj_sumE old.prod.exhaust option.exhaust)
  then show ?case
  proof cases
    case err
    then have "next_command d = (Inl x, d)" "next_command (feed c d) = (Inl x, feed c d)"
      using parse_command_append [of "buf d" "Inl x" c] by (simp_all add: next_command_def feed_def)
    then have "drain d = (([], Some x), d)" "drain (feed c d) = (([], Some x), feed c d)"
      by (simp_all add: drain.simps [of d] drain.simps [of "feed c d"])
    then show ?thesis using "1.prems" by auto
  next
    case more
    then have "next_command d = (Inr None, d)" by (simp add: next_command_def)
    then show ?thesis
      using "1.prems" by (auto simp: drain.simps [of d] split: prod.splits)
  next
    case cmd
    let ?d1 = "d\<lparr>buf := drop used (buf d)\<rparr>"
    have le: "used \<le> length (buf d)" using parse_command_bound [OF cmd] by simp
    have n1: "next_command d = (Inr (Some argv), ?d1)"
      using cmd by (simp add: next_command_def)
    have n2: "next_command (feed c d) = (Inr (Some argv), feed c ?d1)"
      using parse_command_append [OF cmd, of c] le by (simp add: next_command_def feed_def)
    obtain cs e1 d1 where r: "drain ?d1 = ((cs, e1), d1)"
      by (cases "drain ?d1") auto
    have "cmds = argv # cs" "e = e1" "d' = d1"
      using "1.prems" n1 r by (simp_all add: drain.simps [of d])
    moreover note "1.IH" [OF n1 [symmetric] refl refl r]
    ultimately show ?thesis
      using n2 by (simp add: drain.simps [of "feed c d"] split: option.splits prod.splits)
  qed
qed

lemma drain_idle: "drain d = ((cmds, None), d') \<Longrightarrow> drain d' = (([], None), d')"
proof (induction d arbitrary: cmds rule: drain.induct)
  case (1 d)
  show ?case
  proof (cases "next_command d")
    case (Pair r d1)
    consider "r = Inr None" | argv where "r = Inr (Some argv)"
      using "1.prems" Pair by (auto simp: drain.simps [of d] split: sum.splits option.splits)
    then show ?thesis
    proof cases
      case 1
      then have "d1 = d"
        using Pair by (auto simp: next_command_def split: sum.splits option.splits)
      with 1 Pair have "drain d = (([], None), d)" by (simp add: drain.simps [of d])
      with "1.prems" show ?thesis by simp
    next
      case 2
      with Pair "1.prems" "1.IH" [OF Pair [symmetric] 2 refl] show ?thesis
        by (auto simp: drain.simps [of d] split: prod.splits)
    qed
  qed
qed

lemma feed_feed: "feed c2 (feed c1 d) = feed (c1 @ c2) d"
  by (simp add: feed_def)

lemma run_chunks_concat: "fst (run_chunks cs d) = fst (drain (feed (concat cs) d))"
  if "drain d = (([], None), d)"
  using that
proof (induction cs arbitrary: d)
  case Nil
  then show ?case by (simp add: feed_def)
next
  case (Cons c cs)
  obtain cmds e d' where dr: "drain (feed c d) = ((cmds, e), d')"
    by (cases "drain (feed c d)") auto
  show ?case
  proof (cases e)
    case (Some x)
    with dr drain_append [OF dr, of "concat cs"] show ?thesis by (simp add: feed_feed)
  next
    case None
    have "drain d' = (([], None), d')"
      using drain_idle [of "feed c d" cmds d'] dr None by simp
    with Cons.IH [of d'] dr None drain_append [OF dr, of "concat cs"] show ?thesis
      by (auto simp: feed_feed split: prod.splits)
  qed
qed

subsection \<open>Requests read back\<close>

lemma find_crlf_first: "CR \<notin> set s \<Longrightarrow> find_crlf (s @ CR # LF # r) = Some (length s)"
proof (induction s)
  case (Cons a s)
  then show ?case by (cases s) auto
qed simp

lemma parse_crlf_line_first [resp_simps]:
  "CR \<notin> set s \<Longrightarrow> parse_crlf_line (s @ crlf @ r) = Some (s, length s + 2)"
  by (simp add: parse_crlf_line_def crlf_def find_crlf_first)

lemma graphic_no_CR: "list_all graphic s \<Longrightarrow> CR \<notin> set s \<and> LF \<notin> set s"
  by (auto simp: list_all_iff graphic_def)

lemma show_int_no_line_end [resp_simps]: "CR \<notin> set (show_int i)" "LF \<notin> set (show_int i)"
  using graphic_no_CR [OF show_int_graphic] by auto

lemma show_nat_no_line_end [resp_simps]: "CR \<notin> set (show_nat n)" "LF \<notin> set (show_nat n)"
  unfolding show_nat_show_int by (rule show_int_no_line_end)+

lemma parse_int_field_show [resp_simps]: "i64_ok i \<Longrightarrow> parse_int_field (show_int i) = Some i"
  by (simp add: parse_int_field_def from_utf8_def std_simps)

lemma parse_int_field_show_nat [resp_simps]:
  "i64_ok (int n) \<Longrightarrow> parse_int_field (show_nat n) = Some (int n)"
  by (simp add: show_nat_show_int resp_simps)

lemma parse_elements_payload:
  assumes "parse_crlf_line (drop cur b) = Some (CHR ''$'' # tx, u)"
    and "parse_int_field tx = Some (int (length a))"
    and "drop (cur + u) b = a @ crlf @ t"
  shows "parse_elements b (Suc k) cur argv
    = parse_elements b k (cur + u + length a + 2) (argv @ [a])"
proof -
  have "drop (cur + u + length a) b = drop (length a) (drop (cur + u) b)"
    by (simp only: drop_drop add.commute)
  then have rest: "drop (cur + u + length a) b = crlf @ t"
    using assms(3) by simp
  have "length (drop (cur + u) b) = length a + 2 + length t"
    using assms(3) by (simp add: crlf_def)
  then show ?thesis
    using rest by (simp add: assms(1,2) Let_def assms(3) crlf_def del: length_drop)
qed

lemma parse_elements_request:
  assumes "list_all (\<lambda>a. i64_ok (int (length a))) as"
  shows "parse_elements (pre @ concat (map request_element as) @ rest) (length as) (length pre) argv
    = Inr (Some (argv @ as, length pre + length (concat (map request_element as))))"
  using assms
proof (induction as arbitrary: pre argv)
  case (Cons a as)
  let ?hdr = "CHR ''$'' # show_nat (length a)"
  let ?tail = "concat (map request_element as) @ rest"
  let ?b = "pre @ concat (map request_element (a # as)) @ rest"
  have line: "parse_crlf_line (drop (length pre) ?b) = Some (?hdr, length ?hdr + 2)"
    using parse_crlf_line_first [of ?hdr "a @ crlf @ ?tail"]
    by (simp add: request_element_def resp_simps)
  have split: "?b = (pre @ ?hdr @ crlf) @ a @ crlf @ ?tail"
    by (simp add: request_element_def)
  have pos: "length pre + (length ?hdr + 2) = length (pre @ ?hdr @ crlf)"
    by (simp add: crlf_def)
  have body: "drop (length pre + (length ?hdr + 2)) ?b = a @ crlf @ ?tail"
    unfolding split pos by simp
  have len: "parse_int_field (show_nat (length a)) = Some (int (length a))"
    using Cons.prems by (simp add: resp_simps)
  have "parse_elements ?b (length (a # as)) (length pre) argv =
      parse_elements ?b (length as) (length pre + (length ?hdr + 2) + length a + 2) (argv @ [a])"
    using parse_elements_payload [OF line len body] by simp
  also have "\<dots> = parse_elements ((pre @ request_element a) @ ?tail) (length as)
      (length (pre @ request_element a)) (argv @ [a])"
    by (simp add: request_element_def crlf_def add.assoc)
  also have "\<dots> = Inr (Some (argv @ a # as, length pre
      + length (concat (map request_element (a # as)))))"
    using Cons.IH [of "pre @ request_element a" "argv @ [a]"] Cons.prems by simp
  finally show ?case .
qed simp

definition request_fits :: "bytes list \<Rightarrow> bool" where
  "request_fits argv \<longleftrightarrow>
     argv_capacity_ok (int (length argv)) \<and> list_all (\<lambda>a. i64_ok (int (length a))) argv"

lemma parse_command_request:
  assumes "request_fits argv"
  shows "parse_command (encode_request argv @ rest)
    = Inr (Some (argv, length (encode_request argv)))"
proof -
  let ?hdr = "CHR ''*'' # show_nat (length argv)"
  let ?b = "encode_request argv @ rest"
  have b: "?b = ?hdr @ crlf @ concat (map request_element argv) @ rest"
    by (simp add: encode_request_eq)
  have cap: "argv_capacity_ok (int (length argv))" "i64_ok (int (length argv))"
    using assms
    by (auto simp: request_fits_def argv_capacity_ok_def i64_ok_def i64_min_def i64_max_def
        isize_max_def)
  have line: "parse_crlf_line ?b = Some (?hdr, length ?hdr + 2)"
    unfolding b by (rule parse_crlf_line_first) (simp add: resp_simps)
  have field: "parse_int_field (tl ?hdr) = Some (int (length argv))"
    using cap by (simp add: resp_simps)
  show ?thesis
  proof (cases argv)
    case Nil
    with line field show ?thesis
      by (simp add: parse_command_def encode_request_eq crlf_def)
  next
    case (Cons a as)
    have "parse_elements ?b (length argv) (length ?hdr + 2) []
        = Inr (Some (argv, length (encode_request argv)))"
      using parse_elements_request [of argv "?hdr @ crlf" rest "[]"] assms
      by (simp add: encode_request_eq crlf_def request_fits_def)
    moreover have "parse_command ?b = parse_elements ?b (length argv) (length ?hdr + 2) []"
    proof -
      obtain r where "?b = CHR ''*'' # r" unfolding b by simp
      moreover have "0 < int (length argv)" using Cons by simp
      ultimately show ?thesis
        using line field cap(1) unfolding parse_command_def by (simp del: list.sel(3))
    qed
    ultimately show ?thesis by simp
  qed
qed

lemma next_command_request:
  assumes "request_fits argv"
  shows "next_command \<lparr>buf = encode_request argv @ rest\<rparr> = (Inr (Some argv), \<lparr>buf = rest\<rparr>)"
  using parse_command_request [OF assms, of rest] by (simp add: next_command_def)

lemma drain_requests:
  "list_all request_fits reqs \<Longrightarrow>
     drain \<lparr>buf = concat (map encode_request reqs)\<rparr> = ((reqs, None), decoder_new)"
proof (induction reqs)
  case Nil
  then show ?case
    by (simp add: drain.simps next_command_def parse_command_def decoder_new_def)
next
  case (Cons r rs)
  then show ?case
    by (subst drain.simps) (simp add: next_command_request)
qed

end
