(* ===== verification/Reply_Reader.thy ===== *)
theory Reply_Reader
  imports Resp
begin

section \<open>Reading a reply back: \<open>read_reply\<close>\<close>

text \<open>
  The client side of \<open>src/crates/trains-valkey/src/resp.rs\<close>: the blocking reply reader the
  engine backend and the load driver use. A reader is the list of bytes that will still
  arrive; a call returns its result and the bytes that are left, also when it fails (the
  connection is used again after a failed read). The recursion is the one of the source: an
  array reads its items with the same function, and terminates because every reply takes
  at least one byte. The main results are that the reader inverts the encoder on every
  reply whose text holds no line end, and that an encoded error whose text holds one is
  read back as something else.
\<close>

datatype io_kind =
    UnexpectedEof | InvalidData | WouldBlock | TimedOut | ConnectionReset | BrokenPipe
  | ConnectionAborted | PermissionDenied | OtherKind

datatype io_error =
    IoError io_kind bytes
  | IoPanic  \<comment> \<open>a capacity overflow panics instead of returning an error\<close>

fun io_error_kind :: "io_error \<Rightarrow> io_kind" where
  "io_error_kind (IoError k m) = k"
| "io_error_kind IoPanic = OtherKind"

definition read_until_lf :: "bytes \<Rightarrow> bytes \<times> bytes" where
  "read_until_lf r =
     (case find_lf r of None \<Rightarrow> (r, []) | Some i \<Rightarrow> (take (i + 1) r, drop (i + 1) r))"

definition strip_line_end :: "bytes \<Rightarrow> bytes" where
  "strip_line_end line = rev (dropWhile (\<lambda>c. c = LF \<or> c = CR) (rev line))"

definition parse_reply_int :: "bytes \<Rightarrow> io_error + int" where
  "parse_reply_int b =
     (case parse_int_field b of
        None \<Rightarrow> Inl (IoError InvalidData ''bad RESP integer'')
      | Some n \<Rightarrow> Inr n)"

definition read_exact :: "nat \<Rightarrow> bytes \<Rightarrow> (io_error + bytes) \<times> bytes" where
  "read_exact n r =
     (if length r < n then (Inl (IoError UnexpectedEof ''failed to fill whole buffer''), [])
      else (Inr (take n r), drop n r))"

text \<open>A \<open>Reply\<close> takes four machine words (a tag and the widest payload, a \<open>String\<close>).\<close>

definition items_capacity_ok :: "int \<Rightarrow> bool" where
  "items_capacity_ok n \<longleftrightarrow> 32 * n \<le> isize_max"

definition payload_capacity_ok :: "int \<Rightarrow> bool" where
  "payload_capacity_ok n \<longleftrightarrow> n + 2 \<le> isize_max"

text \<open>
  The part of \<open>read_reply\<close> before its recursion: the line, the marker and the scalar replies.
  \<open>Whole\<close> is a finished call, \<open>Items n\<close> an array header that asks for \<open>n\<close> items.
\<close>

datatype reply_head =
    Whole "io_error + reply"
  | Items nat

definition read_head :: "bytes \<Rightarrow> reply_head \<times> bytes" where
  "read_head r =
     (case read_until_lf r of
        (raw, rest) \<Rightarrow>
          if raw = [] then (Whole (Inl (IoError UnexpectedEof ''eof reading reply'')), rest)
          else
            (case strip_line_end raw of
               [] \<Rightarrow> (Whole (Inl (IoError InvalidData ''empty reply line'')), rest)
             | marker # body \<Rightarrow>
                 if marker = CHR ''+'' then (Whole (Inr (Simple (from_utf8_lossy body))), rest)
                 else if marker = CHR ''-'' then (Whole (Inr (Error (from_utf8_lossy body))), rest)
                 else if marker = CHR '':'' then
                   (case parse_reply_int body of
                      Inl e \<Rightarrow> (Whole (Inl e), rest)
                    | Inr i \<Rightarrow> (Whole (Inr (Integer i)), rest))
                 else if marker = CHR ''$'' then
                   (case parse_reply_int body of
                      Inl e \<Rightarrow> (Whole (Inl e), rest)
                    | Inr len \<Rightarrow>
                        if len < 0 then (Whole (Inr NilReply), rest)
                        else if \<not> payload_capacity_ok len then (Whole (Inl IoPanic), rest)
                        else
                          (case read_exact (nat len + 2) rest of
                             (Inl e, r') \<Rightarrow> (Whole (Inl e), r')
                           | (Inr b, r') \<Rightarrow> (Whole (Inr (Bulk (take (nat len) b))), r')))
                 else if marker = CHR ''*'' then
                   (case parse_reply_int body of
                      Inl e \<Rightarrow> (Whole (Inl e), rest)
                    | Inr len \<Rightarrow>
                        if len < 0 then (Whole (Inr NilArray), rest)
                        else if \<not> items_capacity_ok len then (Whole (Inl IoPanic), rest)
                        else (Items (nat len), rest))
                 else
                   (Whole (Inl (IoError InvalidData
                      (''unknown RESP reply marker '' @ show_nat (code marker)))), rest)))"

lemma read_until_lf_length:
  "read_until_lf r = (raw, rest) \<Longrightarrow> length r = length raw + length rest"
  using find_lf_bound [of r] by (auto simp: read_until_lf_def split: option.splits)

lemma read_exact_length: "read_exact n r = (x, r') \<Longrightarrow> length r' \<le> length r"
  by (auto simp: read_exact_def split: if_splits)

lemma read_head_length:
  assumes "read_head r = (h, r')"
  shows "length r' \<le> length r" "h = Items n \<Longrightarrow> length r' < length r"
proof -
  obtain raw rest where rd: "read_until_lf r = (raw, rest)"
    by (cases "read_until_lf r") auto
  have le: "length r' \<le> length rest"
    using assms rd by (auto simp: read_head_def dest!: read_exact_length
        split: if_splits list.splits sum.splits prod.splits)
  then show "length r' \<le> length r"
    using read_until_lf_length [OF rd] by simp
  show "length r' < length r" if "h = Items n"
  proof -
    have "raw \<noteq> []" using assms rd that by (auto simp: read_head_def)
    then have "0 < length raw" by simp
    then show ?thesis using le read_until_lf_length [OF rd] by linarith
  qed
qed

function (sequential)
  read_reply :: "bytes \<Rightarrow> (io_error + reply) \<times> bytes"
  and read_items :: "nat \<Rightarrow> bytes \<Rightarrow> (io_error + reply list) \<times> bytes" where
  "read_reply r =
     (case read_head r of
        (Whole x, r') \<Rightarrow> (x, r')
      | (Items n, r') \<Rightarrow>
          (case read_items n r' of
             (Inl e, r'') \<Rightarrow> (Inl e, r'')
           | (Inr items, r'') \<Rightarrow> (Inr (Array items), r'')))"
| "read_items 0 r = (Inr [], r)"
| "read_items (Suc n) r =
     (case read_reply r of
        (Inl e, r') \<Rightarrow> (Inl e, r')
      | (Inr x, r') \<Rightarrow>
          (case read_items n r' of
             (Inl e, r'') \<Rightarrow> (Inl e, r'')
           | (Inr xs, r'') \<Rightarrow> (Inr (x # xs), r'')))"
  by pat_completeness auto

lemma read_length_dom:
  "read_reply_read_items_dom (Inl r) \<Longrightarrow> length (snd (read_reply r)) \<le> length r"
  "read_reply_read_items_dom (Inr (n, r)) \<Longrightarrow> length (snd (read_items n r)) \<le> length r"
proof (induction r and n r rule: read_reply_read_items.pinduct)
  case (1 r)
  obtain h r' where h: "read_head r = (h, r')"
    by (cases "read_head r") auto
  show ?case
  proof (cases h)
    case (Whole x)
    with h read_head_length(1) [OF h] "1.hyps" show ?thesis
      by (simp add: read_reply.psimps)
  next
    case (Items n)
    with "1.IH" [OF h [symmetric]] have "length (snd (read_items n r')) \<le> length r'" by simp
    with h Items read_head_length(1) [OF h] "1.hyps" show ?thesis
      by (auto simp: read_reply.psimps split: sum.splits prod.splits)
  qed
next
  case (2 r)
  then show ?case by (simp add: read_items.psimps)
next
  case (3 n r)
  obtain x r' where x: "read_reply r = (x, r')"
    by (cases "read_reply r") auto
  show ?case
  proof (cases x)
    case (Inl e)
    with x "3.hyps" "3.IH"(1) show ?thesis by (simp add: read_items.psimps)
  next
    case (Inr y)
    with "3.IH"(2) [OF x [symmetric]] have "length (snd (read_items n r')) \<le> length r'" by simp
    with x Inr "3.IH"(1) "3.hyps" show ?thesis
      by (auto simp: read_items.psimps split: sum.splits prod.splits)
  qed
qed

termination read_reply
proof (relation "measures
    [case_sum length (\<lambda>(n, r). length r), case_sum (\<lambda>_. 0) (\<lambda>(n, r). Suc n)]", goal_cases)
  case 1
  show ?case by simp
next
  case (2 r x r' n)
  then show ?case using read_head_length(2) [of r x r' n] by simp
next
  case (3 n r)
  then show ?case by simp
next
  case (4 n r x r' y)
  then have "length (snd (read_reply r)) \<le> length r" by (simp add: read_length_dom)
  with 4 show ?case by (auto simp: prod_eq_iff)
qed

declare read_reply.simps [simp del] read_items.simps(2) [simp del]

subsection \<open>The reader inverts the encoder\<close>

definition text_clean :: "bytes \<Rightarrow> bool" where
  "text_clean s \<longleftrightarrow> utf8_valid s \<and> LF \<notin> set s \<and> (s = [] \<or> last s \<noteq> CR)"

fun reply_clean :: "reply \<Rightarrow> bool" where
  "reply_clean (Simple s) = text_clean s"
| "reply_clean (Error s) = text_clean s"
| "reply_clean (Integer i) = i64_ok i"
| "reply_clean (Bulk b) = payload_capacity_ok (int (length b))"
| "reply_clean NilReply = True"
| "reply_clean NilArray = True"
| "reply_clean (Array items) =
     (items_capacity_ok (int (length items)) \<and> list_all reply_clean items)"

lemma find_lf_first: "LF \<notin> set s \<Longrightarrow> find_lf (s @ LF # r) = Some (length s)"
  by (induction s) auto

lemma read_until_lf_line [resp_simps]:
  assumes "LF \<notin> set s"
  shows "read_until_lf (s @ crlf @ r) = (s @ crlf, r)"
proof -
  have "find_lf ((s @ [CR]) @ LF # r) = Some (length (s @ [CR]))"
    using assms by (intro find_lf_first) auto
  then have "find_lf (s @ crlf @ r) = Some (length s + 1)"
    by (simp add: crlf_def)
  moreover have "take (length s + 2) (s @ crlf @ r) = s @ crlf"
    "drop (length s + 2) (s @ crlf @ r) = r"
    by (simp_all add: crlf_def)
  ultimately show ?thesis
    by (simp add: read_until_lf_def)
qed

lemma strip_line_end_line [resp_simps]:
  assumes "last (m # s) \<noteq> CR" "last (m # s) \<noteq> LF"
  shows "strip_line_end (m # s @ crlf) = m # s"
proof -
  have "dropWhile (\<lambda>c. c = LF \<or> c = CR) (rev (m # s)) = rev (m # s)"
    using assms by (subst dropWhile_eq_self_iff) (simp only: hd_rev, blast)
  then show ?thesis
    by (simp add: strip_line_end_def crlf_def)
qed

lemma read_head_line:
  assumes "m \<noteq> LF" "m \<noteq> CR" "LF \<notin> set s" "s = [] \<or> last s \<noteq> CR"
  shows "read_until_lf (m # s @ crlf @ rest) = (m # s @ crlf, rest)
    \<and> strip_line_end (m # s @ crlf) = m # s"
proof (rule conjI)
  show "read_until_lf (m # s @ crlf @ rest) = (m # s @ crlf, rest)"
    using assms(1,3) read_until_lf_line [of "m # s" rest] by simp
  have "last (m # s) \<noteq> LF"
    using assms(1,3) by (cases "s = []") (auto dest: last_in_set)
  moreover have "last (m # s) \<noteq> CR"
    using assms(2,4) by auto
  ultimately show "strip_line_end (m # s @ crlf) = m # s"
    by (rule strip_line_end_line [rotated])
qed

lemma parse_reply_int_show [resp_simps]:
  "i64_ok i \<Longrightarrow> parse_reply_int (show_int i) = Inr i"
  "i64_ok (int n) \<Longrightarrow> parse_reply_int (show_nat n) = Inr (int n)"
  by (simp_all add: parse_reply_int_def resp_simps)

lemma show_int_last:
  "show_int i = [] \<or> last (show_int i) \<noteq> CR" "show_nat n = [] \<or> last (show_nat n) \<noteq> CR"
  using show_int_no_line_end [of i] show_nat_no_line_end [of n] by (metis last_in_set)+

lemma capacity_i64:
  "payload_capacity_ok n \<Longrightarrow> 0 \<le> n \<Longrightarrow> i64_ok n"
  "items_capacity_ok n \<Longrightarrow> 0 \<le> n \<Longrightarrow> i64_ok n"
  by (auto simp: payload_capacity_ok_def items_capacity_ok_def i64_ok_def i64_min_def i64_max_def
      isize_max_def)

lemma read_head_scalars [resp_simps]:
  "text_clean s \<Longrightarrow> read_head (CHR ''+'' # s @ crlf @ r) = (Whole (Inr (Simple s)), r)"
  "text_clean s \<Longrightarrow> read_head (CHR ''-'' # s @ crlf @ r) = (Whole (Inr (Error s)), r)"
  "i64_ok i \<Longrightarrow> read_head (CHR '':'' # show_int i @ crlf @ r) = (Whole (Inr (Integer i)), r)"
  using read_head_line [of "CHR ''+''" s r] read_head_line [of "CHR ''-''" s r]
    read_head_line [of "CHR '':''" "show_int i" r] show_int_last(1) [of i]
  by (auto simp: read_head_def text_clean_def std_simps resp_simps)

lemma read_head_nils [resp_simps]:
  "read_head (''$-1'' @ crlf @ r) = (Whole (Inr NilReply), r)"
  "read_head (''*-1'' @ crlf @ r) = (Whole (Inr NilArray), r)"
proof -
  have "parse_reply_int (show_int (- 1)) = Inr (- 1)"
    by (rule parse_reply_int_show) (simp add: i64_ok_def i64_min_def i64_max_def)
  moreover have "show_int (- 1) = ''-1''"
    by (simp add: show_int_def show_nat.simps digit_def)
  ultimately have m1: "parse_reply_int ''-1'' = Inr (- 1)" by simp
  show "read_head (''$-1'' @ crlf @ r) = (Whole (Inr NilReply), r)"
    "read_head (''*-1'' @ crlf @ r) = (Whole (Inr NilArray), r)"
    using read_head_line [of "CHR ''$''" "''-1''" r] read_head_line [of "CHR ''*''" "''-1''" r]
    by (simp_all add: read_head_def m1)
qed

lemma read_head_bulk [resp_simps]:
  assumes "payload_capacity_ok (int (length b))"
  shows "read_head (CHR ''$'' # show_nat (length b) @ crlf @ b @ crlf @ r)
    = (Whole (Inr (Bulk b)), r)"
  using assms read_head_line [of "CHR ''$''" "show_nat (length b)" "b @ crlf @ r"]
    show_int_last(2) [of "length b"] capacity_i64(1) [OF assms]
  by (simp add: read_head_def resp_simps read_exact_def crlf_def)

lemma read_head_array [resp_simps]:
  assumes "items_capacity_ok (int n)"
  shows "read_head (CHR ''*'' # show_nat n @ crlf @ r) = (Items n, r)"
  using assms read_head_line [of "CHR ''*''" "show_nat n" r]
    show_int_last(2) [of n] capacity_i64(2) [OF assms]
  by (simp add: read_head_def resp_simps)

lemma read_items_concat:
  assumes "\<And>x rest. x \<in> set items \<Longrightarrow> read_reply (to_bytes x @ rest) = (Inr x, rest)"
  shows "read_items (length items) (concat (map to_bytes items) @ rest) = (Inr items, rest)"
  using assms by (induction items) (auto simp: read_items.simps(2))

lemma read_reply_to_bytes:
  "reply_clean r \<Longrightarrow> read_reply (to_bytes r @ rest) = (Inr r, rest)"
proof (induction r arbitrary: rest)
  case (Array items)
  then have "read_reply (to_bytes x @ rest) = (Inr x, rest)" if "x \<in> set items" for x rest
    using that by (simp add: list_all_iff)
  then show ?case
    using Array.prems read_items_concat [of items rest]
    by (simp add: to_bytes_Array read_reply.simps resp_simps)
next
  case NilReply
  then show ?case using read_head_nils(1) [of rest]
    by (simp add: read_reply.simps resp_simps)
next
  case NilArray
  then show ?case using read_head_nils(2) [of rest]
    by (simp add: read_reply.simps resp_simps)
qed (simp_all add: read_reply.simps resp_simps)

subsection \<open>A text with a line end is read back as two replies\<close>

lemma read_reply_error_split:
  assumes "text_clean s"
  shows "read_reply (to_bytes (Error (s @ crlf @ t)) @ rest) = (Inr (Error s), t @ crlf @ rest)"
  using assms by (simp add: resp_simps read_reply.simps)

end
