(* ===== verification/Command.thy ===== *)
theory Command
  imports Resp
begin

section \<open>Commands, the write envelope and the command table\<close>

text \<open>
  \<open>src/crates/trains-valkey/src/command.rs\<close> and \<open>classify.rs\<close>: a decoded command with its
  upper-cased name, the \<open>WriteOp\<close> that rides the ring, and the static table that routes a
  command. The byte encoding of a \<open>WriteOp\<close> is the work of the \<open>bincode\<close> package: the
  components that encode or decode one take the two functions as arguments, and \<open>wire_codec\<close>
  states the one law the program relies on, that decoding an encoding gives the value back.
\<close>

named_theorems cmd_simps \<open>access to the parts of a command\<close>

subsection \<open>Commands\<close>

record command =
  cmd_name :: bytes
  cmd_argv :: "bytes list"

definition parse :: "bytes list \<Rightarrow> command option" where
  "parse argv =
     (case argv of
        [] \<Rightarrow> None
      | first # _ \<Rightarrow>
          Some \<lparr>cmd_name = to_ascii_uppercase (from_utf8_lossy first), cmd_argv = argv\<rparr>)"

definition arg :: "command \<Rightarrow> nat \<Rightarrow> bytes option" where
  "arg c i = (if i < length (cmd_argv c) then Some (cmd_argv c ! i) else None)"

definition key :: "command \<Rightarrow> bytes option" where
  "key c = arg c 1"

definition arg_str :: "command \<Rightarrow> nat \<Rightarrow> bytes option" where
  "arg_str c i = map_option from_utf8_lossy (arg c i)"

definition operand_count :: "command \<Rightarrow> nat" where
  "operand_count c = length (cmd_argv c) - 1"

lemma parse_Nil [simp, cmd_simps]: "parse [] = None"
  by (simp add: parse_def)

lemma parse_eq_None: "parse argv = None \<longleftrightarrow> argv = []"
  by (simp add: parse_def split: list.splits)

lemma parse_argv: "parse argv = Some c \<Longrightarrow> cmd_argv c = argv"
  by (auto simp: parse_def split: list.splits)

lemma arg_Some_iff: "arg c i = Some a \<longleftrightarrow> i < length (cmd_argv c) \<and> cmd_argv c ! i = a"
  by (auto simp: arg_def)

text \<open>Command names are case-insensitive: only the upper-cased name is dispatched on.\<close>

lemma code_to_ascii_uppercase: "is_ascii c \<Longrightarrow> list_all is_ascii (to_ascii_uppercase [c])"
  by (auto simp: to_ascii_uppercase_def is_ascii_def)

lemma parse_name_ascii:
  assumes "parse (n # rest) = Some c" "list_all is_ascii n"
  shows "cmd_name c = to_ascii_uppercase n"
  using assms by (auto simp: parse_def from_utf8_lossy_ascii)

subsection \<open>The write envelope\<close>

record write_op =
  origin :: proc_id
  request_id :: u64
  op_argv :: "bytes list"
  client_reply :: "reply option"

definition write_op_new :: "proc_id \<Rightarrow> u64 \<Rightarrow> bytes list \<Rightarrow> write_op" where
  "write_op_new org rid argv =
     \<lparr>origin = org, request_id = rid, op_argv = argv, client_reply = None\<rparr>"

definition with_client_reply :: "write_op \<Rightarrow> reply \<Rightarrow> write_op" where
  "with_client_reply op r = op\<lparr>client_reply := Some r\<rparr>"

definition op_command :: "write_op \<Rightarrow> command option" where
  "op_command op = parse (op_argv op)"

text \<open>The identity the apply side deduplicates on.\<close>

definition op_id :: "write_op \<Rightarrow> proc_id \<times> u64" where
  "op_id op = (origin op, request_id op)"

locale wire_codec =
  fixes enc :: "'a \<Rightarrow> bytes"
    and dec :: "bytes \<Rightarrow> 'a option"
  assumes dec_enc: "dec (enc x) = Some x"
begin

lemma enc_inj: "enc x = enc y \<Longrightarrow> x = y"
  by (metis dec_enc option.inject)

lemma dec_map: "map dec (map enc xs) = map Some xs"
  by (simp add: dec_enc)

end

subsection \<open>The command table\<close>

datatype cmd_class = Read | Write | NonDeterministic | Unsupported

definition connection_commands :: "bytes list" where
  "connection_commands = [''PING'', ''ECHO'', ''COMMAND'', ''HELLO'']"

definition read_commands :: "bytes list" where
  "read_commands =
     [''GET'', ''MGET'', ''STRLEN'', ''GETRANGE'', ''SUBSTR'', ''EXISTS'', ''TYPE'',
      ''TTL'', ''PTTL'', ''KEYS'', ''DBSIZE'', ''HGET'', ''HMGET'', ''HGETALL'',
      ''HKEYS'', ''HVALS'', ''HLEN'', ''HEXISTS'', ''HSTRLEN'', ''LLEN'', ''LRANGE'',
      ''LINDEX'', ''SCARD'', ''SMEMBERS'', ''SISMEMBER'', ''ZCARD'', ''ZSCORE'',
      ''ZRANGE'', ''GETBIT'', ''BITCOUNT'',
      ''SRANDMEMBER'', ''RANDOMKEY'', ''TIME'', ''SCAN'', ''HSCAN'', ''SSCAN'', ''ZSCAN'']"

definition write_commands :: "bytes list" where
  "write_commands =
     [''SET'', ''SETNX'', ''SETEX'', ''PSETEX'', ''GETSET'', ''GETDEL'', ''MSET'',
      ''MSETNX'', ''APPEND'', ''SETRANGE'', ''SETBIT'', ''DEL'', ''UNLINK'',
      ''INCR'', ''INCRBY'', ''DECR'', ''DECRBY'', ''EXPIRE'', ''PEXPIRE'',
      ''EXPIREAT'', ''PEXPIREAT'', ''PERSIST'', ''RENAME'', ''RENAMENX'',
      ''COPY'', ''HSET'', ''HSETNX'', ''HMSET'', ''HDEL'', ''HINCRBY'', ''SADD'',
      ''SREM'', ''SMOVE'', ''LPUSH'', ''RPUSH'', ''LPOP'', ''RPOP'', ''LSET'',
      ''LREM'', ''ZADD'', ''ZREM'', ''ZINCRBY'', ''FLUSHDB'', ''FLUSHALL'']"

definition nondeterministic_commands :: "bytes list" where
  "nondeterministic_commands = [''SPOP'', ''INCRBYFLOAT'', ''HINCRBYFLOAT'']"

definition classify :: "bytes \<Rightarrow> cmd_class" where
  "classify n =
     (if n \<in> set connection_commands then Read
      else if n \<in> set read_commands then Read
      else if n \<in> set write_commands then Write
      else if n \<in> set nondeterministic_commands then NonDeterministic
      else Unsupported)"

definition is_write :: "bytes \<Rightarrow> bool" where
  "is_write n \<longleftrightarrow> (case classify n of Write \<Rightarrow> True | NonDeterministic \<Rightarrow> True | _ \<Rightarrow> False)"

lemma command_table_disjoint:
  "distinct (connection_commands @ read_commands @ write_commands @ nondeterministic_commands)"
  by (simp add: connection_commands_def read_commands_def write_commands_def
      nondeterministic_commands_def)

lemma command_table_upper:
  assumes "n \<in> set (connection_commands @ read_commands @ write_commands
    @ nondeterministic_commands)"
  shows "to_ascii_uppercase n = n"
  using assms
  by (auto simp: connection_commands_def read_commands_def write_commands_def
      nondeterministic_commands_def to_ascii_uppercase_def)

lemma classify_iff [cmd_simps]:
  "classify n = Read \<longleftrightarrow> n \<in> set connection_commands \<union> set read_commands"
  "classify n = Write \<longleftrightarrow> n \<in> set write_commands"
  "classify n = NonDeterministic \<longleftrightarrow> n \<in> set nondeterministic_commands"
  using command_table_disjoint by (auto simp: classify_def)

end
