(* ===== verification/Protocol_Claims.thy ===== *)
theory Protocol_Claims
  imports Reply_Reader Command
begin

section \<open>Claims about the wire protocol and the command table\<close>

text \<open>
  What the RESP codec (\<open>Resp\<close>, \<open>Reply_Reader\<close>) and the static command table (\<open>Command\<close>)
  promise their callers, with a concrete instance of each.
\<close>

lemma run_chunks_state:
  assumes "drain d = (([], None), d)" "snd (fst (run_chunks cs d)) = None"
  shows "snd (run_chunks cs d) = snd (drain (feed (concat cs) d))"
  using assms
proof (induction cs arbitrary: d)
  case Nil
  then show ?case by (simp add: feed_def)
next
  case (Cons c cs)
  obtain cmds e d' where dr: "drain (feed c d) = ((cmds, e), d')"
    by (cases "drain (feed c d)") auto
  have e: "e = None"
    using Cons.prems(2) dr by (cases e) simp_all
  have idle: "drain d' = (([], None), d')"
    using drain_idle [of "feed c d" cmds d'] dr e by simp
  have "snd (fst (run_chunks cs d')) = None"
    using Cons.prems(2) dr e by (auto split: prod.splits)
  from Cons.IH [OF idle this] show ?case
    using dr e drain_append [OF dr, of "concat cs"]
    by (auto simp: feed_feed split: prod.splits)
qed

text \<open>
  C22: a pipeline of requests survives the wire: however its bytes are cut into chunks, the decoder
  yields exactly the requests that were encoded, in order, without an error, and keeps nothing
  back; the arguments are arbitrary bytes.
\<close>

theorem requests_roundtrip:
  assumes "list_all request_fits reqs" "concat chunks = concat (map encode_request reqs)"
  shows "run_chunks chunks decoder_new = ((reqs, None), decoder_new)"
proof -
  have idle: "drain decoder_new = (([], None), decoder_new)"
    using drain_requests [of "[]"] by (simp add: decoder_new_def)
  have "feed (concat chunks) decoder_new = \<lparr>buf = concat (map encode_request reqs)\<rparr>"
    by (simp add: feed_def decoder_new_def assms(2))
  then show ?thesis
    using run_chunks_concat [OF idle, of chunks] run_chunks_state [OF idle, of chunks]
      drain_requests [OF assms(1)] by (simp add: prod_eq_iff)
qed

theorem requests_roundtrip_witness:
  "run_chunks [''*2'', [CR, LF, CHR ''$''], ''3'' @ crlf @ ''GET'', crlf @ ''$2'' @ crlf @ [CR, LF] @ crlf]
     decoder_new = (([[''GET'', [CR, LF]]], None), decoder_new)"
  by (rule requests_roundtrip) code_simp+

text \<open>
  The commands, the error and the bytes kept back do not depend on how the network cuts the
  stream, for any bytes at all, well formed or not: feeding chunk after chunk and draining after
  each is the same as feeding everything at once.
\<close>

lemma chunking_independent:
  assumes "drain d = (([], None), d)"
  shows "fst (run_chunks cs d) = fst (drain (feed (concat cs) d))"
  using run_chunks_concat [OF assms, of cs] by simp

lemma chunking_independent_instance:
  "fst (run_chunks [''PI'', ''NG'' @ crlf @ ''*x'', crlf] decoder_new)
   = fst (drain (feed (concat [''PI'', ''NG'' @ crlf @ ''*x'', crlf]) decoder_new))"
  by (rule chunking_independent) code_simp

text \<open>
  C23: what the proxy writes, its client reads: any pipeline of replies whose texts hold no line
  feed and do not end in a carriage return, and whose integers are \<open>i64\<close>, reads back as the same
  replies, whatever bytes follow and whatever bytes the bulk payloads hold.
\<close>

theorem replies_roundtrip:
  assumes "list_all reply_clean rs"
  shows "read_items (length rs) (concat (map to_bytes rs) @ rest) = (Inr rs, rest)"
  using assms by (intro read_items_concat read_reply_to_bytes) (auto simp: list_all_iff)

theorem replies_roundtrip_witness:
  "let rs = [Array [Bulk [CR, LF], Integer (- 7), NilReply], Error ''ERR no''] in
   read_items 2 (concat (map to_bytes rs) @ ''+'') = (Inr rs, ''+'')"
proof -
  let ?rs = "[Array [Bulk [CR, LF], Integer (- 7), NilReply], Error ''ERR no'']"
  have "list_all reply_clean ?rs" by code_simp
  from replies_roundtrip [OF this, of "''+''"] show ?thesis by (simp add: numeral_2_eq_2)
qed

text \<open>
  The texts of simple and error replies are written unescaped: an error whose text holds a
  line end is read back as a shorter error, and the rest of the text is left in the stream, where
  the client reads it as its next reply.
\<close>

lemma error_text_splits:
  assumes "text_clean s" "reply_clean r" "to_bytes r = t @ crlf"
  shows "read_items 2 (to_bytes (Error (s @ crlf @ t)) @ rest) = (Inr [Error s, r], rest)"
proof -
  have eq: "t @ crlf @ rest = to_bytes r @ rest"
    using assms(3) by simp
  show ?thesis
    using read_reply_error_split [OF assms(1), of t rest] read_reply_to_bytes [OF assms(2), of rest]
    by (simp add: numeral_2_eq_2 read_items.simps eq)
qed

lemma error_text_splits_instance:
  "read_items 2 (to_bytes (Error (''ERR unknown command X'' @ crlf @ ''+OK'')) @ [])
   = (Inr [Error ''ERR unknown command X'', reply_ok], [])"
  by (rule error_text_splits) code_simp+

text \<open>
  A request header that announces more arguments than a vector can hold (a count times the
  size of one \<open>Vec\<close> above \<open>isize::MAX\<close>) is not a protocol error but a panic, whatever follows.
\<close>

lemma huge_count_panics:
  assumes "i64_ok n" "0 < n" "\<not> argv_capacity_ok n"
  shows "parse_command (CHR ''*'' # show_int n @ crlf @ rest) = Inl CapacityPanic"
proof -
  have "parse_crlf_line ((CHR ''*'' # show_int n) @ crlf @ rest)
      = Some (CHR ''*'' # show_int n, length (CHR ''*'' # show_int n) + 2)"
    by (rule parse_crlf_line_first) (simp add: resp_simps)
  then show ?thesis
    using assms by (simp add: parse_command_def resp_simps)
qed

lemma huge_count_panics_instance:
  "parse_command (CHR ''*'' # show_int 9000000000000000000 @ crlf @ []) = Inl CapacityPanic"
  by (rule huge_count_panics) code_simp+

text \<open>
  The routing table is total and unambiguous: the name lists are pairwise disjoint, a command
  is replicated exactly when it is listed as a deterministic or a non-deterministic write, and
  whatever is not listed is refused.
\<close>

lemma routing_table:
  "distinct (connection_commands @ read_commands @ write_commands @ nondeterministic_commands)
   \<and> (is_write n \<longleftrightarrow> n \<in> set write_commands \<union> set nondeterministic_commands)
   \<and> (classify n = Unsupported \<longleftrightarrow>
        n \<notin> set (connection_commands @ read_commands @ write_commands @ nondeterministic_commands))"
  using command_table_disjoint by (auto simp: is_write_def classify_def)

end
