(* ===== verification/Store.thy ===== *)
theory Store
  imports Command
begin

section \<open>\<open>MemStore\<close>: the deterministic in-memory store\<close>

text \<open>
  \<open>src/crates/trains-valkey/src/store.rs\<close>: the keyspace a replica applies the delivered
  commands to, one definition per arm of \<open>apply\<close> and \<open>query\<close>. Both return the reply; \<open>apply\<close>
  also returns the new store. The two ordered maps of the source are ordered lists
  (theory \<open>Prelude\<close>). \<open>TIME\<close> answers from the wall clock, which is an argument of \<open>query\<close>. The
  byte form of a snapshot is made and read by \<open>bincode\<close>: its two functions are arguments of
  \<open>export_snapshot\<close> and \<open>import_snapshot\<close>.
\<close>

named_theorems store_simps \<open>the arms of apply\<close>

subsection \<open>The state\<close>

datatype redis_value =
    Str bytes
  | Hash "(bytes, bytes) btree_map"
  | Set "bytes btree_set"

record mem_store =
  data :: "(bytes, redis_value) btree_map"
  ttl :: "(bytes, int) btree_map"

definition mem_new :: mem_store where
  "mem_new = \<lparr>data = [], ttl = []\<rparr>"

datatype store_entry =
    EStr bytes
  | EHash "(bytes \<times> bytes) list"
  | ESet "bytes list"

definition entry_of_value :: "redis_value \<Rightarrow> store_entry" where
  "entry_of_value v = (case v of Str s \<Rightarrow> EStr s | Hash h \<Rightarrow> EHash h | Set s \<Rightarrow> ESet s)"

definition snapshot_sorted :: "mem_store \<Rightarrow> (bytes \<times> store_entry) list" where
  "snapshot_sorted s = map (\<lambda>(k, v). (k, entry_of_value v)) (data s)"

definition key_count :: "mem_store \<Rightarrow> nat" where
  "key_count s = length (data s)"

definition as_int :: "bytes \<Rightarrow> int option" where
  "as_int b = parse_int_field b"

definition quoted :: "bytes \<Rightarrow> bytes" where
  "quoted n = CHR 0x27 # n @ [CHR 0x27]"

definition wrongargs :: "bytes \<Rightarrow> reply" where
  "wrongargs n =
     reply_error (''ERR wrong number of arguments for '' @ quoted n @ '' command'')"

definition wrongtype :: reply where
  "wrongtype =
     reply_error ''WRONGTYPE Operation against a key holding the wrong kind of value''"

definition not_an_integer :: reply where
  "not_an_integer = reply_error ''ERR value is not an integer or out of range''"

definition would_overflow :: reply where
  "would_overflow = reply_error ''ERR increment or decrement would overflow''"

definition bool_int :: "bool \<Rightarrow> int" where
  "bool_int b = (if b then 1 else 0)"

subsection \<open>Strings and keys\<close>

definition apply_set :: "command \<Rightarrow> mem_store \<Rightarrow> reply \<times> mem_store" where
  "apply_set cmd s =
     (case (arg cmd 1, arg cmd 2) of
        (Some k, Some v) \<Rightarrow>
          (reply_ok, s\<lparr>data := bt_insert k (Str v) (data s), ttl := bt_remove k (ttl s)\<rparr>)
      | _ \<Rightarrow> (wrongargs ''set'', s))"

definition apply_setnx :: "command \<Rightarrow> mem_store \<Rightarrow> reply \<times> mem_store" where
  "apply_setnx cmd s =
     (case (arg cmd 1, arg cmd 2) of
        (Some k, Some v) \<Rightarrow>
          if bt_contains (data s) k then (Integer 0, s)
          else (Integer 1, s\<lparr>data := bt_insert k (Str v) (data s)\<rparr>)
      | _ \<Rightarrow> (wrongargs ''setnx'', s))"

definition apply_getset :: "command \<Rightarrow> mem_store \<Rightarrow> reply \<times> mem_store" where
  "apply_getset cmd s =
     (case (arg cmd 1, arg cmd 2) of
        (Some k, Some v) \<Rightarrow>
          (let prev = bt_get (data s) k; s1 = s\<lparr>data := bt_insert k (Str v) (data s)\<rparr> in
           case prev of
             Some (Str old) \<Rightarrow> (Bulk old, s1\<lparr>ttl := bt_remove k (ttl s1)\<rparr>)
           | Some _ \<Rightarrow> (wrongtype, s1)
           | None \<Rightarrow> (NilReply, s1\<lparr>ttl := bt_remove k (ttl s1)\<rparr>))
      | _ \<Rightarrow> (wrongargs ''getset'', s))"

text \<open>\<open>self.data.entry(k).or_insert_with(|| d)\<close>: the value at \<open>k\<close> and the map that holds one.\<close>

definition entry_or_insert ::
  "'k::linorder \<Rightarrow> 'v \<Rightarrow> ('k, 'v) btree_map \<Rightarrow> 'v \<times> ('k, 'v) btree_map" where
  "entry_or_insert k d m =
     (case bt_get m k of Some v \<Rightarrow> (v, m) | None \<Rightarrow> (d, bt_insert k d m))"

definition apply_append :: "command \<Rightarrow> mem_store \<Rightarrow> reply \<times> mem_store" where
  "apply_append cmd s =
     (case (arg cmd 1, arg cmd 2) of
        (Some k, Some v) \<Rightarrow>
          (case entry_or_insert k (Str []) (data s) of
             (Str old, m) \<Rightarrow>
               (Integer (int (length (old @ v))), s\<lparr>data := bt_insert k (Str (old @ v)) m\<rparr>)
           | (_, m) \<Rightarrow> (wrongtype, s\<lparr>data := m\<rparr>))
      | _ \<Rightarrow> (wrongargs ''append'', s))"

fun del_keys :: "bytes list \<Rightarrow> int \<Rightarrow> mem_store \<Rightarrow> int \<times> mem_store" where
  "del_keys [] removed s = (removed, s)"
| "del_keys (k # ks) removed s =
     del_keys ks (if bt_contains (data s) k then removed + 1 else removed)
       (s\<lparr>data := bt_remove k (data s), ttl := bt_remove k (ttl s)\<rparr>)"

definition apply_del :: "command \<Rightarrow> mem_store \<Rightarrow> reply \<times> mem_store" where
  "apply_del cmd s =
     (case del_keys (drop 1 (cmd_argv cmd)) 0 s of (removed, s') \<Rightarrow> (Integer removed, s'))"

definition incr_delta :: "command \<Rightarrow> int option" where
  "incr_delta cmd =
     (if cmd_name cmd = ''INCR'' then Some 1
      else if cmd_name cmd = ''DECR'' then Some (- 1)
      else if cmd_name cmd = ''INCRBY'' then Option.bind (arg cmd 2) as_int
      else map_option wrapping_neg (Option.bind (arg cmd 2) as_int))"

definition apply_incr :: "command \<Rightarrow> mem_store \<Rightarrow> reply \<times> mem_store" where
  "apply_incr cmd s =
     (case key cmd of
        None \<Rightarrow> (wrongargs ''incr'', s)
      | Some k \<Rightarrow>
          (case incr_delta cmd of
             None \<Rightarrow> (not_an_integer, s)
           | Some delta \<Rightarrow>
               (let cur = (case bt_get (data s) k of
                             Some (Str b) \<Rightarrow>
                               (case as_int b of Some n \<Rightarrow> Inr n | None \<Rightarrow> Inl not_an_integer)
                           | Some _ \<Rightarrow> Inl wrongtype
                           | None \<Rightarrow> Inr 0) in
                case cur of
                  Inl e \<Rightarrow> (e, s)
                | Inr c \<Rightarrow>
                    (case checked_add c delta of
                       None \<Rightarrow> (would_overflow, s)
                     | Some next \<Rightarrow>
                         (Integer next,
                          s\<lparr>data := bt_insert k (Str (show_int next)) (data s)\<rparr>)))))"

definition apply_expire :: "command \<Rightarrow> mem_store \<Rightarrow> reply \<times> mem_store" where
  "apply_expire cmd s =
     (case key cmd of
        None \<Rightarrow> (wrongargs ''expire'', s)
      | Some k \<Rightarrow>
          if \<not> bt_contains (data s) k then (Integer 0, s)
          else
            (let secs = (case Option.bind (arg cmd 2) as_int of Some n \<Rightarrow> n | None \<Rightarrow> 0)
             in (Integer 1, s\<lparr>ttl := bt_insert k secs (ttl s)\<rparr>)))"

definition apply_persist :: "command \<Rightarrow> mem_store \<Rightarrow> reply \<times> mem_store" where
  "apply_persist cmd s =
     (case key cmd of
        None \<Rightarrow> (wrongargs ''persist'', s)
      | Some k \<Rightarrow>
          (Integer (bool_int (bt_contains (ttl s) k)), s\<lparr>ttl := bt_remove k (ttl s)\<rparr>))"

definition apply_rename :: "command \<Rightarrow> mem_store \<Rightarrow> reply \<times> mem_store" where
  "apply_rename cmd s =
     (case (arg cmd 1, arg cmd 2) of
        (Some src, Some dst) \<Rightarrow>
          (case bt_get (data s) src of
             Some v \<Rightarrow>
               (let t = bt_get (ttl s) src;
                    ttl1 = bt_remove src (ttl s);
                    data1 = bt_insert dst v (bt_remove src (data s))
                in (reply_ok,
                    s\<lparr>data := data1,
                      ttl := (case t of Some x \<Rightarrow> bt_insert dst x ttl1
                                      | None \<Rightarrow> bt_remove dst ttl1)\<rparr>))
           | None \<Rightarrow> (reply_error ''ERR no such key'', s))
      | _ \<Rightarrow> (wrongargs ''rename'', s))"

definition apply_flush :: "mem_store \<Rightarrow> reply \<times> mem_store" where
  "apply_flush s = (reply_ok, s\<lparr>data := [], ttl := []\<rparr>)"

subsection \<open>Hashes\<close>

fun hset_pairs ::
  "bytes list \<Rightarrow> int \<Rightarrow> (bytes, bytes) btree_map \<Rightarrow> int \<times> (bytes, bytes) btree_map" where
  "hset_pairs (f # v # rest) added h =
     hset_pairs rest (if bt_contains h f then added else added + 1) (bt_insert f v h)"
| "hset_pairs _ added h = (added, h)"

definition apply_hset :: "command \<Rightarrow> mem_store \<Rightarrow> reply \<times> mem_store" where
  "apply_hset cmd s =
     (case key cmd of
        None \<Rightarrow> (wrongargs ''hset'', s)
      | Some k \<Rightarrow>
          if length (cmd_argv cmd) < 4 \<or> (length (cmd_argv cmd) - 2) mod 2 \<noteq> 0 then
            (wrongargs ''hset'', s)
          else
            (case entry_or_insert k (Hash []) (data s) of
               (Hash h, m) \<Rightarrow>
                 (case hset_pairs (drop 2 (cmd_argv cmd)) 0 h of
                    (added, h') \<Rightarrow>
                      (if cmd_name cmd = ''HMSET'' then reply_ok else Integer added,
                       s\<lparr>data := bt_insert k (Hash h') m\<rparr>))
             | (_, m) \<Rightarrow> (wrongtype, s\<lparr>data := m\<rparr>)))"

definition apply_hsetnx :: "command \<Rightarrow> mem_store \<Rightarrow> reply \<times> mem_store" where
  "apply_hsetnx cmd s =
     (case (arg cmd 1, arg cmd 2, arg cmd 3) of
        (Some k, Some f, Some v) \<Rightarrow>
          (case entry_or_insert k (Hash []) (data s) of
             (Hash h, m) \<Rightarrow>
               if bt_contains h f then (Integer 0, s\<lparr>data := m\<rparr>)
               else (Integer 1, s\<lparr>data := bt_insert k (Hash (bt_insert f v h)) m\<rparr>)
           | (_, m) \<Rightarrow> (wrongtype, s\<lparr>data := m\<rparr>))
      | _ \<Rightarrow> (wrongargs ''hsetnx'', s))"

fun hdel_fields ::
  "bytes list \<Rightarrow> int \<Rightarrow> (bytes, bytes) btree_map \<Rightarrow> int \<times> (bytes, bytes) btree_map" where
  "hdel_fields [] removed h = (removed, h)"
| "hdel_fields (f # fs) removed h =
     hdel_fields fs (if bt_contains h f then removed + 1 else removed) (bt_remove f h)"

definition apply_hdel :: "command \<Rightarrow> mem_store \<Rightarrow> reply \<times> mem_store" where
  "apply_hdel cmd s =
     (case key cmd of
        None \<Rightarrow> (wrongargs ''hdel'', s)
      | Some k \<Rightarrow>
          (case bt_get (data s) k of
             Some (Hash h) \<Rightarrow>
               (case hdel_fields (drop 2 (cmd_argv cmd)) 0 h of
                  (removed, h') \<Rightarrow>
                    (Integer removed,
                     s\<lparr>data := if h' = [] then bt_remove k (data s)
                              else bt_insert k (Hash h') (data s)\<rparr>))
           | Some _ \<Rightarrow> (wrongtype, s)
           | None \<Rightarrow> (Integer 0, s)))"

definition apply_hincrby :: "command \<Rightarrow> mem_store \<Rightarrow> reply \<times> mem_store" where
  "apply_hincrby cmd s =
     (case (arg cmd 1, arg cmd 2, arg cmd 3) of
        (Some k, Some f, Some by_text) \<Rightarrow>
          (case as_int by_text of
             None \<Rightarrow> (not_an_integer, s)
           | Some delta \<Rightarrow>
               (case entry_or_insert k (Hash []) (data s) of
                  (Hash h, m) \<Rightarrow>
                    (case (case bt_get h f of
                             Some v \<Rightarrow>
                               (case as_int v of
                                  Some n \<Rightarrow> Inr n
                                | None \<Rightarrow> Inl (reply_error ''ERR hash value is not an integer''))
                           | None \<Rightarrow> Inr 0) of
                       Inl e \<Rightarrow> (e, s\<lparr>data := m\<rparr>)
                     | Inr cur \<Rightarrow>
                         (case checked_add cur delta of
                            None \<Rightarrow> (would_overflow, s\<lparr>data := m\<rparr>)
                          | Some next \<Rightarrow>
                              (Integer next,
                               s\<lparr>data := bt_insert k (Hash (bt_insert f (show_int next) h)) m\<rparr>)))
                | (_, m) \<Rightarrow> (wrongtype, s\<lparr>data := m\<rparr>)))
      | _ \<Rightarrow> (wrongargs ''hincrby'', s))"

subsection \<open>Sets\<close>

fun sadd_members :: "bytes list \<Rightarrow> int \<Rightarrow> bytes btree_set \<Rightarrow> int \<times> bytes btree_set" where
  "sadd_members [] added s = (added, s)"
| "sadd_members (m # ms) added s =
     sadd_members ms (if bs_contains m s then added else added + 1) (bs_insert m s)"

definition apply_sadd :: "command \<Rightarrow> mem_store \<Rightarrow> reply \<times> mem_store" where
  "apply_sadd cmd s =
     (case key cmd of
        None \<Rightarrow> (wrongargs ''sadd'', s)
      | Some k \<Rightarrow>
          (case entry_or_insert k (Set []) (data s) of
             (Set ms, m) \<Rightarrow>
               (case sadd_members (drop 2 (cmd_argv cmd)) 0 ms of
                  (added, ms') \<Rightarrow> (Integer added, s\<lparr>data := bt_insert k (Set ms') m\<rparr>))
           | (_, m) \<Rightarrow> (wrongtype, s\<lparr>data := m\<rparr>)))"

fun srem_members :: "bytes list \<Rightarrow> int \<Rightarrow> bytes btree_set \<Rightarrow> int \<times> bytes btree_set" where
  "srem_members [] removed s = (removed, s)"
| "srem_members (m # ms) removed s =
     srem_members ms (if bs_contains m s then removed + 1 else removed) (bs_remove m s)"

definition apply_srem :: "command \<Rightarrow> mem_store \<Rightarrow> reply \<times> mem_store" where
  "apply_srem cmd s =
     (case key cmd of
        None \<Rightarrow> (wrongargs ''srem'', s)
      | Some k \<Rightarrow>
          (case bt_get (data s) k of
             Some (Set ms) \<Rightarrow>
               (case srem_members (drop 2 (cmd_argv cmd)) 0 ms of
                  (removed, ms') \<Rightarrow>
                    (Integer removed,
                     s\<lparr>data := if ms' = [] then bt_remove k (data s)
                              else bt_insert k (Set ms') (data s)\<rparr>))
           | Some _ \<Rightarrow> (wrongtype, s)
           | None \<Rightarrow> (Integer 0, s)))"

subsection \<open>The dispatcher\<close>

definition not_implemented_write :: "bytes \<Rightarrow> reply" where
  "not_implemented_write n =
     reply_error (''ERR '' @ quoted n
       @ '' is a write but not implemented by MemStore (RD-1); use the redis backend'')"

definition mem_apply :: "command \<Rightarrow> mem_store \<Rightarrow> reply \<times> mem_store" where
  "mem_apply cmd s =
     (if cmd_name cmd = ''SET'' then apply_set cmd s
      else if cmd_name cmd = ''SETNX'' then apply_setnx cmd s
      else if cmd_name cmd = ''GETSET'' then apply_getset cmd s
      else if cmd_name cmd = ''APPEND'' then apply_append cmd s
      else if cmd_name cmd \<in> set [''DEL'', ''UNLINK''] then apply_del cmd s
      else if cmd_name cmd \<in> set [''INCR'', ''DECR'', ''INCRBY'', ''DECRBY''] then apply_incr cmd s
      else if cmd_name cmd \<in> set [''EXPIRE'', ''PEXPIRE'', ''EXPIREAT'', ''PEXPIREAT''] then
        apply_expire cmd s
      else if cmd_name cmd = ''PERSIST'' then apply_persist cmd s
      else if cmd_name cmd = ''RENAME'' then apply_rename cmd s
      else if cmd_name cmd \<in> set [''HSET'', ''HMSET''] then apply_hset cmd s
      else if cmd_name cmd = ''HSETNX'' then apply_hsetnx cmd s
      else if cmd_name cmd = ''HDEL'' then apply_hdel cmd s
      else if cmd_name cmd = ''HINCRBY'' then apply_hincrby cmd s
      else if cmd_name cmd = ''SADD'' then apply_sadd cmd s
      else if cmd_name cmd = ''SREM'' then apply_srem cmd s
      else if cmd_name cmd \<in> set [''FLUSHDB'', ''FLUSHALL''] then apply_flush s
      else (not_implemented_write (cmd_name cmd), s))"

subsection \<open>Reads\<close>

definition key_or_empty :: "command \<Rightarrow> bytes" where
  "key_or_empty cmd = (case key cmd of Some k \<Rightarrow> k | None \<Rightarrow> [])"

definition value_at :: "command \<Rightarrow> mem_store \<Rightarrow> redis_value option" where
  "value_at cmd s = bt_get (data s) (key_or_empty cmd)"

definition query_ping :: "command \<Rightarrow> reply" where
  "query_ping cmd = (case arg cmd 1 of Some msg \<Rightarrow> Bulk msg | None \<Rightarrow> Simple ''PONG'')"

definition query_echo :: "command \<Rightarrow> reply" where
  "query_echo cmd = (case arg cmd 1 of Some msg \<Rightarrow> Bulk msg | None \<Rightarrow> wrongargs ''echo'')"

definition query_get :: "command \<Rightarrow> mem_store \<Rightarrow> reply" where
  "query_get cmd s =
     (case value_at cmd s of Some (Str b) \<Rightarrow> Bulk b | Some _ \<Rightarrow> wrongtype | None \<Rightarrow> NilReply)"

definition query_strlen :: "command \<Rightarrow> mem_store \<Rightarrow> reply" where
  "query_strlen cmd s =
     (case value_at cmd s of
        Some (Str b) \<Rightarrow> Integer (int (length b)) | Some _ \<Rightarrow> wrongtype | None \<Rightarrow> Integer 0)"

definition query_mget :: "command \<Rightarrow> mem_store \<Rightarrow> reply" where
  "query_mget cmd s =
     Array (map (\<lambda>k. case bt_get (data s) k of Some (Str b) \<Rightarrow> Bulk b | _ \<Rightarrow> NilReply)
              (drop 1 (cmd_argv cmd)))"

definition query_exists :: "command \<Rightarrow> mem_store \<Rightarrow> reply" where
  "query_exists cmd s =
     Integer (foldl (\<lambda>n k. if bt_contains (data s) k then n + 1 else n) 0 (drop 1 (cmd_argv cmd)))"

definition query_type :: "command \<Rightarrow> mem_store \<Rightarrow> reply" where
  "query_type cmd s =
     (case value_at cmd s of
        Some (Str _) \<Rightarrow> Simple ''string''
      | Some (Hash _) \<Rightarrow> Simple ''hash''
      | Some (Set _) \<Rightarrow> Simple ''set''
      | None \<Rightarrow> Simple ''none'')"

definition query_ttl :: "command \<Rightarrow> mem_store \<Rightarrow> reply" where
  "query_ttl cmd s =
     (let k = key_or_empty cmd in
      if \<not> bt_contains (data s) k then Integer (- 2)
      else Integer (case bt_get (ttl s) k of Some t \<Rightarrow> t | None \<Rightarrow> - 1))"

definition query_keys :: "mem_store \<Rightarrow> reply" where
  "query_keys s = Array (map (\<lambda>e. Bulk (fst e)) (data s))"

definition query_hget :: "command \<Rightarrow> mem_store \<Rightarrow> reply" where
  "query_hget cmd s =
     (case (arg cmd 1, arg cmd 2) of
        (Some k, Some f) \<Rightarrow>
          (case bt_get (data s) k of
             Some (Hash h) \<Rightarrow> (case bt_get h f of Some v \<Rightarrow> Bulk v | None \<Rightarrow> NilReply)
           | Some _ \<Rightarrow> wrongtype
           | None \<Rightarrow> NilReply)
      | _ \<Rightarrow> wrongargs ''hget'')"

definition query_hmget :: "command \<Rightarrow> mem_store \<Rightarrow> reply" where
  "query_hmget cmd s =
     (case key cmd of
        None \<Rightarrow> wrongargs ''hmget''
      | Some k \<Rightarrow>
          (let fields = drop 2 (cmd_argv cmd) in
           case bt_get (data s) k of
             Some (Hash h) \<Rightarrow>
               Array (map (\<lambda>f. case bt_get h f of Some v \<Rightarrow> Bulk v | None \<Rightarrow> NilReply) fields)
           | Some _ \<Rightarrow> wrongtype
           | None \<Rightarrow> Array (map (\<lambda>_. NilReply) fields)))"

definition hash_pairs :: "(bytes, bytes) btree_map \<Rightarrow> reply list" where
  "hash_pairs h = concat (map (\<lambda>(f, v). [Bulk f, Bulk v]) h)"

text \<open>The reads of one whole hash: its pairs, fields or values, or the empty array.\<close>

definition query_hash_list ::
  "((bytes, bytes) btree_map \<Rightarrow> reply list) \<Rightarrow> command \<Rightarrow> mem_store \<Rightarrow> reply" where
  "query_hash_list f cmd s =
     (case value_at cmd s of
        Some (Hash h) \<Rightarrow> Array (f h) | Some _ \<Rightarrow> wrongtype | None \<Rightarrow> Array [])"

definition query_hgetall :: "command \<Rightarrow> mem_store \<Rightarrow> reply" where
  "query_hgetall = query_hash_list hash_pairs"

definition query_hkeys :: "command \<Rightarrow> mem_store \<Rightarrow> reply" where
  "query_hkeys = query_hash_list (map (\<lambda>e. Bulk (fst e)))"

definition query_hvals :: "command \<Rightarrow> mem_store \<Rightarrow> reply" where
  "query_hvals = query_hash_list (map (\<lambda>e. Bulk (snd e)))"

definition query_hlen :: "command \<Rightarrow> mem_store \<Rightarrow> reply" where
  "query_hlen cmd s =
     (case value_at cmd s of
        Some (Hash h) \<Rightarrow> Integer (int (length h)) | Some _ \<Rightarrow> wrongtype | None \<Rightarrow> Integer 0)"

definition query_hexists :: "command \<Rightarrow> mem_store \<Rightarrow> reply" where
  "query_hexists cmd s =
     (case (arg cmd 1, arg cmd 2) of
        (Some k, Some f) \<Rightarrow>
          (case bt_get (data s) k of
             Some (Hash h) \<Rightarrow> Integer (bool_int (bt_contains h f))
           | Some _ \<Rightarrow> wrongtype
           | None \<Rightarrow> Integer 0)
      | _ \<Rightarrow> wrongargs ''hexists'')"

definition query_smembers :: "command \<Rightarrow> mem_store \<Rightarrow> reply" where
  "query_smembers cmd s =
     (case value_at cmd s of
        Some (Set ms) \<Rightarrow> Array (map Bulk ms) | Some _ \<Rightarrow> wrongtype | None \<Rightarrow> Array [])"

definition query_scard :: "command \<Rightarrow> mem_store \<Rightarrow> reply" where
  "query_scard cmd s =
     (case value_at cmd s of
        Some (Set ms) \<Rightarrow> Integer (int (length ms)) | Some _ \<Rightarrow> wrongtype | None \<Rightarrow> Integer 0)"

definition query_sismember :: "command \<Rightarrow> mem_store \<Rightarrow> reply" where
  "query_sismember cmd s =
     (case (arg cmd 1, arg cmd 2) of
        (Some k, Some m) \<Rightarrow>
          (case bt_get (data s) k of
             Some (Set ms) \<Rightarrow> Integer (bool_int (bs_contains m ms))
           | Some _ \<Rightarrow> wrongtype
           | None \<Rightarrow> Integer 0)
      | _ \<Rightarrow> wrongargs ''sismember'')"

definition query_srandmember :: "command \<Rightarrow> mem_store \<Rightarrow> reply" where
  "query_srandmember cmd s =
     (case value_at cmd s of
        Some (Set ms) \<Rightarrow> (case ms of m # _ \<Rightarrow> Bulk m | [] \<Rightarrow> NilReply)
      | Some _ \<Rightarrow> wrongtype
      | None \<Rightarrow> NilReply)"

definition query_randomkey :: "mem_store \<Rightarrow> reply" where
  "query_randomkey s = (case data s of (k, _) # _ \<Rightarrow> Bulk k | [] \<Rightarrow> NilReply)"

text \<open>The wall clock: seconds since the epoch and the microseconds of the current second.\<close>

type_synonym clock = "nat \<times> nat"

definition query_time :: "clock \<Rightarrow> reply" where
  "query_time now = Array [Bulk (show_nat (fst now)), Bulk (show_nat (snd now))]"

definition cursor_reply :: "reply list \<Rightarrow> reply" where
  "cursor_reply items = Array [Bulk ''0'', Array items]"

definition query_scan :: "mem_store \<Rightarrow> reply" where
  "query_scan s = cursor_reply (map (\<lambda>e. Bulk (fst e)) (data s))"

definition query_sscan :: "command \<Rightarrow> mem_store \<Rightarrow> reply" where
  "query_sscan cmd s =
     (case value_at cmd s of
        Some (Set ms) \<Rightarrow> cursor_reply (map Bulk ms)
      | Some _ \<Rightarrow> wrongtype
      | None \<Rightarrow> cursor_reply [])"

definition query_hscan :: "command \<Rightarrow> mem_store \<Rightarrow> reply" where
  "query_hscan cmd s =
     (case value_at cmd s of
        Some (Hash h) \<Rightarrow> cursor_reply (hash_pairs h)
      | Some _ \<Rightarrow> wrongtype
      | None \<Rightarrow> cursor_reply [])"

definition not_implemented_read :: "bytes \<Rightarrow> reply" where
  "not_implemented_read n =
     reply_error (''ERR '' @ quoted n @ '' is a read but not implemented by MemStore'')"

definition mem_query :: "clock \<Rightarrow> command \<Rightarrow> mem_store \<Rightarrow> reply" where
  "mem_query now cmd s =
     (if cmd_name cmd = ''PING'' then query_ping cmd
      else if cmd_name cmd = ''ECHO'' then query_echo cmd
      else if cmd_name cmd = ''GET'' then query_get cmd s
      else if cmd_name cmd = ''STRLEN'' then query_strlen cmd s
      else if cmd_name cmd = ''MGET'' then query_mget cmd s
      else if cmd_name cmd = ''EXISTS'' then query_exists cmd s
      else if cmd_name cmd = ''TYPE'' then query_type cmd s
      else if cmd_name cmd = ''TTL'' then query_ttl cmd s
      else if cmd_name cmd = ''DBSIZE'' then Integer (int (length (data s)))
      else if cmd_name cmd = ''KEYS'' then query_keys s
      else if cmd_name cmd = ''HGET'' then query_hget cmd s
      else if cmd_name cmd = ''HMGET'' then query_hmget cmd s
      else if cmd_name cmd = ''HGETALL'' then query_hgetall cmd s
      else if cmd_name cmd = ''HKEYS'' then query_hkeys cmd s
      else if cmd_name cmd = ''HVALS'' then query_hvals cmd s
      else if cmd_name cmd = ''HLEN'' then query_hlen cmd s
      else if cmd_name cmd = ''HEXISTS'' then query_hexists cmd s
      else if cmd_name cmd = ''SMEMBERS'' then query_smembers cmd s
      else if cmd_name cmd = ''SCARD'' then query_scard cmd s
      else if cmd_name cmd = ''SISMEMBER'' then query_sismember cmd s
      else if cmd_name cmd = ''SRANDMEMBER'' then query_srandmember cmd s
      else if cmd_name cmd = ''RANDOMKEY'' then query_randomkey s
      else if cmd_name cmd = ''TIME'' then query_time now
      else if cmd_name cmd = ''SCAN'' then query_scan s
      else if cmd_name cmd = ''SSCAN'' then query_sscan cmd s
      else if cmd_name cmd = ''HSCAN'' then query_hscan cmd s
      else not_implemented_read (cmd_name cmd))"

subsection \<open>Snapshots\<close>

datatype snapshot_error = Decode

definition export_snapshot :: "(mem_store \<Rightarrow> bytes) \<Rightarrow> mem_store \<Rightarrow> bytes" where
  "export_snapshot enc s = enc s"

definition import_snapshot ::
  "(bytes \<Rightarrow> mem_store option) \<Rightarrow> bytes \<Rightarrow> mem_store \<Rightarrow> snapshot_error + mem_store" where
  "import_snapshot dec bs s = (case dec bs of None \<Rightarrow> Inl Decode | Some restored \<Rightarrow> Inr restored)"

subsection \<open>The store interface: the trait \<open>RedisStore\<close>\<close>

text \<open>
  What the replication layer calls of a store. \<open>MemStore\<close> implements it here; the engine
  backend is the other implementation in the source.
\<close>

record 'st store_ops =
  st_apply :: "command \<Rightarrow> 'st \<Rightarrow> reply \<times> 'st"
  st_query :: "command \<Rightarrow> 'st \<Rightarrow> reply"
  st_export :: "'st \<Rightarrow> bytes"
  st_import :: "bytes \<Rightarrow> 'st \<Rightarrow> snapshot_error + 'st"

definition mem_ops ::
  "(mem_store \<Rightarrow> bytes) \<Rightarrow> (bytes \<Rightarrow> mem_store option) \<Rightarrow> clock \<Rightarrow> mem_store store_ops" where
  "mem_ops enc dec now =
     \<lparr>st_apply = mem_apply, st_query = mem_query now,
      st_export = export_snapshot enc, st_import = import_snapshot dec\<rparr>"

end
