(* ===== verification/Store_Spec.thy ===== *)
theory Store_Spec
  imports Store
begin

section \<open>What the store promises: an abstract keyspace and the refinement\<close>

text \<open>
  The abstract store is a partial map from keys to strings, partial maps and sets, with a
  partial map of logical TTLs. Each write command has one specification over it, with the
  loops of the source replaced by set and map operations and the counts they return by
  cardinalities. The lemmas show that every arm of \<open>apply\<close> keeps the order invariant of the
  store and implements its specification, that an error reply leaves the store as it was
  (with the one exception of \<open>GETSET\<close>), and where logical TTLs outlive their key.
\<close>

named_theorems store_refine \<open>each arm of apply implements its specification\<close>

subsection \<open>The invariant\<close>

fun value_ok :: "redis_value \<Rightarrow> bool" where
  "value_ok (Str b) = True"
| "value_ok (Hash h) = bt_ok h"
| "value_ok (Set ms) = bs_ok ms"

definition store_ok :: "mem_store \<Rightarrow> bool" where
  "store_ok s \<longleftrightarrow>
     bt_ok (data s) \<and> bt_ok (ttl s) \<and> list_all (\<lambda>e. value_ok (snd e)) (data s)"

lemma store_ok_iff:
  "store_ok s \<longleftrightarrow>
     bt_ok (data s) \<and> bt_ok (ttl s) \<and> (\<forall>k v. bt_get (data s) k = Some v \<longrightarrow> value_ok v)"
  by (fastforce simp: store_ok_def list_all_iff bt_ok_get_iff)

subsection \<open>The abstract store\<close>

datatype avalue =
    AStr bytes
  | AHash "bytes \<rightharpoonup> bytes"
  | ASet "bytes set"

record astore =
  adata :: "bytes \<rightharpoonup> avalue"
  attl :: "bytes \<rightharpoonup> int"

fun abs_value :: "redis_value \<Rightarrow> avalue" where
  "abs_value (Str b) = AStr b"
| "abs_value (Hash h) = AHash (bt_get h)"
| "abs_value (Set ms) = ASet (set ms)"

definition abs_store :: "mem_store \<Rightarrow> astore" where
  "abs_store s =
     \<lparr>adata = (\<lambda>k. map_option abs_value (bt_get (data s) k)), attl = bt_get (ttl s)\<rparr>"

definition put :: "bytes \<Rightarrow> avalue \<Rightarrow> astore \<Rightarrow> astore" where
  "put k v a = a\<lparr>adata := (adata a)(k \<mapsto> v)\<rparr>"

definition clear_ttl :: "bytes set \<Rightarrow> astore \<Rightarrow> astore" where
  "clear_ttl ks a = a\<lparr>attl := attl a |` (- ks)\<rparr>"

definition drop_keys :: "bytes set \<Rightarrow> astore \<Rightarrow> astore" where
  "drop_keys ks a = a\<lparr>adata := adata a |` (- ks)\<rparr>"

subsection \<open>The specification of each write command\<close>

definition spec_set :: "bytes \<Rightarrow> bytes \<Rightarrow> astore \<Rightarrow> reply \<times> astore" where
  "spec_set k v a = (reply_ok, clear_ttl {k} (put k (AStr v) a))"

definition spec_setnx :: "bytes \<Rightarrow> bytes \<Rightarrow> astore \<Rightarrow> reply \<times> astore" where
  "spec_setnx k v a =
     (if k \<in> dom (adata a) then (Integer 0, a) else (Integer 1, put k (AStr v) a))"

definition spec_getset :: "bytes \<Rightarrow> bytes \<Rightarrow> astore \<Rightarrow> reply \<times> astore" where
  "spec_getset k v a =
     (case adata a k of
        None \<Rightarrow> (NilReply, clear_ttl {k} (put k (AStr v) a))
      | Some (AStr old) \<Rightarrow> (Bulk old, clear_ttl {k} (put k (AStr v) a))
      | Some _ \<Rightarrow> (wrongtype, put k (AStr v) a))"

definition spec_append :: "bytes \<Rightarrow> bytes \<Rightarrow> astore \<Rightarrow> reply \<times> astore" where
  "spec_append k v a =
     (case adata a k of
        None \<Rightarrow> (Integer (int (length v)), put k (AStr v) a)
      | Some (AStr old) \<Rightarrow> (Integer (int (length (old @ v))), put k (AStr (old @ v)) a)
      | Some _ \<Rightarrow> (wrongtype, a))"

definition spec_del :: "bytes set \<Rightarrow> astore \<Rightarrow> reply \<times> astore" where
  "spec_del ks a =
     (Integer (int (card (ks \<inter> dom (adata a)))), clear_ttl ks (drop_keys ks a))"

definition spec_incr :: "bytes \<Rightarrow> int \<Rightarrow> astore \<Rightarrow> reply \<times> astore" where
  "spec_incr k delta a =
     (case (case adata a k of
              None \<Rightarrow> Inr 0
            | Some (AStr b) \<Rightarrow> (case as_int b of Some n \<Rightarrow> Inr n | None \<Rightarrow> Inl not_an_integer)
            | Some _ \<Rightarrow> Inl wrongtype) of
        Inl e \<Rightarrow> (e, a)
      | Inr n \<Rightarrow>
          if i64_ok (n + delta) then (Integer (n + delta), put k (AStr (show_int (n + delta))) a)
          else (would_overflow, a))"

definition spec_expire :: "bytes \<Rightarrow> int \<Rightarrow> astore \<Rightarrow> reply \<times> astore" where
  "spec_expire k secs a =
     (if k \<in> dom (adata a) then (Integer 1, a\<lparr>attl := (attl a)(k \<mapsto> secs)\<rparr>) else (Integer 0, a))"

definition spec_persist :: "bytes \<Rightarrow> astore \<Rightarrow> reply \<times> astore" where
  "spec_persist k a = (Integer (bool_int (k \<in> dom (attl a))), clear_ttl {k} a)"

definition spec_rename :: "bytes \<Rightarrow> bytes \<Rightarrow> astore \<Rightarrow> reply \<times> astore" where
  "spec_rename src dst a =
     (case adata a src of
        None \<Rightarrow> (reply_error ''ERR no such key'', a)
      | Some v \<Rightarrow>
          (reply_ok,
           a\<lparr>adata := (adata a)(src := None, dst := Some v),
             attl := (attl a)(src := None, dst := attl a src)\<rparr>))"

fun pair_up :: "bytes list \<Rightarrow> (bytes \<times> bytes) list" where
  "pair_up (f # v # rest) = (f, v) # pair_up rest"
| "pair_up _ = []"

text \<open>\<open>hash_at\<close> and \<open>set_at\<close>: the collection a command works on, empty where the key is absent.\<close>

definition hash_at :: "bytes \<Rightarrow> astore \<Rightarrow> (bytes \<rightharpoonup> bytes) option" where
  "hash_at k a =
     (case adata a k of None \<Rightarrow> Some Map.empty | Some (AHash h) \<Rightarrow> Some h | Some _ \<Rightarrow> None)"

definition set_at :: "bytes \<Rightarrow> astore \<Rightarrow> bytes set option" where
  "set_at k a = (case adata a k of None \<Rightarrow> Some {} | Some (ASet S) \<Rightarrow> Some S | Some _ \<Rightarrow> None)"

definition spec_hset :: "bool \<Rightarrow> bytes \<Rightarrow> (bytes \<times> bytes) list \<Rightarrow> astore \<Rightarrow> reply \<times> astore" where
  "spec_hset hmset k ps a =
     (case hash_at k a of
        None \<Rightarrow> (wrongtype, a)
      | Some h \<Rightarrow>
          (if hmset then reply_ok else Integer (int (card (fst ` set ps - dom h))),
           put k (AHash (h ++ map_of (rev ps))) a))"

definition spec_hsetnx :: "bytes \<Rightarrow> bytes \<Rightarrow> bytes \<Rightarrow> astore \<Rightarrow> reply \<times> astore" where
  "spec_hsetnx k f v a =
     (case hash_at k a of
        None \<Rightarrow> (wrongtype, a)
      | Some h \<Rightarrow>
          if f \<in> dom h then (Integer 0, a) else (Integer 1, put k (AHash (h(f \<mapsto> v))) a))"

definition spec_hdel :: "bytes \<Rightarrow> bytes set \<Rightarrow> astore \<Rightarrow> reply \<times> astore" where
  "spec_hdel k fs a =
     (case adata a k of
        None \<Rightarrow> (Integer 0, a)
      | Some (AHash h) \<Rightarrow>
          (Integer (int (card (fs \<inter> dom h))),
           if dom h \<subseteq> fs then drop_keys {k} a else put k (AHash (h |` (- fs))) a)
      | Some _ \<Rightarrow> (wrongtype, a))"

definition spec_hincrby :: "bytes \<Rightarrow> bytes \<Rightarrow> int \<Rightarrow> astore \<Rightarrow> reply \<times> astore" where
  "spec_hincrby k f delta a =
     (case hash_at k a of
        None \<Rightarrow> (wrongtype, a)
      | Some h \<Rightarrow>
          (case (case h f of None \<Rightarrow> Some 0 | Some v \<Rightarrow> as_int v) of
             None \<Rightarrow> (reply_error ''ERR hash value is not an integer'', a)
           | Some n \<Rightarrow>
               if i64_ok (n + delta) then
                 (Integer (n + delta), put k (AHash (h(f \<mapsto> show_int (n + delta)))) a)
               else (would_overflow, a)))"

definition spec_sadd :: "bytes \<Rightarrow> bytes set \<Rightarrow> astore \<Rightarrow> reply \<times> astore" where
  "spec_sadd k ms a =
     (case set_at k a of
        None \<Rightarrow> (wrongtype, a)
      | Some S \<Rightarrow> (Integer (int (card (ms - S))), put k (ASet (S \<union> ms)) a))"

definition spec_srem :: "bytes \<Rightarrow> bytes set \<Rightarrow> astore \<Rightarrow> reply \<times> astore" where
  "spec_srem k ms a =
     (case adata a k of
        None \<Rightarrow> (Integer 0, a)
      | Some (ASet S) \<Rightarrow>
          (Integer (int (card (ms \<inter> S))),
           if S \<subseteq> ms then drop_keys {k} a else put k (ASet (S - ms)) a)
      | Some _ \<Rightarrow> (wrongtype, a))"

definition spec_flush :: "astore \<Rightarrow> reply \<times> astore" where
  "spec_flush a = (reply_ok, \<lparr>adata = Map.empty, attl = Map.empty\<rparr>)"

text \<open>Arity checks around a specification of one, two or three operands.\<close>

definition with1 :: "bytes \<Rightarrow> command \<Rightarrow> (bytes \<Rightarrow> astore \<Rightarrow> reply \<times> astore) \<Rightarrow> astore \<Rightarrow> reply \<times> astore"
  where "with1 n cmd f a = (case arg cmd 1 of Some k \<Rightarrow> f k a | None \<Rightarrow> (wrongargs n, a))"

definition with2 ::
  "bytes \<Rightarrow> command \<Rightarrow> (bytes \<Rightarrow> bytes \<Rightarrow> astore \<Rightarrow> reply \<times> astore) \<Rightarrow> astore \<Rightarrow> reply \<times> astore" where
  "with2 n cmd f a =
     (case (arg cmd 1, arg cmd 2) of (Some x, Some y) \<Rightarrow> f x y a | _ \<Rightarrow> (wrongargs n, a))"

definition with3 ::
  "bytes \<Rightarrow> command \<Rightarrow> (bytes \<Rightarrow> bytes \<Rightarrow> bytes \<Rightarrow> astore \<Rightarrow> reply \<times> astore) \<Rightarrow> astore
     \<Rightarrow> reply \<times> astore" where
  "with3 n cmd f a =
     (case (arg cmd 1, arg cmd 2, arg cmd 3) of
        (Some x, Some y, Some z) \<Rightarrow> f x y z a | _ \<Rightarrow> (wrongargs n, a))"

text \<open>The step of a counter: one or the operand, up or down; the least 64-bit number is its own negation.\<close>

definition spec_delta :: "command \<Rightarrow> int option" where
  "spec_delta cmd =
     map_option (\<lambda>i. if cmd_name cmd \<in> {''INCR'', ''INCRBY''} then i else if i = - (2 ^ 63) then i else - i)
       (if cmd_name cmd \<in> {''INCR'', ''DECR''} then Some 1
        else case arg cmd 2 of None \<Rightarrow> None | Some b \<Rightarrow> as_int b)"

definition spec_apply :: "command \<Rightarrow> astore \<Rightarrow> reply \<times> astore" where
  "spec_apply cmd a =
     (let n = cmd_name cmd; operands = drop 2 (cmd_argv cmd) in
      if n = ''SET'' then with2 ''set'' cmd spec_set a
      else if n = ''SETNX'' then with2 ''setnx'' cmd spec_setnx a
      else if n = ''GETSET'' then with2 ''getset'' cmd spec_getset a
      else if n = ''APPEND'' then with2 ''append'' cmd spec_append a
      else if n \<in> {''DEL'', ''UNLINK''} then spec_del (set (drop 1 (cmd_argv cmd))) a
      else if n \<in> {''INCR'', ''DECR'', ''INCRBY'', ''DECRBY''} then
        with1 ''incr'' cmd (\<lambda>k a. case spec_delta cmd of
          None \<Rightarrow> (not_an_integer, a) | Some d \<Rightarrow> spec_incr k d a) a
      else if n \<in> {''EXPIRE'', ''PEXPIRE'', ''EXPIREAT'', ''PEXPIREAT''} then
        with1 ''expire'' cmd (\<lambda>k. spec_expire k
          (case Option.bind (arg cmd 2) as_int of Some t \<Rightarrow> t | None \<Rightarrow> 0)) a
      else if n = ''PERSIST'' then with1 ''persist'' cmd spec_persist a
      else if n = ''RENAME'' then with2 ''rename'' cmd spec_rename a
      else if n \<in> {''HSET'', ''HMSET''} then
        (if length operands < 2 \<or> odd (length operands) then (wrongargs ''hset'', a)
         else with1 ''hset'' cmd (\<lambda>k. spec_hset (n = ''HMSET'') k (pair_up operands)) a)
      else if n = ''HSETNX'' then with3 ''hsetnx'' cmd spec_hsetnx a
      else if n = ''HDEL'' then with1 ''hdel'' cmd (\<lambda>k. spec_hdel k (set operands)) a
      else if n = ''HINCRBY'' then
        with3 ''hincrby'' cmd (\<lambda>k f d a. case as_int d of
          None \<Rightarrow> (not_an_integer, a) | Some i \<Rightarrow> spec_hincrby k f i a) a
      else if n = ''SADD'' then with1 ''sadd'' cmd (\<lambda>k. spec_sadd k (set operands)) a
      else if n = ''SREM'' then with1 ''srem'' cmd (\<lambda>k. spec_srem k (set operands)) a
      else if n \<in> {''FLUSHDB'', ''FLUSHALL''} then spec_flush a
      else (not_implemented_write n, a))"

subsection \<open>Helper lemmas: the loops count set differences\<close>

lemma card_insert_diff:
  assumes "finite A"
  shows "card (insert x A - S) = (if x \<in> S then card (A - S) else Suc (card (A - insert x S)))"
proof (cases "x \<in> S")
  case False
  have "insert x A - S = insert x (A - insert x S)" using False by auto
  with assms False show ?thesis by simp
qed simp

lemma card_insert_inter:
  assumes "finite A"
  shows "card (insert x A \<inter> S) = (if x \<in> S then Suc (card (A \<inter> (S - {x}))) else card (A \<inter> S))"
proof (cases "x \<in> S")
  case True
  have "insert x A \<inter> S = insert x (A \<inter> (S - {x}))" using True by auto
  with assms True show ?thesis by simp
qed simp

lemma bt_contains_dom: "bt_contains m k \<longleftrightarrow> k \<in> dom (bt_get m)"
  by (auto simp: bt_contains_def)

lemma sadd_members_spec:
  "bs_ok s \<Longrightarrow> sadd_members ms n s = (n', s') \<Longrightarrow>
     n' = n + int (card (set ms - set s)) \<and> set s' = set s \<union> set ms \<and> bs_ok s'"
proof (induction ms n s rule: sadd_members.induct)
  case (2 m ms n s)
  then have "n' = (if bs_contains m s then n else n + 1) + int (card (set ms - set (bs_insert m s)))
      \<and> set s' = set (bs_insert m s) \<union> set ms \<and> bs_ok s'"
    by simp
  then show ?case
    by (auto simp: bs_contains_def card_insert_diff insert_absorb)
qed simp

lemma srem_members_spec:
  "bs_ok s \<Longrightarrow> srem_members ms n s = (n', s') \<Longrightarrow>
     n' = n + int (card (set ms \<inter> set s)) \<and> set s' = set s - set ms \<and> bs_ok s'"
proof (induction ms n s rule: srem_members.induct)
  case (2 m ms n s)
  then have "n' = (if bs_contains m s then n + 1 else n) + int (card (set ms \<inter> (set s - {m})))
      \<and> set s' = set s - {m} - set ms \<and> bs_ok s'"
    by simp
  then show ?case
    by (auto simp: bs_contains_def card_insert_inter)
qed simp

lemma bt_get_remove_restrict: "bt_get (bt_remove k m) = bt_get m |` (- {k})"
  by (auto simp: fun_eq_iff restrict_map_def)

lemma bt_get_insert_upd: "bt_get (bt_insert k v m) = (bt_get m)(k \<mapsto> v)"
  by (auto simp: fun_eq_iff)

lemma hdel_fields_spec:
  "bt_ok h \<Longrightarrow> hdel_fields fs n h = (n', h') \<Longrightarrow>
     n' = n + int (card (set fs \<inter> dom (bt_get h))) \<and> bt_get h' = bt_get h |` (- set fs) \<and> bt_ok h'"
proof (induction fs n h rule: hdel_fields.induct)
  case (1 n h)
  then show ?case by (auto simp: fun_eq_iff restrict_map_def)
next
  case (2 f fs n h)
  then have "n' = (if bt_contains h f then n + 1 else n)
        + int (card (set fs \<inter> (dom (bt_get h) - {f})))
      \<and> bt_get h' = bt_get h |` (- {f}) |` (- set fs) \<and> bt_ok h'"
    by (simp add: bt_get_remove_restrict Diff_eq Int_commute)
  moreover have "- {f} \<inter> - set fs = - set (f # fs)" by auto
  ultimately show ?case
    by (simp add: bt_contains_dom card_insert_inter)
qed

lemma hset_pairs_spec:
  "bt_ok h \<Longrightarrow> hset_pairs xs n h = (n', h') \<Longrightarrow>
     n' = n + int (card (fst ` set (pair_up xs) - dom (bt_get h)))
     \<and> bt_get h' = bt_get h ++ map_of (rev (pair_up xs)) \<and> bt_ok h'"
proof (induction xs n h rule: hset_pairs.induct)
  case (1 f v rest n h)
  have upd: "bt_get (bt_insert f v h) = (bt_get h)(f \<mapsto> v)"
    by (rule bt_get_insert_upd)
  have ih: "n' = (if bt_contains h f then n else n + 1)
        + int (card (fst ` set (pair_up rest) - insert f (dom (bt_get h))))"
      "bt_get h' = (bt_get h)(f \<mapsto> v) ++ map_of (rev (pair_up rest))" "bt_ok h'"
    using 1(1) [unfolded upd] 1(2,3) by (simp_all only: hset_pairs.simps bt_ok_insert dom_fun_upd
        option.distinct if_False)
  have maps: "(bt_get h)(f \<mapsto> v) ++ map_of (rev (pair_up rest))
      = bt_get h ++ map_of (rev (pair_up (f # v # rest)))"
    by (simp add: map_add_assoc [symmetric])
  have "fst ` set (pair_up (f # v # rest)) = insert f (fst ` set (pair_up rest))"
    by simp
  then have count: "card (fst ` set (pair_up (f # v # rest)) - dom (bt_get h))
      = (if bt_contains h f then 0 else 1)
        + card (fst ` set (pair_up rest) - insert f (dom (bt_get h)))"
    by (simp only: card_insert_diff finite_imageI finite_set bt_contains_dom)
      (auto simp: insert_absorb simp del: domIff)
  show ?case
    using ih unfolding maps count by (cases "bt_contains h f") auto
qed simp_all

subsection \<open>Each arm implements its specification\<close>

definition refines ::
  "(mem_store \<Rightarrow> reply \<times> mem_store) \<Rightarrow> (astore \<Rightarrow> reply \<times> astore) \<Rightarrow> bool" where
  "refines f g \<longleftrightarrow>
     (\<forall>s. store_ok s \<longrightarrow>
        g (abs_store s) = (fst (f s), abs_store (snd (f s))) \<and> store_ok (snd (f s)))"

lemma abs_store_simps [simp]:
  "adata (abs_store s) k = map_option abs_value (bt_get (data s) k)"
  "attl (abs_store s) = bt_get (ttl s)"
  by (simp_all add: abs_store_def)

lemma dom_adata_abs [simp]: "k \<in> dom (adata (abs_store s)) \<longleftrightarrow> bt_contains (data s) k"
  by (auto simp: bt_contains_def)

lemma astore_eqI:
  fixes a b :: astore
  assumes "\<And>k. adata a k = adata b k" "\<And>k. attl a k = attl b k"
  shows "a = b"
  using assms by (cases a, cases b) (simp add: fun_eq_iff)

lemma aupdate_simps [simp]:
  "adata (put k v a) = (adata a)(k \<mapsto> v)" "attl (put k v a) = attl a"
  "adata (clear_ttl ks a) = adata a" "attl (clear_ttl ks a) = attl a |` (- ks)"
  "adata (drop_keys ks a) = adata a |` (- ks)" "attl (drop_keys ks a) = attl a"
  by (simp_all add: put_def clear_ttl_def drop_keys_def)

lemma store_ok_insert [intro]:
  "store_ok s \<Longrightarrow> value_ok v \<Longrightarrow> store_ok (s\<lparr>data := bt_insert k v (data s)\<rparr>)"
  by (auto simp: store_ok_iff)

lemma store_ok_value: "store_ok s \<Longrightarrow> bt_get (data s) k = Some v \<Longrightarrow> value_ok v"
  by (auto simp: store_ok_iff)

lemmas arm_simps = refines_def store_ok_iff with1_def with2_def with3_def key_def

lemma refines_set [store_refine]: "refines (apply_set cmd) (with2 ''set'' cmd spec_set)"
  by (auto simp: arm_simps apply_set_def spec_set_def restrict_map_def intro!: astore_eqI
      split: option.splits if_splits)

lemma refines_setnx [store_refine]: "refines (apply_setnx cmd) (with2 ''setnx'' cmd spec_setnx)"
  by (auto simp: arm_simps apply_setnx_def spec_setnx_def simp del: domIff intro!: astore_eqI
      split: option.splits if_splits)

lemma refines_getset [store_refine]:
  "refines (apply_getset cmd) (with2 ''getset'' cmd spec_getset)"
  by (auto simp: arm_simps apply_getset_def spec_getset_def restrict_map_def Let_def
      intro!: astore_eqI split: option.splits if_splits redis_value.splits)

lemma refines_append [store_refine]:
  "refines (apply_append cmd) (with2 ''append'' cmd spec_append)"
  by (auto simp: arm_simps apply_append_def spec_append_def entry_or_insert_def
      intro!: astore_eqI split: option.splits if_splits redis_value.splits)

lemma del_keys_spec:
  "store_ok s \<Longrightarrow> del_keys ks n s = (n', s') \<Longrightarrow>
     n' = n + int (card (set ks \<inter> dom (adata (abs_store s))))
     \<and> abs_store s' = clear_ttl (set ks) (drop_keys (set ks) (abs_store s)) \<and> store_ok s'"
proof (induction ks n s rule: del_keys.induct)
  case (1 n s)
  then show ?case by (auto intro!: astore_eqI simp: restrict_map_def)
next
  case (2 k ks n s)
  let ?s1 = "s\<lparr>data := bt_remove k (data s), ttl := bt_remove k (ttl s)\<rparr>"
  let ?D = "dom (adata (abs_store s))"
  have ok: "store_ok ?s1"
    using 2(2) by (auto simp: store_ok_iff split: if_splits)
  have doms: "dom (adata (abs_store ?s1)) = ?D - {k}"
    by (auto simp: dom_def split: if_splits)
  have ih:
    "n' = (if bt_contains (data s) k then n + 1 else n) + int (card (set ks \<inter> (?D - {k})))"
    "abs_store s' = clear_ttl (set ks) (drop_keys (set ks) (abs_store ?s1))" "store_ok s'"
    using 2(1) [OF ok 2(3) [unfolded del_keys.simps]] by (simp_all only: doms)
  have "abs_store s' = clear_ttl (set (k # ks)) (drop_keys (set (k # ks)) (abs_store s))"
    unfolding ih(2) by (rule astore_eqI) (auto simp: restrict_map_def)
  moreover have "int (card (set (k # ks) \<inter> ?D))
      = (if bt_contains (data s) k then 1 else 0) + int (card (set ks \<inter> (?D - {k})))"
    by (simp add: card_insert_inter del: domIff)
  ultimately show ?case
    using ih by (simp del: abs_store_simps split: if_splits)
qed

lemma refines_del [store_refine]:
  "refines (apply_del cmd) (spec_del (set (drop 1 (cmd_argv cmd))))"
  unfolding refines_def apply_del_def spec_del_def
  by (auto split: prod.splits dest: del_keys_spec simp del: abs_store_simps)

lemma incr_delta_spec: "incr_delta cmd = spec_delta cmd"
  by (cases "arg cmd 2"; cases "Option.bind (arg cmd 2) as_int")
    (auto simp: incr_delta_def spec_delta_def wrapping_neg_def i64_min_def)

lemma refines_incr [store_refine]:
  "refines (apply_incr cmd) (with1 ''incr'' cmd (\<lambda>k a. case spec_delta cmd of
     None \<Rightarrow> (not_an_integer, a) | Some d \<Rightarrow> spec_incr k d a))"
  by (auto simp: arm_simps apply_incr_def incr_delta_spec spec_incr_def checked_add_def intro!: astore_eqI
      split: option.splits if_splits redis_value.splits)

lemma refines_expire [store_refine]:
  "refines (apply_expire cmd) (with1 ''expire'' cmd (\<lambda>k. spec_expire k
     (case Option.bind (arg cmd 2) as_int of Some t \<Rightarrow> t | None \<Rightarrow> 0)))"
  by (auto simp: arm_simps apply_expire_def spec_expire_def Let_def simp del: domIff
      intro!: astore_eqI split: option.splits if_splits)

lemma refines_persist [store_refine]:
  "refines (apply_persist cmd) (with1 ''persist'' cmd spec_persist)"
  by (auto simp: arm_simps apply_persist_def spec_persist_def bt_contains_dom restrict_map_def
      intro!: astore_eqI split: option.splits if_splits)

lemma refines_rename [store_refine]:
  "refines (apply_rename cmd) (with2 ''rename'' cmd spec_rename)"
  by (auto simp: arm_simps apply_rename_def spec_rename_def Let_def
      intro!: astore_eqI split: option.splits if_splits)

lemma refines_flush [store_refine]: "refines apply_flush spec_flush"
  by (auto simp: arm_simps apply_flush_def spec_flush_def intro!: astore_eqI)

lemma bt_get_empty_iff: "bt_get h = Map.empty \<longleftrightarrow> h = []"
  by (cases h) (auto simp: bt_get_def fun_eq_iff)

lemma bt_get_Nil_fun [simp]: "bt_get [] = Map.empty"
  by (simp add: bt_get_empty_iff)

lemma as_int_range: "as_int b = Some i \<Longrightarrow> i64_ok i"
  by (auto simp: as_int_def parse_int_field_def dest: parse_i64_range
      split: option.splits)

lemma hash_at_abs:
  "hash_at k (abs_store s) =
     (case bt_get (data s) k of
        None \<Rightarrow> Some Map.empty | Some (Hash h) \<Rightarrow> Some (bt_get h) | Some _ \<Rightarrow> None)"
  by (auto simp: hash_at_def split: option.splits redis_value.splits)

lemma set_at_abs:
  "set_at k (abs_store s) =
     (case bt_get (data s) k of
        None \<Rightarrow> Some {} | Some (Set ms) \<Rightarrow> Some (set ms) | Some _ \<Rightarrow> None)"
  by (auto simp: set_at_def split: option.splits redis_value.splits)

lemma store_ok_hash: "store_ok s \<Longrightarrow> bt_get (data s) k = Some (Hash h) \<Longrightarrow> bt_ok h"
  by (auto dest: store_ok_value)

lemma store_ok_set: "store_ok s \<Longrightarrow> bt_get (data s) k = Some (Set ms) \<Longrightarrow> bs_ok ms"
  by (auto dest: store_ok_value)

lemma store_ok_remove [intro]:
  "store_ok s \<Longrightarrow> store_ok (s\<lparr>data := bt_remove k (data s)\<rparr>)"
  by (auto simp: store_ok_iff split: if_splits)

lemma store_ok_insert2 [intro]:
  "store_ok s \<Longrightarrow> value_ok v \<Longrightarrow> value_ok w \<Longrightarrow>
     store_ok (s\<lparr>data := bt_insert k v (bt_insert k w (data s))\<rparr>)"
  by (auto simp: store_ok_iff)

lemma abs_store_put:
  "abs_store (s\<lparr>data := bt_insert k v (data s)\<rparr>) = put k (abs_value v) (abs_store s)"
  "abs_store (s\<lparr>data := bt_insert k v (bt_insert k w (data s))\<rparr>) = put k (abs_value v) (abs_store s)"
  by (auto intro!: astore_eqI)

lemma abs_store_drop:
  "abs_store (s\<lparr>data := bt_remove k (data s)\<rparr>) = drop_keys {k} (abs_store s)"
  by (auto intro!: astore_eqI simp: restrict_map_def)

lemma refines_hset [store_refine]:
  "refines (apply_hset cmd) (\<lambda>a.
     if length (drop 2 (cmd_argv cmd)) < 2 \<or> odd (length (drop 2 (cmd_argv cmd)))
     then (wrongargs ''hset'', a)
     else with1 ''hset'' cmd
       (\<lambda>k. spec_hset (cmd_name cmd = ''HMSET'') k (pair_up (drop 2 (cmd_argv cmd)))) a)"
proof -
  have arity: "length (cmd_argv cmd) < 4 \<or> (length (cmd_argv cmd) - 2) mod 2 \<noteq> 0 \<longleftrightarrow>
      length (drop 2 (cmd_argv cmd)) < 2 \<or> odd (length (drop 2 (cmd_argv cmd)))"
    unfolding length_drop by presburger
  show ?thesis
    unfolding refines_def apply_hset_def arity
    by (auto simp: with1_def key_def arg_def spec_hset_def entry_or_insert_def hash_at_abs
        abs_store_put simp del: abs_store_simps bt_get_insert
        dest: hset_pairs_spec [rotated] store_ok_hash intro!: store_ok_insert store_ok_insert2
        split: option.splits if_splits redis_value.splits prod.splits)
qed

lemma refines_hsetnx [store_refine]:
  "refines (apply_hsetnx cmd) (with3 ''hsetnx'' cmd spec_hsetnx)"
  unfolding refines_def apply_hsetnx_def
  by (auto simp: with3_def spec_hsetnx_def entry_or_insert_def hash_at_abs abs_store_put
      bt_contains_def bt_get_insert_upd simp del: abs_store_simps bt_get_insert
      dest: store_ok_hash intro!: store_ok_insert store_ok_insert2 split: option.splits if_splits redis_value.splits prod.splits)

lemma refines_hdel [store_refine]:
  "refines (apply_hdel cmd) (with1 ''hdel'' cmd (\<lambda>k. spec_hdel k (set (drop 2 (cmd_argv cmd)))))"
proof -
  have step: "hdel_fields fs 0 h = (n, h') \<Longrightarrow> store_ok s \<Longrightarrow>
      bt_get (data s) k = Some (Hash h) \<Longrightarrow>
      n = int (card (set fs \<inter> dom (bt_get h))) \<and> bt_get h' = bt_get h |` (- set fs) \<and> bt_ok h'
      \<and> (h' = [] \<longleftrightarrow> dom (bt_get h) \<subseteq> set fs)" for fs n h h' s k
    using hdel_fields_spec [of h fs 0 n h'] bt_get_empty_iff [of h'] store_ok_hash [of s k h]
    by (auto simp: restrict_map_def fun_eq_iff dom_def split: if_splits)
  show ?thesis
    unfolding refines_def apply_hdel_def
    by (auto simp: with1_def key_def spec_hdel_def abs_store_put abs_store_drop
        dest: step intro!: store_ok_insert store_ok_remove
        split: option.splits redis_value.splits prod.splits)
qed

lemma refines_hincrby [store_refine]:
  "refines (apply_hincrby cmd) (with3 ''hincrby'' cmd (\<lambda>k f d a. case as_int d of
     None \<Rightarrow> (not_an_integer, a) | Some i \<Rightarrow> spec_hincrby k f i a))"
  unfolding refines_def apply_hincrby_def
  by (auto simp: with3_def spec_hincrby_def entry_or_insert_def hash_at_abs abs_store_put
        checked_add_def bt_get_insert_upd as_int_range simp del: abs_store_simps bt_get_insert
        dest: store_ok_hash intro!: store_ok_insert store_ok_insert2 split: option.splits if_splits redis_value.splits prod.splits)

lemma refines_sadd [store_refine]:
  "refines (apply_sadd cmd) (with1 ''sadd'' cmd (\<lambda>k. spec_sadd k (set (drop 2 (cmd_argv cmd)))))"
  unfolding refines_def apply_sadd_def
  by (auto simp: with1_def key_def spec_sadd_def entry_or_insert_def set_at_abs abs_store_put
      simp del: abs_store_simps dest: sadd_members_spec [rotated] store_ok_set
      intro!: store_ok_insert store_ok_insert2
      split: option.splits redis_value.splits prod.splits)

lemma refines_srem [store_refine]:
  "refines (apply_srem cmd) (with1 ''srem'' cmd (\<lambda>k. spec_srem k (set (drop 2 (cmd_argv cmd)))))"
proof -
  have step: "srem_members xs 0 ms = (n, ms') \<Longrightarrow> store_ok s \<Longrightarrow>
      bt_get (data s) k = Some (Set ms) \<Longrightarrow>
      n = int (card (set xs \<inter> set ms)) \<and> set ms' = set ms - set xs \<and> bs_ok ms'
      \<and> (ms' = [] \<longleftrightarrow> set ms \<subseteq> set xs)" for xs n ms ms' s k
    using srem_members_spec [of ms xs 0 n ms'] store_ok_set [of s k ms] by (cases ms') auto
  show ?thesis
    unfolding refines_def apply_srem_def
    by (auto simp: with1_def key_def spec_srem_def abs_store_put abs_store_drop
        dest: step intro!: store_ok_insert store_ok_remove
        split: option.splits redis_value.splits prod.splits)
qed

lemma refines_refuse: "refines (\<lambda>s. (r, s)) (\<lambda>a. (r, a))"
  by (simp add: refines_def)

lemma refines_if:
  "(b \<Longrightarrow> refines f g) \<Longrightarrow> (\<not> b \<Longrightarrow> refines f' g') \<Longrightarrow>
     refines (\<lambda>s. if b then f s else f' s) (\<lambda>a. if b then g a else g' a)"
  by (auto simp: refines_def)

lemma refines_mem_apply: "refines (mem_apply cmd) (spec_apply cmd)"
  unfolding mem_apply_def [abs_def] spec_apply_def [abs_def] Let_def list.set
  by (intro refines_if store_refine refines_refuse)

lemma store_ok_new: "store_ok mem_new"
  by (simp add: store_ok_def mem_new_def)

text \<open>
  C9: every write command, on every branch (missing operands, wrong type, absent key, overflow,
  unknown command), returns the reply of its specification, leaves the abstract store the
  specification computes, and keeps the maps and sets of the store in ascending order.
\<close>

theorem store_refinement:
  assumes "store_ok s" "mem_apply cmd s = (r, s')"
  shows "spec_apply cmd (abs_store s) = (r, abs_store s') \<and> store_ok s'"
  using assms refines_mem_apply [of cmd] by (auto simp: refines_def)

theorem store_refinement_witness:
  "store_ok \<lparr>data = [(''h'', Hash [(''a'', ''1'')])], ttl = [(''h'', 9)]\<rparr> \<and>
   spec_apply \<lparr>cmd_name = ''HINCRBY'', cmd_argv = [''hincrby'', ''h'', ''a'', ''41'']\<rparr>
     (abs_store \<lparr>data = [(''h'', Hash [(''a'', ''1'')])], ttl = [(''h'', 9)]\<rparr>)
   = (Integer 42, abs_store \<lparr>data = [(''h'', Hash [(''a'', ''42'')])], ttl = [(''h'', 9)]\<rparr>)"
proof -
  have ok: "store_ok \<lparr>data = [(''h'', Hash [(''a'', ''1'')])], ttl = [(''h'', 9)]\<rparr>"
    by code_simp
  have run: "mem_apply \<lparr>cmd_name = ''HINCRBY'', cmd_argv = [''hincrby'', ''h'', ''a'', ''41'']\<rparr>
      \<lparr>data = [(''h'', Hash [(''a'', ''1'')])], ttl = [(''h'', 9)]\<rparr>
    = (Integer 42, \<lparr>data = [(''h'', Hash [(''a'', ''42'')])], ttl = [(''h'', 9)]\<rparr>)"
    by code_simp
  show ?thesis
    using store_refinement [OF ok run] ok by simp
qed

subsection \<open>Error replies\<close>

lemma reply_distinct [simp]:
  "reply_ok \<noteq> Error e" "Integer i \<noteq> Error e" "Bulk b \<noteq> Error e" "NilReply \<noteq> Error e"
  by (simp_all add: reply_ok_def)

lemma mem_store_update_same [simp]: "s\<lparr>data := data s\<rparr> = s"
  by simp

lemma hincrby_fresh: "as_int b = Some d \<Longrightarrow> checked_add 0 d \<noteq> None"
  by (auto simp: checked_add_def dest: as_int_range)

lemmas arm_defs = apply_set_def apply_setnx_def apply_append_def apply_del_def apply_incr_def
  apply_expire_def apply_persist_def apply_rename_def apply_hset_def apply_hsetnx_def
  apply_hdel_def apply_hincrby_def apply_sadd_def apply_srem_def apply_flush_def

text \<open>
  C36: a write that is answered with an error leaves the store exactly as it was, \<open>GETSET\<close>
  excepted (an error may come after \<open>or_insert_with\<close> has run, so this needs every such error
  to imply that the key was there).
\<close>

theorem error_leaves_store:
  assumes "mem_apply cmd s = (Error e, s')" "cmd_name cmd \<noteq> ''GETSET''"
  shows "s' = s"
  using assms(1) unfolding mem_apply_def
  by (auto simp: arm_defs entry_or_insert_def Let_def assms(2) hincrby_fresh reply_error_def
      split: if_splits option.splits redis_value.splits prod.splits sum.splits)

theorem error_leaves_store_witness:
  "mem_apply \<lparr>cmd_name = ''SADD'', cmd_argv = [''SADD'', ''k'', ''m'']\<rparr>
      \<lparr>data = [(''k'', Str ''v'')], ttl = []\<rparr>
   = (wrongtype, \<lparr>data = [(''k'', Str ''v'')], ttl = []\<rparr>)"
proof -
  let ?cmd = "\<lparr>cmd_name = ''SADD'', cmd_argv = [''SADD'', ''k'', ''m'']\<rparr>"
  let ?s = "\<lparr>data = [(''k'', Str ''v'')], ttl = []\<rparr>"
  obtain e where e: "wrongtype = Error e" by (simp add: wrongtype_def reply_error_def)
  obtain s' where s': "mem_apply ?cmd ?s = (wrongtype, s')"
    by (simp add: mem_apply_def apply_sadd_def key_def arg_def entry_or_insert_def bt_get_def)
  then have "s' = ?s"
    using error_leaves_store [of ?cmd ?s e s'] by (simp add: e)
  with s' show ?thesis by simp
qed

text \<open>
  \<open>GETSET\<close> on a hash or a set replaces the value by the new string and keeps the TTL of
  the key, although it answers \<open>WRONGTYPE\<close>: the insertion runs before the type is looked at.
\<close>

lemma getset_wrongtype_overwrites:
  assumes "cmd_name cmd = ''GETSET''" "arg cmd 1 = Some k" "arg cmd 2 = Some v"
    and "bt_get (data s) k = Some old" "old \<notin> range Str"
  shows "mem_apply cmd s = (wrongtype, s\<lparr>data := bt_insert k (Str v) (data s)\<rparr>)"
  using assms by (cases old) (simp_all add: mem_apply_def apply_getset_def Let_def)

lemma getset_wrongtype_overwrites_instance:
  "mem_apply \<lparr>cmd_name = ''GETSET'', cmd_argv = [''GETSET'', ''s'', ''new'']\<rparr>
      \<lparr>data = [(''s'', Set [''a'', ''b''])], ttl = [(''s'', 60)]\<rparr>
   = (wrongtype, \<lparr>data = [(''s'', Str ''new'')], ttl = [(''s'', 60)]\<rparr>)"
  (is "mem_apply ?cmd ?s = _")
proof -
  have "mem_apply ?cmd ?s = (wrongtype, ?s\<lparr>data := bt_insert ''s'' (Str ''new'') (data ?s)\<rparr>)"
    by (rule getset_wrongtype_overwrites [where old = "Set [''a'', ''b'']"])
      (auto simp: arg_def bt_get_def)
  then show ?thesis by (simp add: bt_insert_def)
qed

subsection \<open>Logical TTLs\<close>

definition ttl_live :: "mem_store \<Rightarrow> bool" where
  "ttl_live s \<longleftrightarrow> list_all (\<lambda>e. bt_contains (data s) (fst e)) (ttl s)"

lemma ttl_live_iff:
  "ttl_live s \<longleftrightarrow> (\<forall>k. bt_contains (ttl s) k \<longrightarrow> bt_contains (data s) k)"
  by (auto simp: ttl_live_def list_all_iff bt_contains_iff)

lemma del_keys_ttl_live: "ttl_live s \<Longrightarrow> ttl_live (snd (del_keys ks n s))"
  by (induction ks n s rule: del_keys.induct) (auto simp: ttl_live_iff)

named_theorems ttl_arms \<open>the arms of apply that keep every TTL on a live key\<close>

lemmas ttl_simps = ttl_live_iff entry_or_insert_def Let_def

lemma ttl_live_strings [ttl_arms]:
  assumes "ttl_live s"
  shows "ttl_live (snd (apply_set cmd s))" "ttl_live (snd (apply_setnx cmd s))"
    "ttl_live (snd (apply_getset cmd s))" "ttl_live (snd (apply_append cmd s))"
    "ttl_live (snd (apply_incr cmd s))"
  using assms
  by (auto simp: ttl_simps apply_set_def apply_setnx_def apply_getset_def apply_append_def
      apply_incr_def split: option.splits redis_value.splits sum.splits)

lemma ttl_live_keys [ttl_arms]:
  assumes "ttl_live s"
  shows "ttl_live (snd (apply_del cmd s))" "ttl_live (snd (apply_expire cmd s))"
    "ttl_live (snd (apply_persist cmd s))" "ttl_live (snd (apply_flush s))"
  using assms del_keys_ttl_live [OF assms, of "drop 1 (cmd_argv cmd)" 0]
  by (auto simp: ttl_simps apply_del_def apply_expire_def apply_persist_def apply_flush_def
      bt_contains_def split: option.splits prod.splits)

lemma ttl_live_rename [ttl_arms]: "ttl_live s \<Longrightarrow> ttl_live (snd (apply_rename cmd s))"
  by (auto simp: ttl_simps apply_rename_def split: option.splits if_splits)

lemma ttl_live_collections [ttl_arms]:
  assumes "ttl_live s"
  shows "ttl_live (snd (apply_hset cmd s))" "ttl_live (snd (apply_hsetnx cmd s))"
    "ttl_live (snd (apply_hincrby cmd s))" "ttl_live (snd (apply_sadd cmd s))"
  using assms
  by (auto simp: ttl_simps apply_hset_def apply_hsetnx_def apply_hincrby_def apply_sadd_def
      split: option.splits redis_value.splits sum.splits prod.splits)

text \<open>
  C37: every key with a logical TTL is a live key, and every write but \<open>HDEL\<close> and \<open>SREM\<close> keeps
  it so.
\<close>

theorem ttl_live_preserved:
  assumes "ttl_live s" "cmd_name cmd \<notin> {''HDEL'', ''SREM''}"
  shows "ttl_live (snd (mem_apply cmd s))"
  unfolding mem_apply_def using assms(2) ttl_arms [OF assms(1)] assms(1) by simp

theorem ttl_live_preserved_witness:
  "ttl_live (snd (mem_apply \<lparr>cmd_name = ''RENAME'', cmd_argv = [''RENAME'', ''a'', ''b'']\<rparr>
     \<lparr>data = [(''a'', Str ''1'')], ttl = [(''a'', 5)]\<rparr>))"
  by (rule ttl_live_preserved) code_simp+

text \<open>
  A hash emptied by \<open>HDEL\<close> is removed and its TTL stays behind, so the key read back as
  absent still has a TTL, which the next \<open>SETNX\<close> of that key then takes on.
\<close>

lemma hdel_leaves_ttl:
  assumes "cmd_name cmd = ''HDEL''" "cmd_argv cmd = [c, k, f]"
    and "bt_get (data s) k = Some (Hash [(f, v)])" "bt_get (ttl s) k = Some t"
    and "cmd_name cmd' = ''SETNX''" "cmd_argv cmd' = [c', k, w]"
  shows "let s1 = snd (mem_apply cmd s); s2 = snd (mem_apply cmd' s1) in
    \<not> bt_contains (data s1) k \<and> bt_get (ttl s1) k = Some t \<and> \<not> ttl_live s1
    \<and> bt_get (data s2) k = Some (Str w) \<and> bt_get (ttl s2) k = Some t"
  using assms
  by (auto simp: mem_apply_def apply_hdel_def apply_setnx_def key_def arg_def bt_remove_def [of f]
      ttl_live_iff bt_contains_def Let_def)

lemma hdel_leaves_ttl_instance:
  "let s = \<lparr>data = [(''h'', Hash [(''f'', ''1'')])], ttl = [(''h'', 10)]\<rparr>;
       s1 = snd (mem_apply \<lparr>cmd_name = ''HDEL'', cmd_argv = [''HDEL'', ''h'', ''f'']\<rparr> s);
       s2 = snd (mem_apply \<lparr>cmd_name = ''SETNX'', cmd_argv = [''SETNX'', ''h'', ''v'']\<rparr> s1) in
    \<not> bt_contains (data s1) ''h'' \<and> bt_get (ttl s1) ''h'' = Some 10 \<and> \<not> ttl_live s1
    \<and> bt_get (data s2) ''h'' = Some (Str ''v'') \<and> bt_get (ttl s2) ''h'' = Some 10"
  unfolding Let_def
  by (rule hdel_leaves_ttl [unfolded Let_def]) (simp_all add: bt_get_def)

subsection \<open>Reads after writes, and the snapshot view\<close>

lemma abs_value_inj: "value_ok v \<Longrightarrow> value_ok w \<Longrightarrow> abs_value v = abs_value w \<Longrightarrow> v = w"
  by (cases v; cases w) (auto intro: bt_ok_ext bs_ok_ext)

lemma abs_store_inj:
  assumes "store_ok s" "store_ok t" "abs_store s = abs_store t"
  shows "s = t"
proof -
  have eq: "map_option abs_value (bt_get (data s) k) = map_option abs_value (bt_get (data t) k)"
      and tt: "bt_get (ttl s) k = bt_get (ttl t) k" for k
    using arg_cong [OF assms(3), of adata] arg_cong [OF assms(3), of attl]
    by (auto simp: fun_eq_iff)
  have "bt_get (data s) k = bt_get (data t) k" for k
    by (rule option.inj_map_strong [OF _ eq])
      (auto intro: abs_value_inj store_ok_value assms(1,2))
  with tt show ?thesis
    using assms(1,2) by (auto simp: store_ok_iff intro!: mem_store.equality bt_ok_ext)
qed

lemma entry_of_value_inj: "entry_of_value v = entry_of_value w \<longleftrightarrow> v = w"
  by (cases v; cases w) (simp_all add: entry_of_value_def)

text \<open>
  Equal snapshots mean equal keyspaces and say nothing of the TTLs: two stores have the same
  \<open>snapshot_sorted\<close> exactly when their data is equal.
\<close>

lemma snapshot_sorted_iff: "snapshot_sorted s = snapshot_sorted t \<longleftrightarrow> data s = data t"
proof -
  have "inj (\<lambda>(k, v). (k, entry_of_value v))"
    by (auto simp: inj_def entry_of_value_inj)
  then show ?thesis
    unfolding snapshot_sorted_def by (rule inj_map_eq_map)
qed

end
