(* ===== verification/Effect.thy ===== *)
theory Effect
  imports Store_Spec
begin

section \<open>Effect replication: resolving a non-deterministic write at its origin\<close>

text \<open>
  \<open>src/crates/trains-valkey/src/effect.rs\<close>: \<open>SPOP\<close>, \<open>INCRBYFLOAT\<close> and \<open>HINCRBYFLOAT\<close> are
  answered by reading the committed local store and rewritten into a deterministic command.
  Only the store's \<open>query\<close> is used, so it is the argument \<open>query\<close>. The arithmetic of \<open>f64\<close>
  (its parser, addition, finiteness test and shortest printer) is the record \<open>float_ops\<close>.
\<close>

named_theorems effect_simps \<open>the branches of the resolvers\<close>

datatype resolution =
    RImmediate reply
  | RBroadcast "bytes list" reply

record 'f float_ops =
  f_zero :: 'f
  f_parse :: "bytes \<Rightarrow> 'f option"
  f_add :: "'f \<Rightarrow> 'f \<Rightarrow> 'f"
  f_finite :: "'f \<Rightarrow> bool"
  f_show :: "'f \<Rightarrow> bytes"

text \<open>\<open>q\<close>: the callers always pass a name, so \<open>parse\<close> succeeds (\<open>q_parse\<close>).\<close>

definition q :: "bytes list \<Rightarrow> command" where
  "q parts = (case parse parts of Some c \<Rightarrow> c | None \<Rightarrow> \<lparr>cmd_name = [], cmd_argv = []\<rparr>)"

lemma q_parse: "parts \<noteq> [] \<Longrightarrow> parse parts = Some (q parts)"
  by (simp add: q_def parse_def split: list.splits)

definition parse_f64 :: "'f float_ops \<Rightarrow> bytes \<Rightarrow> 'f option" where
  "parse_f64 F b =
     (case from_utf8 b of
        None \<Rightarrow> None
      | Some s \<Rightarrow>
          (case f_parse F (trim s) of
             None \<Rightarrow> None
           | Some v \<Rightarrow> if f_finite F v then Some v else None))"

definition format_float :: "'f float_ops \<Rightarrow> 'f \<Rightarrow> bytes" where
  "format_float F v = f_show F v"

definition bulk_items :: "reply list \<Rightarrow> bytes list" where
  "bulk_items items = List.map_filter (\<lambda>r. case r of Bulk b \<Rightarrow> Some b | _ \<Rightarrow> None) items"

definition resolve_spop :: "command \<Rightarrow> (command \<Rightarrow> reply) \<Rightarrow> resolution" where
  "resolve_spop cmd query =
     (case key cmd of
        None \<Rightarrow> RImmediate (wrongargs ''spop'')
      | Some k \<Rightarrow>
          (case (case query (q [''SMEMBERS'', k]) of
                   Array items \<Rightarrow> Inr (bulk_items items)
                 | Error e \<Rightarrow> Inl (Error e)
                 | _ \<Rightarrow> Inr []) of
             Inl e \<Rightarrow> RImmediate e
           | Inr members \<Rightarrow>
               (case arg cmd 2 of
                  None \<Rightarrow>
                    (case members of
                       m # _ \<Rightarrow> RBroadcast [''SREM'', k, m] (Bulk m)
                     | [] \<Rightarrow> RImmediate NilReply)
                | Some count_b \<Rightarrow>
                    (case as_int count_b of
                       None \<Rightarrow> RImmediate not_an_integer
                     | Some count \<Rightarrow>
                         (let popped = take (nat (max count 0)) members in
                          if popped = [] then RImmediate (Array [])
                          else RBroadcast ([''SREM'', k] @ popped) (Array (map Bulk popped)))))))"

text \<open>The part the two float commands share: the value read, the sum and its checks.\<close>

definition float_sum ::
  "'f float_ops \<Rightarrow> 'f \<Rightarrow> bytes \<Rightarrow> reply \<Rightarrow> reply + bytes" where
  "float_sum F incr bad current =
     (case (case current of
              Bulk b \<Rightarrow>
                (case parse_f64 F b of Some v \<Rightarrow> Inr v | None \<Rightarrow> Inl (reply_error bad))
            | NilReply \<Rightarrow> Inr (f_zero F)
            | Error e \<Rightarrow> Inl (Error e)
            | _ \<Rightarrow> Inr (f_zero F)) of
        Inl e \<Rightarrow> Inl e
      | Inr cur \<Rightarrow>
          (let next = f_add F cur incr in
           if \<not> f_finite F next then
             Inl (reply_error ''ERR increment would produce NaN or Infinity'')
           else Inr (format_float F next)))"

definition not_a_float :: bytes where
  "not_a_float = ''ERR value is not a valid float''"

definition resolve_incrbyfloat ::
  "'f float_ops \<Rightarrow> command \<Rightarrow> (command \<Rightarrow> reply) \<Rightarrow> resolution" where
  "resolve_incrbyfloat F cmd query =
     (case (arg cmd 1, arg cmd 2) of
        (Some k, Some incr_b) \<Rightarrow>
          (case parse_f64 F incr_b of
             None \<Rightarrow> RImmediate (reply_error not_a_float)
           | Some incr \<Rightarrow>
               (case float_sum F incr not_a_float (query (q [''GET'', k])) of
                  Inl e \<Rightarrow> RImmediate e
                | Inr formatted \<Rightarrow> RBroadcast [''SET'', k, formatted] (Bulk formatted)))
      | _ \<Rightarrow> RImmediate (wrongargs ''incrbyfloat''))"

definition resolve_hincrbyfloat ::
  "'f float_ops \<Rightarrow> command \<Rightarrow> (command \<Rightarrow> reply) \<Rightarrow> resolution" where
  "resolve_hincrbyfloat F cmd query =
     (case (arg cmd 1, arg cmd 2, arg cmd 3) of
        (Some k, Some field, Some incr_b) \<Rightarrow>
          (case parse_f64 F incr_b of
             None \<Rightarrow> RImmediate (reply_error not_a_float)
           | Some incr \<Rightarrow>
               (case float_sum F incr ''ERR hash value is not a float''
                       (query (q [''HGET'', k, field])) of
                  Inl e \<Rightarrow> RImmediate e
                | Inr formatted \<Rightarrow> RBroadcast [''HSET'', k, field, formatted] (Bulk formatted)))
      | _ \<Rightarrow> RImmediate (wrongargs ''hincrbyfloat''))"

definition not_resolvable :: "bytes \<Rightarrow> reply" where
  "not_resolvable n =
     reply_error (''ERR '' @ quoted n @ '' is not a resolvable non-deterministic command'')"

definition resolve :: "'f float_ops \<Rightarrow> command \<Rightarrow> (command \<Rightarrow> reply) \<Rightarrow> resolution" where
  "resolve F cmd query =
     (if cmd_name cmd = ''SPOP'' then resolve_spop cmd query
      else if cmd_name cmd = ''INCRBYFLOAT'' then resolve_incrbyfloat F cmd query
      else if cmd_name cmd = ''HINCRBYFLOAT'' then resolve_hincrbyfloat F cmd query
      else RImmediate (not_resolvable (cmd_name cmd)))"

lemma parse_ascii_upper:
  assumes "list_all is_ascii n" "to_ascii_uppercase n = n"
  shows "parse (n # rest) = Some \<lparr>cmd_name = n, cmd_argv = n # rest\<rparr>"
  using assms by (simp add: parse_def from_utf8_lossy_ascii)

lemma parse_effect_names [effect_simps]:
  "parse (''SREM'' # xs) = Some \<lparr>cmd_name = ''SREM'', cmd_argv = ''SREM'' # xs\<rparr>"
  "parse (''SET'' # xs) = Some \<lparr>cmd_name = ''SET'', cmd_argv = ''SET'' # xs\<rparr>"
  "parse (''HSET'' # xs) = Some \<lparr>cmd_name = ''HSET'', cmd_argv = ''HSET'' # xs\<rparr>"
  "parse (''SMEMBERS'' # xs) = Some \<lparr>cmd_name = ''SMEMBERS'', cmd_argv = ''SMEMBERS'' # xs\<rparr>"
  "parse (''GET'' # xs) = Some \<lparr>cmd_name = ''GET'', cmd_argv = ''GET'' # xs\<rparr>"
  "parse (''HGET'' # xs) = Some \<lparr>cmd_name = ''HGET'', cmd_argv = ''HGET'' # xs\<rparr>"
  by (rule parse_ascii_upper; simp add: is_ascii_def to_ascii_uppercase_def)+

lemma resolve_spop_Broadcast:
  assumes "resolve_spop cmd query = RBroadcast argv r"
  obtains k ms where "argv = ''SREM'' # k # ms" "ms \<noteq> []"
  using assms
  by (auto simp: resolve_spop_def Let_def split: option.splits reply.splits sum.splits
      list.splits if_splits)

text \<open>
  What is broadcast for a non-deterministic command is always a command of the deterministic
  write class, so that no replica resolves anything again.
\<close>

lemma resolve_deterministic:
  assumes "resolve F cmd query = RBroadcast argv r"
  shows "\<exists>c. parse argv = Some c \<and> cmd_argv c = argv \<and> classify (cmd_name c) = Write"
proof -
  have "argv \<noteq> [] \<and> hd argv \<in> {''SREM'', ''SET'', ''HSET''}"
    using assms
    by (auto simp: resolve_def resolve_incrbyfloat_def resolve_hincrbyfloat_def
        elim!: resolve_spop_Broadcast split: if_splits option.splits sum.splits)
  then show ?thesis
    by (cases argv) (auto simp: effect_simps classify_iff write_commands_def)
qed

text \<open>A small instance of the float operations: integers with one infinity, for evaluation.\<close>

definition int_floats :: "int option float_ops" where
  "int_floats =
     \<lparr>f_zero = Some 0, f_parse = (\<lambda>b. map_option Some (parse_i64 b)),
      f_add = (\<lambda>x y. case (x, y) of
        (Some a, Some b) \<Rightarrow> if i64_ok (a + b) then Some (a + b) else None | _ \<Rightarrow> None),
      f_finite = (\<lambda>x. x \<noteq> None),
      f_show = (\<lambda>x. case x of Some i \<Rightarrow> show_int i | None \<Rightarrow> ''inf'')\<rparr>"

lemma resolve_deterministic_instance:
  "resolve int_floats \<lparr>cmd_name = ''INCRBYFLOAT'', cmd_argv = [''incrbyfloat'', ''k'', ''5'']\<rparr>
     (\<lambda>_. Bulk ''37'') = RBroadcast [''SET'', ''k'', ''42''] (Bulk ''42'')
   \<and> (\<exists>c. parse [''SET'', ''k'', ''42''] = Some c \<and> cmd_argv c = [''SET'', ''k'', ''42'']
        \<and> classify (cmd_name c) = Write)"
proof -
  have "resolve int_floats \<lparr>cmd_name = ''INCRBYFLOAT'', cmd_argv = [''incrbyfloat'', ''k'', ''5'']\<rparr>
     (\<lambda>_. Bulk ''37'') = RBroadcast [''SET'', ''k'', ''42''] (Bulk ''42'')"
    by code_simp
  then show ?thesis using resolve_deterministic by blast
qed

subsection \<open>Floats that are not finite never reach the ring\<close>

text \<open>
  C40: when a float command is broadcast, the value it writes is the printed form of a finite sum
  of a finite increment and a finite current value, and it is the value the client is answered
  with; so NaN and the infinities are never replicated, whatever the operands.
\<close>

theorem float_effects_finite:
  assumes "resolve F cmd query = RBroadcast argv r" "f_finite F (f_zero F)"
    and "cmd_name cmd \<in> {''INCRBYFLOAT'', ''HINCRBYFLOAT''}"
  shows "\<exists>cur incr. f_finite F cur \<and> f_finite F incr \<and> f_finite F (f_add F cur incr)
    \<and> last argv = format_float F (f_add F cur incr) \<and> r = Bulk (last argv)"
proof -
  have sum: "float_sum F incr bad current = Inr v \<Longrightarrow>
      \<exists>cur. f_finite F cur \<and> f_finite F (f_add F cur incr) \<and> v = format_float F (f_add F cur incr)"
    for incr bad current v
    using assms(2)
    by (auto simp: float_sum_def Let_def parse_f64_def
        split: sum.splits option.splits reply.splits if_splits)
  have fin: "parse_f64 F b = Some x \<Longrightarrow> f_finite F x" for b x
    by (auto simp: parse_f64_def split: option.splits if_splits)
  show ?thesis
    using assms(1,3)
    by (auto simp: resolve_def resolve_incrbyfloat_def resolve_hincrbyfloat_def
        split: if_splits option.splits sum.splits dest!: sum) (use fin in blast)+
qed

theorem float_effects_finite_witness:
  "resolve int_floats \<lparr>cmd_name = ''HINCRBYFLOAT'', cmd_argv = [''HINCRBYFLOAT'', ''h'', ''f'', ''-2'']\<rparr>
     (\<lambda>_. NilReply) = RBroadcast [''HSET'', ''h'', ''f'', ''-2''] (Bulk ''-2'')
   \<and> (\<exists>cur incr. f_finite int_floats cur \<and> f_finite int_floats incr
        \<and> f_finite int_floats (f_add int_floats cur incr)
        \<and> ''-2'' = format_float int_floats (f_add int_floats cur incr))"
proof -
  let ?cmd = "\<lparr>cmd_name = ''HINCRBYFLOAT'', cmd_argv = [''HINCRBYFLOAT'', ''h'', ''f'', ''-2'']\<rparr>"
  have run: "resolve int_floats ?cmd (\<lambda>_. NilReply)
      = RBroadcast [''HSET'', ''h'', ''f'', ''-2''] (Bulk ''-2'')"
    by code_simp
  have "f_finite int_floats (f_zero int_floats)"
    by code_simp
  from float_effects_finite [OF run this] run show ?thesis by simp
qed

subsection \<open>\<open>SPOP\<close>: the effect removes what the client is told\<close>

lemma bulk_items_map [simp]: "bulk_items (map Bulk xs) = xs"
  by (induction xs) (simp_all add: bulk_items_def List.map_filter_def)

lemma bulk_items_Bulk [simp]: "bulk_items (Bulk x # rs) = x # bulk_items rs"
  by (simp add: bulk_items_def List.map_filter_def)

lemma bulk_items_Nil [simp]: "bulk_items [] = []"
  by (simp add: bulk_items_def List.map_filter_def)

lemma query_q_smembers:
  "mem_query now (q [''SMEMBERS'', k]) s =
     (case bt_get (data s) k of
        Some (Set ms) \<Rightarrow> Array (map Bulk ms) | Some _ \<Rightarrow> wrongtype | None \<Rightarrow> Array [])"
  by (simp add: q_def effect_simps mem_query_def query_smembers_def value_at_def
      key_or_empty_def key_def arg_def)

lemma spop_broadcast_cases:
  assumes "resolve_spop cmd (\<lambda>c. mem_query now c s) = RBroadcast argv r"
  obtains k ms popped where "arg cmd 1 = Some k" "bt_get (data s) k = Some (Set ms)"
    "popped \<noteq> []" "argv = ''SREM'' # k # popped"
    "case arg cmd 2 of
       None \<Rightarrow> popped = take 1 ms \<and> r = Bulk (hd popped)
     | Some b \<Rightarrow> \<exists>n. as_int b = Some n \<and> popped = take (nat n) ms \<and> r = Array (map Bulk popped)"
proof -
  obtain k where k: "key cmd = Some k"
    using assms by (cases "key cmd") (simp_all add: resolve_spop_def)
  have "\<exists>ms. bt_get (data s) k = Some (Set ms)"
  proof (cases "bt_get (data s) k")
    case None
    with assms k show ?thesis
      by (simp add: resolve_spop_def query_q_smembers Let_def split: option.splits)
  next
    case (Some v)
    with assms k show ?thesis
      by (cases v) (simp_all add: resolve_spop_def query_q_smembers wrongtype_def reply_error_def)
  qed
  then obtain ms where ms: "bt_get (data s) k = Some (Set ms)" ..
  note [simp] = resolve_spop_def query_q_smembers Let_def
  show ?thesis
  proof (cases "arg cmd 2")
    case None
    with assms k ms obtain m rest where "ms = m # rest" "argv = [''SREM'', k, m]" "r = Bulk m"
      by (cases ms) simp_all
    with k ms show ?thesis
      using None by (intro that [of k ms "[m]"]) (simp_all add: key_def)
  next
    case (Some b)
    with assms k ms obtain i where "as_int b = Some i"
      by (cases "as_int b") simp_all
    with assms k ms Some show ?thesis
      by (intro that [of k ms "take (nat i) ms"])
        (auto simp: key_def max_def split: if_splits)
  qed
qed

text \<open>
  C38: when \<open>SPOP\<close> is broadcast, applying its effect to the store it was resolved against removes
  from the set at the command's key exactly the members the client is told it popped, each of them
  once and a member of the set, and reports their number: without a count that is one member, told
  as a bulk string, with a count as many as the count asks for and the set has, told as an array.
\<close>

theorem spop_effect_pops:
  assumes "store_ok s" "cmd_name cmd = ''SPOP''"
    and "resolve F cmd (\<lambda>c. mem_query now c s) = RBroadcast argv r"
  shows "\<exists>k S popped c s'. arg cmd 1 = Some k \<and> set_at k (abs_store s) = Some S
    \<and> popped \<noteq> [] \<and> set popped \<subseteq> S \<and> distinct popped
    \<and> (case arg cmd 2 of
         None \<Rightarrow> (\<exists>m. popped = [m] \<and> r = Bulk m)
       | Some b \<Rightarrow> (\<exists>n. as_int b = Some n \<and> length popped = min (nat n) (card S)
                      \<and> r = Array (map Bulk popped)))
    \<and> parse argv = Some c \<and> mem_apply c s = (Integer (int (length popped)), s')
    \<and> set_at k (abs_store s') = Some (S - set popped)"
proof -
  from assms(2,3) have "resolve_spop cmd (\<lambda>c. mem_query now c s) = RBroadcast argv r"
    by (simp add: resolve_def)
  then obtain k ms popped where k: "arg cmd 1 = Some k" "popped \<noteq> []" and
    p: "bt_get (data s) k = Some (Set ms)" "argv = ''SREM'' # k # popped" and
    told: "case arg cmd 2 of
       None \<Rightarrow> popped = take 1 ms \<and> r = Bulk (hd popped)
     | Some b \<Rightarrow> \<exists>n. as_int b = Some n \<and> popped = take (nat n) ms \<and> r = Array (map Bulk popped)"
    by (rule spop_broadcast_cases)
  have dms: "distinct ms"
    using store_ok_set [OF assms(1) p(1)] by (rule bs_ok_distinct)
  have "\<exists>n. popped = take n ms"
    using told by (auto split: option.splits)
  then have d: "distinct popped" "set popped \<subseteq> set ms"
    using dms by (auto dest: in_set_takeD)
  have told': "case arg cmd 2 of
      None \<Rightarrow> (\<exists>m. popped = [m] \<and> r = Bulk m)
    | Some b \<Rightarrow> (\<exists>n. as_int b = Some n \<and> length popped = min (nat n) (card (set ms))
                   \<and> r = Array (map Bulk popped))"
    using told k(2) distinct_card [OF dms] by (cases ms) (auto split: option.splits)
  let ?c = "\<lparr>cmd_name = ''SREM'', cmd_argv = argv\<rparr>"
  define s' where "s' = snd (mem_apply ?c s)"
  have "spec_apply ?c (abs_store s) = spec_srem k (set popped) (abs_store s)"
    using p(2) by (simp add: spec_apply_def with1_def arg_def Let_def)
  moreover have "card (set popped \<inter> set ms) = length popped"
    using d by (simp add: Int_absorb2 distinct_card)
  moreover have "spec_apply ?c (abs_store s) = (fst (mem_apply ?c s), abs_store s')"
    using refines_mem_apply [of ?c] assms(1) by (simp add: refines_def s'_def)
  ultimately have "fst (mem_apply ?c s) = Integer (int (length popped))"
      "set_at k (abs_store s') = Some (set ms - set popped)"
    using p(1) by (auto simp: spec_srem_def set_at_def split: if_splits
        dest: arg_cong [where f = "\<lambda>a. adata a k"])
  then show ?thesis
    using p k d told' s'_def by (intro exI [of _ k] exI [of _ "set ms"] exI [of _ popped] exI [of _ ?c]
        exI [of _ s']) (auto simp: set_at_abs effect_simps prod_eq_iff)
qed

theorem spop_effect_pops_witness:
  "let s = \<lparr>data = [(''s'', Set [''a'', ''b'', ''c''])], ttl = []\<rparr>;
       cmd = \<lparr>cmd_name = ''SPOP'', cmd_argv = [''SPOP'', ''s'', ''2'']\<rparr> in
   \<exists>k S popped c s'. arg cmd 1 = Some k \<and> set_at k (abs_store s) = Some S
    \<and> popped \<noteq> [] \<and> set popped \<subseteq> S \<and> distinct popped
    \<and> (case arg cmd 2 of
         None \<Rightarrow> (\<exists>m. popped = [m] \<and> Array [Bulk ''a'', Bulk ''b''] = Bulk m)
       | Some b \<Rightarrow> (\<exists>n. as_int b = Some n \<and> length popped = min (nat n) (card S)
                      \<and> Array [Bulk ''a'', Bulk ''b''] = Array (map Bulk popped)))
    \<and> parse [''SREM'', ''s'', ''a'', ''b''] = Some c
    \<and> mem_apply c s = (Integer (int (length popped)), s')
    \<and> set_at k (abs_store s') = Some (S - set popped)"
  unfolding Let_def
  by (rule spop_effect_pops [where now = "(0, 0)" and F = int_floats]) code_simp+

end
