(* ===== verification/Delivered_Log.thy ===== *)
theory Delivered_Log
  imports Command
begin

section \<open>The bounded delivered-effect log\<close>

text \<open>
  \<open>src/crates/trains-valkey/src/delivered_log.rs\<close>: the ring buffer of the most recent applied
  effects with their delivered index, from which a survivor serves the tail a rejoining
  replica missed. The index is a \<open>u64\<close>. The abstract view of a log that resumed at index \<open>b\<close>
  is the whole history \<open>hs\<close> of effects appended since: \<open>log_run b cap hs\<close>.
\<close>

named_theorems log_simps \<open>parts of a delivered-effect log\<close>

definition DEFAULT_CAP :: nat where
  "DEFAULT_CAP = 2 ^ 18"

record delivered_entry =
  de_index :: u64
  de_op :: write_op

record delivered_log =
  dl_entries :: "delivered_entry list"
  dl_head :: u64
  dl_cap :: nat

definition log_new :: "nat \<Rightarrow> delivered_log" where
  "log_new cap = \<lparr>dl_entries = [], dl_head = 0, dl_cap = max cap 1\<rparr>"

definition log_default :: delivered_log where
  "log_default = log_new DEFAULT_CAP"

definition resumed_at :: "u64 \<Rightarrow> nat \<Rightarrow> delivered_log" where
  "resumed_at index cap = \<lparr>dl_entries = [], dl_head = index, dl_cap = max cap 1\<rparr>"

text \<open>The loop that pops the front while more than \<open>cap\<close> entries are held.\<close>

fun evict :: "nat \<Rightarrow> 'a list \<Rightarrow> 'a list" where
  "evict cap [] = []"
| "evict cap (e # es) = (if cap < length (e # es) then evict cap es else e # es)"

definition append_op :: "write_op \<Rightarrow> delivered_log \<Rightarrow> u64 \<times> delivered_log" where
  "append_op op l =
     (let index = dl_head l;
          es = dl_entries l @ [\<lparr>de_index = index, de_op = op\<rparr>] in
      (index, l\<lparr>dl_head := dl_head l + 1, dl_entries := evict (dl_cap l) es\<rparr>))"

definition head_index :: "delivered_log \<Rightarrow> u64" where
  "head_index l = dl_head l"

definition low_water_index :: "delivered_log \<Rightarrow> u64" where
  "low_water_index l = (case dl_entries l of e # _ \<Rightarrow> de_index e | [] \<Rightarrow> dl_head l)"

definition log_len :: "delivered_log \<Rightarrow> nat" where
  "log_len l = length (dl_entries l)"

definition log_is_empty :: "delivered_log \<Rightarrow> bool" where
  "log_is_empty l \<longleftrightarrow> dl_entries l = []"

definition can_serve_from :: "u64 \<Rightarrow> delivered_log \<Rightarrow> bool" where
  "can_serve_from x l \<longleftrightarrow> low_water_index l \<le> x \<and> x \<le> dl_head l"

definition entries_from :: "u64 \<Rightarrow> delivered_log \<Rightarrow> delivered_entry list" where
  "entries_from x l = filter (\<lambda>e. x \<le> de_index e) (dl_entries l)"

text \<open>
  \<open>DeliveredEntry::encode\<close> and \<open>decode\<close> are \<open>bincode\<close>'s; the operations that use them take the
  two functions as arguments.
\<close>

definition encode_tail :: "(delivered_entry \<Rightarrow> bytes) \<Rightarrow> delivered_entry list \<Rightarrow> bytes list" where
  "encode_tail enc es = map enc es"

subsection \<open>The window of a history\<close>

lemma evict_drop: "evict cap es = drop (length es - cap) es"
proof (induction es)
  case (Cons e es)
  then show ?case by (cases "cap < length (e # es)") (simp_all add: Suc_diff_le)
qed simp

definition log_run :: "u64 \<Rightarrow> nat \<Rightarrow> write_op list \<Rightarrow> delivered_log" where
  "log_run b cap hs = fold (\<lambda>op l. snd (append_op op l)) hs (resumed_at b cap)"

text \<open>The entries a log of that history would hold were it not bounded.\<close>

definition numbered :: "u64 \<Rightarrow> write_op list \<Rightarrow> delivered_entry list" where
  "numbered b hs = map (\<lambda>i. \<lparr>de_index = b + of_nat i, de_op = hs ! i\<rparr>) [0..<length hs]"

lemma length_numbered [simp, log_simps]: "length (numbered b hs) = length hs"
  by (simp add: numbered_def)

lemma numbered_snoc:
  "numbered b (hs @ [op]) =
     numbered b hs @ [\<lparr>de_index = b + of_nat (length hs), de_op = op\<rparr>]"
  by (auto simp: numbered_def nth_append)

lemma log_run_snoc: "log_run b cap (hs @ [op]) = snd (append_op op (log_run b cap hs))"
  by (simp add: log_run_def)

lemma log_run_state:
  "log_run b cap hs =
     \<lparr>dl_entries = drop (length hs - max cap 1) (numbered b hs),
      dl_head = b + of_nat (length hs), dl_cap = max cap 1\<rparr>"
proof (induction hs rule: rev_induct)
  case Nil
  then show ?case by (simp add: log_run_def resumed_at_def numbered_def)
next
  case (snoc op hs)
  have "Suc n - (n - c + c) + (n - c) = Suc n - c" for n c :: nat
    by (cases "c \<le> n") auto
  with snoc show ?case
    by (simp add: log_run_snoc append_op_def Let_def evict_drop numbered_snoc add.assoc
        add.commute [of 1])
qed

lemma log_run_parts [log_simps]:
  "dl_entries (log_run b cap hs) = drop (length hs - max cap 1) (numbered b hs)"
  "dl_head (log_run b cap hs) = b + of_nat (length hs)"
  "dl_cap (log_run b cap hs) = max cap 1"
  by (simp_all add: log_run_state)

lemma unat_index:
  assumes "unat (b :: u64) + n < 2 ^ 64" "i \<le> n"
  shows "unat (b + of_nat i) = unat b + i"
proof -
  have "unat (of_nat i :: u64) = i"
    using assms by (simp add: unat_of_nat take_bit_nat_eq_self)
  then show ?thesis
    using assms by (simp add: unat_plus_if' split: if_splits)
qed

lemma low_water_run:
  assumes "unat b + length hs < 2 ^ 64"
  shows "unat (low_water_index (log_run b cap hs)) = unat b + (length hs - max cap 1)"
proof (cases "hs = []")
  case True
  then show ?thesis by (simp add: low_water_index_def log_simps numbered_def)
next
  case False
  let ?d = "length hs - max cap 1"
  have d: "?d < length hs"
    using False by (cases hs) auto
  then have "drop ?d (numbered b hs) =
      \<lparr>de_index = b + of_nat ?d, de_op = hs ! ?d\<rparr> # drop (Suc ?d) (numbered b hs)"
    by (simp add: Cons_nth_drop_Suc [symmetric] numbered_def)
  then show ?thesis
    using d unat_index [OF assms, of ?d] by (simp add: low_water_index_def log_simps)
qed

lemma filter_numbered:
  assumes "unat b + length hs < 2 ^ 64" "d \<le> length hs" "unat b + d \<le> unat x"
  shows "map de_op (filter (\<lambda>e. x \<le> de_index e) (drop d (numbered b hs))) = drop (unat x - unat b) hs"
proof -
  have idx: "x \<le> b + of_nat i \<longleftrightarrow> unat x - unat b \<le> i" if "i < length hs" for i
    using unat_index [OF assms(1), of i] that assms(3) by (auto simp: word_le_nat_alt)
  have "filter (\<lambda>e. x \<le> de_index e) (drop d (numbered b hs))
      = map (\<lambda>i. \<lparr>de_index = b + of_nat i, de_op = hs ! i\<rparr>)
          (filter (\<lambda>i. x \<le> b + of_nat i) [d..<length hs])"
    by (simp add: numbered_def drop_map filter_map comp_def)
  also have "filter (\<lambda>i. x \<le> b + of_nat i) [d..<length hs]
      = filter (\<lambda>i. unat x - unat b \<le> i) [d..<length hs]"
    by (rule filter_cong) (simp_all add: idx)
  also have "\<dots> = [unat x - unat b..<length hs]"
  proof -
    have "filter (\<lambda>i. m \<le> i) [d..<n] = [m..<n]" if "d \<le> m" for m n
      using that by (induction n) auto
    then show ?thesis using assms(3) by simp
  qed
  finally show ?thesis
    by (auto simp: comp_def intro: nth_equalityI)
qed

lemma can_serve_run:
  assumes "unat b + length hs < 2 ^ 64"
  shows "can_serve_from x (log_run b cap hs) \<longleftrightarrow>
    unat b + (length hs - max cap 1) \<le> unat x \<and> unat x \<le> unat b + length hs"
  using low_water_run [OF assms, of cap] unat_index [OF assms, of "length hs"]
  by (simp add: can_serve_from_def word_le_nat_alt log_simps)

lemma entries_from_run:
  assumes "unat b + length hs < 2 ^ 64" "can_serve_from x (log_run b cap hs)"
  shows "map de_op (entries_from x (log_run b cap hs)) = drop (unat x - unat b) hs"
  using assms(2) unfolding can_serve_run [OF assms(1)] entries_from_def log_simps
  by (intro filter_numbered [OF assms(1)]) auto

subsection \<open>Claims\<close>

text \<open>
  A log holds exactly the last \<open>cap\<close> effects of its history, however long that is, so its
  memory is bounded; and the head counts every effect, evicted ones included.
\<close>

lemma log_bounded:
  "log_len (log_run b cap hs) = min (length hs) (max cap 1)
   \<and> map de_op (dl_entries (log_run b cap hs)) = drop (length hs - max cap 1) hs
   \<and> head_index (log_run b cap hs) = b + of_nat (length hs)"
  by (auto simp: log_len_def head_index_def log_simps numbered_def drop_map comp_def
      intro: nth_equalityI)

text \<open>
  C17: while the \<open>u64\<close> index does not wrap, a log can serve a peer at index \<open>x\<close> exactly when \<open>x\<close>
  lies between its low-water mark and its head, and then the tail from \<open>x\<close> is exactly the effects
  of the history the peer misses, in order, without a gap or an overlap.
\<close>

theorem tail_exact:
  assumes "unat b + length hs < 2 ^ 64"
  shows "(can_serve_from x (log_run b cap hs) \<longleftrightarrow>
      unat b + (length hs - max cap 1) \<le> unat x \<and> unat x \<le> unat b + length hs)
    \<and> (can_serve_from x (log_run b cap hs) \<longrightarrow>
      map de_op (entries_from x (log_run b cap hs)) = drop (unat x - unat b) hs)"
  using can_serve_run [OF assms] entries_from_run [OF assms] by blast

theorem tail_exact_witness:
  "map de_op (entries_from 6 (log_run 5 2 [write_op_new 1 0 [''SET''], write_op_new 2 0 [''DEL''],
      write_op_new 1 1 [''INCR'']]))
   = [write_op_new 2 0 [''DEL''], write_op_new 1 1 [''INCR'']]"
  (is "map de_op (entries_from 6 (log_run 5 2 ?hs)) = _")
proof -
  have small: "unat (5 :: u64) + length ?hs < 2 ^ 64" by simp
  have "can_serve_from 6 (log_run 5 2 ?hs)" by code_simp
  then show ?thesis
    using tail_exact [OF small, of 6 2] by simp
qed

end
