(* ===== verification/Dedup.thy ===== *)
theory Dedup
  imports Command
begin

section \<open>Write deduplication: per-origin watermarks\<close>

text \<open>
  \<open>OriginDedup\<close> and \<open>WriteDedup\<close> of \<open>src/crates/trains-valkey/src/replica.rs\<close>. Ids are \<open>u64\<close>
  and the watermark's increment wraps. The abstract view is the set of applied ids
  (\<open>applied_ids\<close>, \<open>seen\<close>); the interface \<open>first_seen_filter\<close> says that \<open>first_seen\<close> is insertion
  into that set, and derives what a whole stream of operations does. The only operation
  on the logging facade, a warning when the window grows, has no effect on the state.
\<close>

named_theorems dedup_simps \<open>the sets of applied ids\<close>

subsection \<open>The interface\<close>

locale first_seen_filter =
  fixes see :: "'k \<Rightarrow> 'd \<Rightarrow> bool \<times> 'd"
    and seen_set :: "'d \<Rightarrow> 'k set"
    and ok :: "'d \<Rightarrow> bool"
    and fresh :: "'k \<Rightarrow> bool"
  assumes see_ok: "ok d \<Longrightarrow> fresh k \<Longrightarrow> ok (snd (see k d))"
    and see_fst: "ok d \<Longrightarrow> fresh k \<Longrightarrow> fst (see k d) \<longleftrightarrow> k \<notin> seen_set d"
    and see_snd: "ok d \<Longrightarrow> fresh k \<Longrightarrow> seen_set (snd (see k d)) = insert k (seen_set d)"
    and seen_inj: "ok d \<Longrightarrow> ok d' \<Longrightarrow> seen_set d = seen_set d' \<Longrightarrow> d = d'"
begin

fun keep_new :: "'k set \<Rightarrow> 'k list \<Rightarrow> 'k list" where
  "keep_new S [] = []"
| "keep_new S (k # ks) = (if k \<in> S then keep_new S ks else k # keep_new (insert k S) ks)"

fun see_all :: "'k list \<Rightarrow> 'd \<Rightarrow> 'k list \<times> 'd" where
  "see_all [] d = ([], d)"
| "see_all (k # ks) d =
     (case see k d of (new, d1) \<Rightarrow>
        (case see_all ks d1 of (ks', d2) \<Rightarrow> (if new then k # ks' else ks', d2)))"

lemma see_all_spec:
  assumes "ok d" "list_all fresh ks"
  shows "fst (see_all ks d) = keep_new (seen_set d) ks \<and> ok (snd (see_all ks d))
    \<and> seen_set (snd (see_all ks d)) = seen_set d \<union> set ks"
  using assms
proof (induction ks arbitrary: d)
  case (Cons k ks)
  obtain new d1 where s: "see k d = (new, d1)" by fastforce
  have k: "ok d" "fresh k" using Cons.prems by simp_all
  obtain ks' d2 where r: "see_all ks d1 = (ks', d2)" by fastforce
  have d1: "ok d1" "new \<longleftrightarrow> k \<notin> seen_set d" "seen_set d1 = insert k (seen_set d)"
    using see_ok [OF k] see_fst [OF k] see_snd [OF k] s by simp_all
  have "ks' = keep_new (seen_set d1) ks \<and> ok d2 \<and> seen_set d2 = seen_set d1 \<union> set ks"
    using Cons.IH [OF d1(1)] Cons.prems(2) r by simp
  then show ?case
    using d1 s r by (cases "k \<in> seen_set d") (simp_all add: insert_absorb)
qed simp

text \<open>The state after a stream depends on the set of its ids only.\<close>

lemma see_all_order:
  assumes "ok d" "list_all fresh ks" "list_all fresh ks'" "set ks = set ks'"
  shows "snd (see_all ks d) = snd (see_all ks' d)"
  using see_all_spec [OF assms(1,2)] see_all_spec [OF assms(1,3)] assms(4)
  by (intro seen_inj) auto

lemma keep_new_distinct: "distinct (keep_new S ks) \<and> set (keep_new S ks) = set ks - S"
  by (induction S ks rule: keep_new.induct) auto

end

subsection \<open>One origin\<close>

record origin_dedup =
  watermark :: u64
  recent :: "u64 btree_set"

definition origin_default :: origin_dedup where
  "origin_default = \<lparr>watermark = 0, recent = []\<rparr>"

definition is_dup :: "u64 \<Rightarrow> origin_dedup \<Rightarrow> bool" where
  "is_dup i od \<longleftrightarrow> i < watermark od \<or> bs_contains i (recent od)"

text \<open>The loop \<open>while self.recent.remove(&self.watermark)\<close>.\<close>

function sweep :: "u64 \<Rightarrow> u64 btree_set \<Rightarrow> u64 \<times> u64 btree_set" where
  "sweep w s = (if bs_contains w s then sweep (w + 1) (bs_remove w s) else (w, s))"
  by pat_completeness auto
termination
  by (relation "measure (\<lambda>(w, s). length s)") (auto simp: bs_contains_def length_bs_remove_less)

declare sweep.simps [simp del]

definition record_id :: "u64 \<Rightarrow> origin_dedup \<Rightarrow> origin_dedup" where
  "record_id i od =
     (case sweep (watermark od) (bs_insert i (recent od)) of
        (w, s) \<Rightarrow> od\<lparr>watermark := w, recent := s\<rparr>)"

definition recent_len :: "origin_dedup \<Rightarrow> nat" where
  "recent_len od = length (recent od)"

definition applied_ids :: "origin_dedup \<Rightarrow> u64 set" where
  "applied_ids od = {i. i < watermark od} \<union> set (recent od)"

text \<open>
  The invariant: the window is in order, strictly above the watermark, and does not hold the
  largest id (recording that one would wrap the watermark).
\<close>

definition origin_ok :: "origin_dedup \<Rightarrow> bool" where
  "origin_ok od \<longleftrightarrow>
     bs_ok (recent od) \<and> list_all (\<lambda>i. watermark od < i \<and> i \<noteq> - 1) (recent od)"

lemma is_dup_iff [dedup_simps]: "is_dup i od \<longleftrightarrow> i \<in> applied_ids od"
  by (simp add: is_dup_def applied_ids_def bs_contains_def)

lemma sweep_spec:
  assumes "bs_ok s" "\<forall>i \<in> set s. w \<le> i \<and> i \<noteq> - 1" "sweep w s = (w', s')"
  shows "bs_ok s' \<and> (\<forall>i \<in> set s'. w' < i \<and> i \<noteq> - 1)
    \<and> {i. i < w'} \<union> set s' = {i. i < w} \<union> set s"
  using assms
proof (induction w s arbitrary: w' s' rule: sweep.induct)
  case (1 w s)
  show ?case
  proof (cases "w \<in> set s")
    case True
    then have nz: "w \<noteq> - 1" using 1(3) by blast
    have step: "sweep (w + 1) (bs_remove w s) = (w', s')"
      using 1(4) True by (simp add: sweep.simps [of w] bs_contains_def)
    have above: "\<forall>i \<in> set (bs_remove w s). w + 1 \<le> i \<and> i \<noteq> - 1"
      using 1(3) by (auto intro!: inc_le simp: order_less_le)
    have "{i. i < w + 1} = insert w {i. i < w}"
      unfolding word_less_inc [OF nz] by (simp add: set_eq_iff order_le_less disj_commute)
    moreover have "bs_contains w s" using True by (simp add: bs_contains_def)
    ultimately show ?thesis
      using 1(1) [OF _ _ above step] 1(2) True by auto
  next
    case False
    then show ?thesis
      using 1(2-4) by (auto simp: sweep.simps [of w] bs_contains_def order_le_less)
  qed
qed

lemma record_id_spec:
  assumes "origin_ok od" "i \<notin> applied_ids od" "i \<noteq> - 1"
  shows "origin_ok (record_id i od)" "applied_ids (record_id i od) = insert i (applied_ids od)"
proof -
  obtain w s where ws: "sweep (watermark od) (bs_insert i (recent od)) = (w, s)"
    by fastforce
  have "bs_ok (bs_insert i (recent od))"
    "\<forall>j \<in> set (bs_insert i (recent od)). watermark od \<le> j \<and> j \<noteq> - 1"
    using assms by (auto simp: origin_ok_def list_all_iff applied_ids_def less_imp_le not_less)
  from sweep_spec [OF this ws]
  show "origin_ok (record_id i od)" "applied_ids (record_id i od) = insert i (applied_ids od)"
    by (auto simp: record_id_def ws origin_ok_def applied_ids_def list_all_iff)
qed

lemma watermark_gap: "origin_ok od \<Longrightarrow> watermark od \<notin> applied_ids od"
  by (auto simp: origin_ok_def applied_ids_def list_all_iff)

lemma origin_ok_inj:
  assumes "origin_ok od" "origin_ok od'" "applied_ids od = applied_ids od'"
  shows "od = od'"
proof -
  have below: "watermark a \<le> watermark b"
    if "origin_ok a" "origin_ok b" "applied_ids a = applied_ids b" for a b
  proof (rule ccontr)
    assume "\<not> watermark a \<le> watermark b"
    then have "watermark b \<in> applied_ids a" by (simp add: applied_ids_def not_le)
    with watermark_gap [OF that(2)] that(3) show False by simp
  qed
  have w: "watermark od = watermark od'"
    using below [OF assms] below [OF assms(2,1)] assms(3) by simp
  have above: "set (recent a) = applied_ids a - {i. i < watermark a}" if "origin_ok a" for a
    using that by (auto simp: applied_ids_def origin_ok_def list_all_iff)
  have "set (recent od) = set (recent od')"
    using above [OF assms(1)] above [OF assms(2)] assms(3) w by simp
  with assms(1,2) have "recent od = recent od'"
    by (auto simp: origin_ok_def intro: bs_ok_ext)
  with w show ?thesis by (cases od, cases od') simp
qed

subsection \<open>All origins\<close>

record write_dedup =
  origins :: "(proc_id, origin_dedup) btree_map"

definition dedup_new :: write_dedup where
  "dedup_new = \<lparr>origins = []\<rparr>"

definition first_seen :: "proc_id \<Rightarrow> u64 \<Rightarrow> write_dedup \<Rightarrow> bool \<times> write_dedup" where
  "first_seen org rid d =
     (let od = (case bt_get (origins d) org of Some od \<Rightarrow> od | None \<Rightarrow> origin_default) in
      if is_dup rid od then (False, d\<lparr>origins := bt_insert org od (origins d)\<rparr>)
      else (True, d\<lparr>origins := bt_insert org (record_id rid od) (origins d)\<rparr>))"

definition dedup_origin :: "proc_id \<Rightarrow> write_dedup \<Rightarrow> origin_dedup option" where
  "dedup_origin org d = bt_get (origins d) org"

definition ids_of :: "write_dedup \<Rightarrow> proc_id \<Rightarrow> u64 set" where
  "ids_of d org = (case bt_get (origins d) org of Some od \<Rightarrow> applied_ids od | None \<Rightarrow> {})"

definition seen :: "write_dedup \<Rightarrow> (proc_id \<times> u64) set" where
  "seen d = {(org, rid). rid \<in> ids_of d org}"

text \<open>Every origin listed has applied something, so the map is determined by the set.\<close>

definition dedup_ok :: "write_dedup \<Rightarrow> bool" where
  "dedup_ok d \<longleftrightarrow>
     bt_ok (origins d)
     \<and> list_all (\<lambda>e. origin_ok (snd e) \<and> snd e \<noteq> origin_default) (origins d)"

lemma dedup_ok_iff:
  "dedup_ok d \<longleftrightarrow> bt_ok (origins d) \<and>
     (\<forall>org od. bt_get (origins d) org = Some od \<longrightarrow> origin_ok od \<and> od \<noteq> origin_default)"
  by (fastforce simp: dedup_ok_def list_all_iff bt_ok_get_iff)

lemma dedup_ok_new [simp]: "dedup_ok dedup_new"
  by (simp add: dedup_ok_def dedup_new_def)

lemma seen_new [simp, dedup_simps]: "seen dedup_new = {}"
  by (simp add: seen_def dedup_new_def ids_of_def)

lemma origin_default_simps [simp, dedup_simps]:
  "origin_ok origin_default" "applied_ids origin_default = {}"
  by (simp_all add: origin_ok_def origin_default_def applied_ids_def)

lemma nonempty_iff: "origin_ok od \<Longrightarrow> applied_ids od = {} \<longleftrightarrow> od = origin_default"
  by (metis origin_default_simps origin_ok_inj)

lemma first_seen_spec:
  assumes "dedup_ok d" "rid \<noteq> - 1"
  shows "dedup_ok (snd (first_seen org rid d))"
    and "fst (first_seen org rid d) \<longleftrightarrow> (org, rid) \<notin> seen d"
    and "seen (snd (first_seen org rid d)) = insert (org, rid) (seen d)"
proof -
  define od where "od = (case bt_get (origins d) org of Some od \<Rightarrow> od | None \<Rightarrow> origin_default)"
  have ok: "origin_ok od"
    using assms(1) by (auto simp: od_def dedup_ok_iff split: option.splits)
  have ids: "ids_of d org = applied_ids od"
    by (simp add: ids_of_def od_def split: option.splits)
  have run: "first_seen org rid d =
      (rid \<notin> applied_ids od, d\<lparr>origins :=
         bt_insert org (if rid \<in> applied_ids od then od else record_id rid od) (origins d)\<rparr>)"
    by (simp add: first_seen_def od_def [symmetric] Let_def dedup_simps)
  show "fst (first_seen org rid d) \<longleftrightarrow> (org, rid) \<notin> seen d"
    by (simp add: run seen_def ids)
  have new: "applied_ids (if rid \<in> applied_ids od then od else record_id rid od)
      = insert rid (applied_ids od)"
    and new_ok: "origin_ok (if rid \<in> applied_ids od then od else record_id rid od)"
    using record_id_spec [OF ok _ assms(2)] ok by auto
  then show "seen (snd (first_seen org rid d)) = insert (org, rid) (seen d)"
    using ids by (auto simp: run seen_def ids_of_def split: if_splits option.splits)
  have "(if rid \<in> applied_ids od then od else record_id rid od) \<noteq> origin_default"
    using new by (metis insert_not_empty origin_default_simps(2))
  with new_ok show "dedup_ok (snd (first_seen org rid d))"
    using assms(1) unfolding run by (auto simp: dedup_ok_iff split: if_splits)
qed

lemma seen_inj:
  assumes "dedup_ok d" "dedup_ok d'" "seen d = seen d'"
  shows "d = d'"
proof -
  have ids: "ids_of d org = ids_of d' org" for org
    using assms(3) by (auto simp: seen_def set_eq_iff)
  have "bt_get (origins d) org = bt_get (origins d') org" for org
    using ids [of org] assms(1,2) nonempty_iff origin_ok_inj
    by (fastforce simp: ids_of_def dedup_ok_iff split: option.splits)
  then have "origins d = origins d'"
    using assms(1,2) by (auto simp: dedup_ok_iff intro: bt_ok_ext)
  then show ?thesis by (cases d, cases d') simp
qed

subsection \<open>The interface holds of \<open>WriteDedup\<close>\<close>

definition see_id :: "proc_id \<times> u64 \<Rightarrow> write_dedup \<Rightarrow> bool \<times> write_dedup" where
  "see_id k d = first_seen (fst k) (snd k) d"

definition usable_id :: "proc_id \<times> u64 \<Rightarrow> bool" where
  "usable_id k \<longleftrightarrow> snd k \<noteq> - 1"

interpretation wd: first_seen_filter see_id seen dedup_ok usable_id
  by unfold_locales
    (auto simp: see_id_def usable_id_def first_seen_spec intro: seen_inj)

text \<open>The state after a stream of operations.\<close>

definition dedup_run :: "(proc_id \<times> u64) list \<Rightarrow> write_dedup \<Rightarrow> write_dedup" where
  "dedup_run ks d = fold (\<lambda>k d. snd (first_seen (fst k) (snd k) d)) ks d"

lemma dedup_run_see_all: "dedup_run ks d = snd (wd.see_all ks d)"
  by (induction ks arbitrary: d) (auto simp: dedup_run_def see_id_def split: prod.splits)

lemma dedup_run_spec:
  assumes "dedup_ok d" "list_all usable_id ks"
  shows "dedup_ok (dedup_run ks d)" "seen (dedup_run ks d) = seen d \<union> set ks"
  using wd.see_all_spec [OF assms] by (simp_all add: dedup_run_see_all)

lemma below_of_nat:
  assumes "n < 2 ^ 64"
  shows "{i :: u64. i < of_nat n} = of_nat ` {..<n}"
proof -
  have n: "unat (of_nat n :: u64) = n"
    using assms by (simp add: unat_of_nat take_bit_nat_eq_self)
  show ?thesis
  proof (intro set_eqI iffI)
    fix i :: u64
    assume "i \<in> {i. i < of_nat n}"
    then have "unat i < n" by (simp add: word_less_nat_alt n)
    then show "i \<in> of_nat ` {..<n}" by (intro image_eqI [of _ _ "unat i"]) simp_all
  next
    fix i :: u64
    assume "i \<in> of_nat ` {..<n}"
    then show "i \<in> {i. i < of_nat n}"
      using assms by (auto simp: word_less_nat_alt unat_of_nat take_bit_nat_eq_self)
  qed
qed

subsection \<open>Claims\<close>

text \<open>
  C8: \<open>first_seen\<close> is insertion into a set of \<open>(origin, id)\<close> pairs: it says "new" exactly for a
  pair not recorded before, records it and nothing else, and keeps the invariant (the window is
  sorted and strictly above the watermark), the largest \<open>u64\<close> excepted.
\<close>

theorem dedup_refines_set:
  assumes "dedup_ok d" "rid \<noteq> - 1" "first_seen org rid d = (new, d')"
  shows "(new \<longleftrightarrow> (org, rid) \<notin> seen d) \<and> seen d' = insert (org, rid) (seen d) \<and> dedup_ok d'"
  using first_seen_spec [OF assms(1,2), of org] assms(3) by simp

theorem dedup_refines_set_witness:
  "let d = \<lparr>origins = [(1, \<lparr>watermark = 2, recent = [3, 4]\<rparr>)]\<rparr>;
       d' = \<lparr>origins = [(1, \<lparr>watermark = 5, recent = []\<rparr>)]\<rparr> in
   first_seen 1 2 d = (True, d') \<and> (1, 2) \<notin> seen d \<and> seen d' = insert (1, 2) (seen d)
   \<and> dedup_ok d'"
proof -
  let ?d = "\<lparr>origins = [(1, \<lparr>watermark = 2, recent = [3, 4]\<rparr>)]\<rparr>"
  let ?d' = "\<lparr>origins = [(1, \<lparr>watermark = 5, recent = []\<rparr>)]\<rparr>"
  have ok: "dedup_ok ?d" by code_simp
  have run: "first_seen 1 2 ?d = (True, ?d')" by code_simp
  have "(2 :: u64) \<noteq> - 1" by simp
  from dedup_refines_set [OF ok this run] run show ?thesis by simp
qed

text \<open>
  C31: the window does not grow: whatever the order and the repetitions in which an origin's ids
  \<open>0 .. n - 1\<close> arrive, once all have arrived the whole state is the one number \<open>n\<close>.
\<close>

theorem dedup_compacts:
  assumes "set ks = (\<lambda>i. (org, of_nat i)) ` {..<n}" "0 < n" "n < 2 ^ 64"
  shows "dedup_run ks dedup_new = \<lparr>origins = [(org, \<lparr>watermark = of_nat n, recent = []\<rparr>)]\<rparr>"
    (is "_ = ?d")
proof (rule seen_inj)
  have "(of_nat i :: u64) \<noteq> - 1" if "i < n" for i
  proof -
    have "unat (of_nat i :: u64) = i" "i + 1 < 2 ^ 64"
      using that assms(3) by (simp_all add: unat_of_nat take_bit_nat_eq_self)
    moreover have "unat (- 1 :: u64) = 18446744073709551615"
      by (simp add: unsigned_minus_1_eq_mask mask_eq_exp_minus_1)
    ultimately show ?thesis by auto
  qed
  then have use: "list_all usable_id ks"
    using assms(1) by (auto simp: list_all_iff usable_id_def)
  have n: "unat (of_nat n :: u64) = n"
    using assms(3) by (simp add: unat_of_nat take_bit_nat_eq_self)
  show "dedup_ok (dedup_run ks dedup_new)"
    by (rule dedup_run_spec [OF dedup_ok_new use])
  have "(of_nat n :: u64) \<noteq> 0"
    using n assms(2) by (metis neq0_conv unat_0)
  then show "dedup_ok ?d"
    by (simp add: dedup_ok_def bt_ok_def origin_ok_def origin_default_def)
  have "seen ?d = {org} \<times> {i. i < of_nat n}"
    by (auto simp: seen_def ids_of_def bt_get_def applied_ids_def split: if_splits)
  also have "\<dots> = set ks"
    unfolding below_of_nat [OF assms(3)] assms(1) by auto
  finally show "seen (dedup_run ks dedup_new) = seen ?d"
    using dedup_run_spec(2) [OF dedup_ok_new use] by simp
qed

theorem dedup_compacts_witness:
  "dedup_run [(7, 2), (7, 0), (7, 2), (7, 1)] dedup_new
   = \<lparr>origins = [(7, \<lparr>watermark = 3, recent = []\<rparr>)]\<rparr>"
proof -
  have "{..<3 :: nat} = {0, 1, 2}" by auto
  then have "set [(7, 2), (7, 0), (7, 2), (7, 1)] = (\<lambda>i. (7 :: proc_id, of_nat i :: u64)) ` {..<3}"
    by auto
  from dedup_compacts [OF this] show ?thesis by simp
qed

end
