(* ===== verification/Reply_Types.thy ===== *)
theory Reply_Types
  imports Store_Spec
begin

section \<open>The types of the store's replies\<close>

text \<open>
  A RESP reply is untyped, and a client library decodes it by the command it sent. This theory
  gives each command of \<open>MemStore::apply\<close> and \<open>MemStore::query\<close>
  (\<open>src/crates/trains-valkey/src/store.rs\<close>) the type of its answer, as a function of the command
  alone, and shows that the store never answers with anything else than that or an error. The
  one thing the state has to promise is that a logical TTL is a 64-bit integer, which every
  write keeps.
\<close>

subsection \<open>Types\<close>

datatype reply_type =
    T_Ok
  | T_Status
  | T_Bulk
  | T_Maybe
  | T_I64
  | T_Count
  | T_Upto nat
  | T_List reply_type
  | T_Tuple nat reply_type
  | T_Pairs
  | T_Cursor reply_type
  | T_Never

fun has_type :: "reply_type \<Rightarrow> reply \<Rightarrow> bool" where
  "has_type T_Ok r \<longleftrightarrow> r = reply_ok"
| "has_type T_Status r \<longleftrightarrow> (case r of Simple _ \<Rightarrow> True | _ \<Rightarrow> False)"
| "has_type T_Bulk r \<longleftrightarrow> (case r of Bulk _ \<Rightarrow> True | _ \<Rightarrow> False)"
| "has_type T_Maybe r \<longleftrightarrow> (case r of Bulk _ \<Rightarrow> True | NilReply \<Rightarrow> True | _ \<Rightarrow> False)"
| "has_type T_I64 r \<longleftrightarrow> (case r of Integer i \<Rightarrow> i64_ok i | _ \<Rightarrow> False)"
| "has_type T_Count r \<longleftrightarrow> (case r of Integer i \<Rightarrow> 0 \<le> i | _ \<Rightarrow> False)"
| "has_type (T_Upto n) r \<longleftrightarrow> (case r of Integer i \<Rightarrow> 0 \<le> i \<and> i \<le> int n | _ \<Rightarrow> False)"
| "has_type (T_List t) r \<longleftrightarrow> (case r of Array rs \<Rightarrow> list_all (has_type t) rs | _ \<Rightarrow> False)"
| "has_type (T_Tuple n t) r \<longleftrightarrow>
     (case r of Array rs \<Rightarrow> length rs = n \<and> list_all (has_type t) rs | _ \<Rightarrow> False)"
| "has_type T_Pairs r \<longleftrightarrow>
     (case r of Array rs \<Rightarrow> even (length rs) \<and> list_all (has_type T_Bulk) rs | _ \<Rightarrow> False)"
| "has_type (T_Cursor t) r \<longleftrightarrow>
     (case r of Array [Bulk c, items] \<Rightarrow> c = ''0'' \<and> has_type t items | _ \<Rightarrow> False)"
| "has_type T_Never r \<longleftrightarrow> False"

definition typed :: "reply_type \<Rightarrow> reply \<Rightarrow> bool" where
  "typed t r \<longleftrightarrow> (case r of Error _ \<Rightarrow> True | _ \<Rightarrow> has_type t r)"

definition write_type :: "command \<Rightarrow> reply_type" where
  "write_type c =
     (let n = cmd_name c; argc = length (cmd_argv c) in
      if n \<in> set [''SET'', ''RENAME'', ''HMSET'', ''FLUSHDB'', ''FLUSHALL''] then T_Ok
      else if n = ''GETSET'' then T_Maybe
      else if n = ''APPEND'' then T_Count
      else if n \<in> set [''DEL'', ''UNLINK''] then T_Upto (argc - 1)
      else if n \<in> set [''INCR'', ''DECR'', ''INCRBY'', ''DECRBY'', ''HINCRBY''] then T_I64
      else if n \<in> set [''SETNX'', ''HSETNX'', ''EXPIRE'', ''PEXPIRE'', ''EXPIREAT'', ''PEXPIREAT'',
                       ''PERSIST''] then T_Upto 1
      else if n = ''HSET'' then T_Upto ((argc - 2) div 2)
      else if n \<in> set [''HDEL'', ''SADD'', ''SREM''] then T_Upto (argc - 2)
      else T_Never)"

definition read_type :: "command \<Rightarrow> reply_type" where
  "read_type c =
     (let n = cmd_name c; argc = length (cmd_argv c) in
      if n = ''PING'' then (if argc < 2 then T_Status else T_Bulk)
      else if n = ''TYPE'' then T_Status
      else if n = ''ECHO'' then T_Bulk
      else if n \<in> set [''GET'', ''HGET'', ''SRANDMEMBER'', ''RANDOMKEY''] then T_Maybe
      else if n \<in> set [''STRLEN'', ''DBSIZE'', ''HLEN'', ''SCARD''] then T_Count
      else if n = ''EXISTS'' then T_Upto (argc - 1)
      else if n \<in> set [''HEXISTS'', ''SISMEMBER''] then T_Upto 1
      else if n = ''TTL'' then T_I64
      else if n = ''MGET'' then T_Tuple (argc - 1) T_Maybe
      else if n = ''HMGET'' then T_Tuple (argc - 2) T_Maybe
      else if n \<in> set [''KEYS'', ''HKEYS'', ''HVALS'', ''SMEMBERS''] then T_List T_Bulk
      else if n = ''HGETALL'' then T_Pairs
      else if n = ''TIME'' then T_Tuple 2 T_Bulk
      else if n \<in> set [''SCAN'', ''SSCAN''] then T_Cursor (T_List T_Bulk)
      else if n = ''HSCAN'' then T_Cursor T_Pairs
      else T_Never)"

definition ttl_typed :: "mem_store \<Rightarrow> bool" where
  "ttl_typed s \<longleftrightarrow> (\<forall>k t. bt_get (ttl s) k = Some t \<longrightarrow> i64_ok t)"


subsection \<open>Every answer is typed\<close>

named_theorems reply_typing \<open>the reply of each arm has the type of its command\<close>

lemma typed_Error [simp]:
  "typed t (wrongargs n)" "typed t wrongtype" "typed t not_an_integer" "typed t would_overflow"
  "typed t (reply_error e)" "typed t (not_implemented_write n)" "typed t (not_implemented_read n)"
  by (simp_all add: typed_def wrongargs_def wrongtype_def not_an_integer_def would_overflow_def
      not_implemented_write_def not_implemented_read_def reply_error_def)

lemma typed_simps [simp]:
  "typed t (Integer i) = has_type t (Integer i)" "typed t (Bulk b) = has_type t (Bulk b)"
  "typed t NilReply = has_type t NilReply" "typed t (Simple b) = has_type t (Simple b)"
  "typed t (Array rs) = has_type t (Array rs)" "typed t reply_ok = has_type t reply_ok"
  by (simp_all add: typed_def reply_ok_def)

lemma list_all_map_Bulk [simp]:
  "list_all (has_type T_Bulk) (map (\<lambda>x. Bulk (f x)) (xs :: 'a list))"
  "list_all (has_type T_Bulk) (map Bulk bs)"
  by (simp_all add: list_all_iff)

lemma hash_pairs_typed [simp]:
  "even (length (hash_pairs h))" "list_all (has_type T_Bulk) (hash_pairs h)"
  by (induction h) (auto simp: hash_pairs_def)

lemma bool_int_range [simp]: "0 \<le> bool_int b" "bool_int b \<le> 1"
  by (simp_all add: bool_int_def)

text \<open>The counting loops answer with a number between zero and the operands they were given.\<close>

lemma del_keys_upto:
  "n \<le> fst (del_keys ks n s) \<and> fst (del_keys ks n s) \<le> n + int (length ks)"
proof (induction ks n s rule: del_keys.induct)
  case (2 k ks n s)
  then show ?case by (cases "bt_contains (data s) k") auto
qed simp

lemma hset_pairs_upto:
  "n \<le> fst (hset_pairs fvs n h) \<and> fst (hset_pairs fvs n h) \<le> n + int (length fvs div 2)"
proof (induction fvs n h rule: hset_pairs.induct)
  case (1 f v rest n h)
  then show ?case by (cases "bt_contains h f") auto
qed simp_all

lemma hdel_fields_upto:
  "n \<le> fst (hdel_fields fs n h) \<and> fst (hdel_fields fs n h) \<le> n + int (length fs)"
proof (induction fs n h rule: hdel_fields.induct)
  case (2 f fs n h)
  then show ?case by (cases "bt_contains h f") auto
qed simp

lemma sadd_members_upto:
  "n \<le> fst (sadd_members ms n s) \<and> fst (sadd_members ms n s) \<le> n + int (length ms)"
proof (induction ms n s rule: sadd_members.induct)
  case (2 m ms n s)
  then show ?case by (cases "bs_contains m s") auto
qed simp

lemma srem_members_upto:
  "n \<le> fst (srem_members ms n s) \<and> fst (srem_members ms n s) \<le> n + int (length ms)"
proof (induction ms n s rule: srem_members.induct)
  case (2 m ms n s)
  then show ?case by (cases "bs_contains m s") auto
qed simp

lemma count_upto:
  "n \<le> foldl (\<lambda>n k. if P k then n + 1 else n) n ks
   \<and> foldl (\<lambda>n k. if P k then n + 1 else n) n ks \<le> n + int (length ks)"
proof (induction ks arbitrary: n)
  case (Cons k ks)
  show ?case using Cons.IH [of n] Cons.IH [of "n + 1"] by (cases "P k") auto
qed simp

lemma checked_add_range: "checked_add a b = Some c \<Longrightarrow> i64_ok c"
  by (auto simp: checked_add_def split: if_splits)


lemmas counts_upto = del_keys_upto [of 0] hset_pairs_upto [of 0] hdel_fields_upto [of 0]
  sadd_members_upto [of 0] srem_members_upto [of 0]

lemma typed_strings [reply_typing]:
  "typed T_Ok (fst (apply_set cmd s))" "typed (T_Upto 1) (fst (apply_setnx cmd s))"
  "typed T_Maybe (fst (apply_getset cmd s))" "typed T_Count (fst (apply_append cmd s))"
  "typed T_I64 (fst (apply_incr cmd s))"
  by (auto simp: apply_set_def apply_setnx_def apply_getset_def apply_append_def apply_incr_def
      entry_or_insert_def Let_def checked_add_range
      split: option.splits redis_value.splits sum.splits)

lemma typed_keys [reply_typing]:
  "typed (T_Upto (length (cmd_argv cmd) - 1)) (fst (apply_del cmd s))"
  "typed (T_Upto 1) (fst (apply_expire cmd s))" "typed (T_Upto 1) (fst (apply_persist cmd s))"
  "typed T_Ok (fst (apply_rename cmd s))" "typed T_Ok (fst (apply_flush s))"
  using del_keys_upto [of 0 "drop 1 (cmd_argv cmd)" s]
  by (auto simp: apply_del_def apply_expire_def apply_persist_def apply_rename_def apply_flush_def
      Let_def split: option.splits prod.splits)

lemma typed_hset:
  "typed (if cmd_name cmd = ''HMSET'' then T_Ok else T_Upto ((length (cmd_argv cmd) - 2) div 2))
     (fst (apply_hset cmd s))"
proof -
  have "has_type (T_Upto ((length (cmd_argv cmd) - 2) div 2))
          (Integer (fst (hset_pairs (drop 2 (cmd_argv cmd)) 0 h)))" for h
    using hset_pairs_upto [of 0 "drop 2 (cmd_argv cmd)" h] by simp
  then show ?thesis
    by (auto simp: apply_hset_def split: option.splits redis_value.splits prod.splits)
      (metis fst_conv)+
qed

lemma typed_hset_names [reply_typing]:
  "cmd_name cmd = ''HSET'' \<Longrightarrow>
     typed (T_Upto ((length (cmd_argv cmd) - 2) div 2)) (fst (apply_hset cmd s))"
  "cmd_name cmd = ''HMSET'' \<Longrightarrow> typed T_Ok (fst (apply_hset cmd s))"
  using typed_hset [of cmd s] by simp_all

lemma typed_collections [reply_typing]:
  "typed (T_Upto 1) (fst (apply_hsetnx cmd s))"
  "typed (T_Upto (length (cmd_argv cmd) - 2)) (fst (apply_hdel cmd s))"
  "typed T_I64 (fst (apply_hincrby cmd s))"
  "typed (T_Upto (length (cmd_argv cmd) - 2)) (fst (apply_sadd cmd s))"
  "typed (T_Upto (length (cmd_argv cmd) - 2)) (fst (apply_srem cmd s))"
  using hdel_fields_upto [of 0 "drop 2 (cmd_argv cmd)"] sadd_members_upto [of 0 "drop 2 (cmd_argv cmd)"]
    srem_members_upto [of 0 "drop 2 (cmd_argv cmd)"]
  by (auto simp: apply_hsetnx_def apply_hdel_def apply_hincrby_def apply_sadd_def apply_srem_def
      checked_add_range split: option.splits redis_value.splits sum.splits prod.splits)
    (metis fst_conv)+


subsection \<open>Logical TTLs stay 64-bit integers\<close>

named_theorems ttl_typing \<open>the arms of apply keep the TTLs typed\<close>

lemma ttl_typed_same: "ttl t = ttl s \<Longrightarrow> ttl_typed t = ttl_typed s"
  by (simp add: ttl_typed_def)

lemma ttl_typed_remove [simp]: "ttl_typed s \<Longrightarrow> ttl_typed (s\<lparr>data := d, ttl := bt_remove k (ttl s)\<rparr>)"
  by (simp add: ttl_typed_def)

lemma del_keys_ttl_typed: "ttl_typed s \<Longrightarrow> ttl_typed (snd (del_keys ks n s))"
  by (induction ks n s rule: del_keys.induct) simp_all

lemma ttl_typed_untouched [ttl_typing]:
  assumes "ttl_typed s"
  shows "ttl_typed (snd (apply_setnx cmd s))" "ttl_typed (snd (apply_append cmd s))"
    "ttl_typed (snd (apply_incr cmd s))" "ttl_typed (snd (apply_hset cmd s))"
    "ttl_typed (snd (apply_hsetnx cmd s))" "ttl_typed (snd (apply_hdel cmd s))"
    "ttl_typed (snd (apply_hincrby cmd s))" "ttl_typed (snd (apply_sadd cmd s))"
    "ttl_typed (snd (apply_srem cmd s))"
  using assms
  by (auto simp: arm_defs entry_or_insert_def Let_def ttl_typed_def
      split: option.splits redis_value.splits sum.splits prod.splits)

lemma ttl_typed_keys [ttl_typing]:
  assumes "ttl_typed s"
  shows "ttl_typed (snd (apply_set cmd s))" "ttl_typed (snd (apply_getset cmd s))"
    "ttl_typed (snd (apply_del cmd s))" "ttl_typed (snd (apply_expire cmd s))"
    "ttl_typed (snd (apply_persist cmd s))" "ttl_typed (snd (apply_rename cmd s))"
    "ttl_typed (snd (apply_flush s))"
  using assms del_keys_ttl_typed [OF assms, of "drop 1 (cmd_argv cmd)" 0]
  by (auto simp: arm_defs apply_getset_def Let_def ttl_typed_def i64_ok_def i64_min_def i64_max_def
      dest: as_int_range
      split: option.splits redis_value.splits prod.splits if_splits bind_splits)

subsection \<open>Reads\<close>

lemma typed_reads_strings [reply_typing]:
  "typed (if length (cmd_argv cmd) < 2 then T_Status else T_Bulk) (query_ping cmd)"
  "typed T_Bulk (query_echo cmd)" "typed T_Maybe (query_get cmd s)"
  "typed T_Count (query_strlen cmd s)" "typed T_Status (query_type cmd s)"
  "typed (T_Tuple (length (cmd_argv cmd) - 1) T_Maybe) (query_mget cmd s)"
  "typed (T_Upto (length (cmd_argv cmd) - 1)) (query_exists cmd s)"
  "ttl_typed s \<Longrightarrow> typed T_I64 (query_ttl cmd s)"
  using count_upto [of 0 "bt_contains (data s)" "drop 1 (cmd_argv cmd)"]
  by (auto simp: query_ping_def query_echo_def query_get_def query_strlen_def query_type_def
      query_mget_def query_exists_def query_ttl_def arg_def Let_def list_all_iff ttl_typed_def
      i64_ok_def i64_min_def i64_max_def split: option.splits redis_value.splits)

lemma typed_reads_hashes [reply_typing]:
  "typed T_Maybe (query_hget cmd s)"
  "typed T_Pairs (query_hgetall cmd s)" "typed (T_List T_Bulk) (query_hkeys cmd s)"
  "typed (T_List T_Bulk) (query_hvals cmd s)" "typed T_Count (query_hlen cmd s)"
  "typed (T_Upto 1) (query_hexists cmd s)" "typed (T_Cursor T_Pairs) (query_hscan cmd s)"
  by (auto simp: query_hget_def query_hgetall_def query_hkeys_def query_hvals_def
      query_hash_list_def query_hlen_def query_hexists_def query_hscan_def cursor_reply_def
      split: option.splits redis_value.splits)

lemma typed_hmget [reply_typing]:
  "typed (T_Tuple (length (cmd_argv cmd) - 2) T_Maybe) (query_hmget cmd s)"
  by (auto simp: query_hmget_def Let_def list_all_iff split: option.splits redis_value.splits)

lemma typed_reads_sets [reply_typing]:
  "typed (T_List T_Bulk) (query_smembers cmd s)" "typed T_Count (query_scard cmd s)"
  "typed (T_Upto 1) (query_sismember cmd s)" "typed T_Maybe (query_srandmember cmd s)"
  "typed (T_Cursor (T_List T_Bulk)) (query_sscan cmd s)"
  by (auto simp: query_smembers_def query_scard_def query_sismember_def query_srandmember_def
      query_sscan_def cursor_reply_def split: option.splits redis_value.splits list.splits)

lemma typed_reads_keyspace [reply_typing]:
  "typed (T_List T_Bulk) (query_keys s)" "typed T_Maybe (query_randomkey s)"
  "typed (T_Tuple 2 T_Bulk) (query_time now)" "typed (T_Cursor (T_List T_Bulk)) (query_scan s)"
  "typed T_Count (Integer (int (length (data s))))"
  by (auto simp: query_keys_def query_randomkey_def query_time_def query_scan_def cursor_reply_def
      split: list.splits)

text \<open>
  C24: the store is well typed as a server: starting from 64-bit TTLs, every write answers an
  error or a reply of the type its command fixes and keeps the TTLs typed, and so does every
  read; counts never exceed the operands given, \<open>HGETALL\<close> answers pairs, \<open>MGET\<close> and \<open>HMGET\<close>
  one item an operand, and a command of no implemented name always answers an error.
\<close>

theorem replies_typed:
  assumes "ttl_typed s"
  shows "typed (write_type cmd) (fst (mem_apply cmd s)) \<and> ttl_typed (snd (mem_apply cmd s))
    \<and> typed (read_type cmd) (mem_query now cmd s)"
proof (intro conjI)
  show "typed (write_type cmd) (fst (mem_apply cmd s))"
    by (auto simp: write_type_def mem_apply_def Let_def reply_typing simp del: One_nat_def)
  show "ttl_typed (snd (mem_apply cmd s))"
    by (auto simp: mem_apply_def ttl_typing assms)
  show "typed (read_type cmd) (mem_query now cmd s)"
    by (auto simp: read_type_def mem_query_def Let_def reply_typing assms simp del: One_nat_def)
qed

theorem replies_typed_witness:
  "\<exists>s. ttl_typed s
     \<and> mem_query (0, 0) \<lparr>cmd_name = ''TTL'', cmd_argv = [''TTL'', ''k'']\<rparr> s = Integer 60
     \<and> typed T_I64
         (mem_query (0, 0) \<lparr>cmd_name = ''TTL'', cmd_argv = [''TTL'', ''k'']\<rparr> s)"
proof -
  let ?cmd = "\<lparr>cmd_name = ''TTL'', cmd_argv = [''TTL'', ''k'']\<rparr>"
  let ?s = "\<lparr>data = [(''k'', Str ''v'')], ttl = [(''k'', 60)]\<rparr>"
  have ok: "ttl_typed ?s"
    by (auto simp: ttl_typed_def bt_get_def i64_ok_def i64_min_def i64_max_def)
  have type: "read_type ?cmd = T_I64"
    by (simp add: read_type_def)
  have "mem_query (0, 0) ?cmd ?s = Integer 60"
    by (simp add: mem_query_def query_ttl_def key_or_empty_def key_def arg_def bt_get_def
        bt_contains_def Let_def)
  moreover have "typed (read_type ?cmd) (mem_query (0, 0) ?cmd ?s)"
    using replies_typed [OF ok] by blast
  ultimately show ?thesis
    using ok type by metis
qed

end
