(* ===== verification/Ref_Codec.thy ===== *)
theory Ref_Codec
  imports Delivered_Log Dedup
begin

section \<open>A concrete codec for the values that cross the wire\<close>

text \<open>
  The program encodes its envelopes with the \<open>bincode\<close> package, which is not part of the
  repository: the components take the two functions as arguments and the interface
  \<open>wire_codec\<close> is the law they rely on. This theory shows that the law can be met, with a
  prefix codec in decimal net-string form for each type that crosses the wire, so that the
  theorems about the components can be applied and evaluated. It is not \<open>bincode\<close>'s format.
\<close>

named_theorems codec_rules \<open>codecs built from codecs\<close>

record 'a codec =
  cput :: "'a \<Rightarrow> bytes"
  cget :: "bytes \<Rightarrow> ('a \<times> bytes) option"

definition decode_whole :: "'a codec \<Rightarrow> bytes \<Rightarrow> 'a option" where
  "decode_whole c bs = map_option fst (cget c bs)"

locale prefix_codec =
  fixes c :: "'a codec"
  assumes get_put: "cget c (cput c x @ rest) = Some (x, rest)"

sublocale prefix_codec \<subseteq> wire_codec "cput c" "decode_whole c"
  by unfold_locales (metis append_Nil2 decode_whole_def fst_conv get_put option.map(2))

subsection \<open>Combinators\<close>

definition c_nat :: "nat codec" where
  "c_nat =
     \<lparr>cput = (\<lambda>n. show_nat n @ '':''),
      cget = (\<lambda>bs. case digits_value (takeWhile is_digit bs) of
        None \<Rightarrow> None | Some n \<Rightarrow> Some (n, drop 1 (dropWhile is_digit bs)))\<rparr>"

definition c_map :: "('b \<Rightarrow> 'a) \<Rightarrow> ('a \<Rightarrow> 'b) \<Rightarrow> 'a codec \<Rightarrow> 'b codec" where
  "c_map f g c =
     \<lparr>cput = (\<lambda>x. cput c (f x)), cget = (\<lambda>bs. map_option (map_prod g id) (cget c bs))\<rparr>"

definition c_pair :: "'a codec \<Rightarrow> 'b codec \<Rightarrow> ('a \<times> 'b) codec" where
  "c_pair c d =
     \<lparr>cput = (\<lambda>(x, y). cput c x @ cput d y),
      cget = (\<lambda>bs. case cget c bs of None \<Rightarrow> None | Some (x, r) \<Rightarrow>
        (case cget d r of None \<Rightarrow> None | Some (y, r') \<Rightarrow> Some ((x, y), r')))\<rparr>"

fun get_many :: "(bytes \<Rightarrow> ('a \<times> bytes) option) \<Rightarrow> nat \<Rightarrow> bytes \<Rightarrow> ('a list \<times> bytes) option" where
  "get_many g 0 bs = Some ([], bs)"
| "get_many g (Suc n) bs =
     (case g bs of None \<Rightarrow> None | Some (x, r) \<Rightarrow>
        (case get_many g n r of None \<Rightarrow> None | Some (xs, r') \<Rightarrow> Some (x # xs, r')))"

definition c_list :: "'a codec \<Rightarrow> 'a list codec" where
  "c_list c =
     \<lparr>cput = (\<lambda>xs. cput c_nat (length xs) @ concat (map (cput c) xs)),
      cget = (\<lambda>bs. case cget c_nat bs of None \<Rightarrow> None | Some (n, r) \<Rightarrow> get_many (cget c) n r)\<rparr>"

definition c_byte :: "byte codec" where
  "c_byte =
     \<lparr>cput = (\<lambda>b. [b]), cget = (\<lambda>bs. case bs of [] \<Rightarrow> None | b # r \<Rightarrow> Some (b, r))\<rparr>"

definition c_bytes :: "bytes codec" where
  "c_bytes = c_list c_byte"

definition c_option :: "'a codec \<Rightarrow> 'a option codec" where
  "c_option c =
     c_map (\<lambda>x. case x of None \<Rightarrow> [] | Some a \<Rightarrow> [a])
       (\<lambda>xs. case xs of [] \<Rightarrow> None | a # _ \<Rightarrow> Some a) (c_list c)"

definition c_int :: "int codec" where
  "c_int =
     c_map (\<lambda>i. (nat (- i), nat i)) (\<lambda>(m, n). int n - int m) (c_pair c_nat c_nat)"

definition c_word :: "'a::len word codec" where
  "c_word = c_map unat of_nat c_nat"

lemma c_nat_codec [codec_rules]: "prefix_codec c_nat"
proof
  fix n :: nat and rest
  have "list_all is_digit (show_nat n)"
    using digits_value_show_nat [of n] by (auto simp: digits_value_def split: if_splits)
  moreover have "\<not> is_digit CHR '':''" by (simp add: is_digit_def)
  ultimately have "takeWhile is_digit (show_nat n @ CHR '':'' # rest) = show_nat n"
    "dropWhile is_digit (show_nat n @ CHR '':'' # rest) = CHR '':'' # rest"
    by (auto simp: list_all_iff takeWhile_append dropWhile_append)
  then show "cget c_nat (cput c_nat n @ rest) = Some (n, rest)"
    by (simp add: c_nat_def std_simps)
qed

lemma c_map_codec: "prefix_codec c \<Longrightarrow> (\<And>x. g (f x) = x) \<Longrightarrow> prefix_codec (c_map f g c)"
  by (simp add: prefix_codec_def c_map_def)

lemma c_pair_codec [codec_rules]:
  "prefix_codec c \<Longrightarrow> prefix_codec d \<Longrightarrow> prefix_codec (c_pair c d)"
  by (auto simp: prefix_codec_def c_pair_def)

lemma get_many_put:
  assumes "\<And>x rest. x \<in> set xs \<Longrightarrow> g (p x @ rest) = Some (x, rest)"
  shows "get_many g (length xs) (concat (map p xs) @ rest) = Some (xs, rest)"
  using assms by (induction xs arbitrary: rest) simp_all

lemma c_list_codec [codec_rules]: "prefix_codec c \<Longrightarrow> prefix_codec (c_list c)"
  using c_nat_codec by (simp add: prefix_codec_def c_list_def get_many_put)

lemma c_bytes_codec [codec_rules]: "prefix_codec c_bytes"
  unfolding c_bytes_def by (rule c_list_codec) (simp add: prefix_codec_def c_byte_def)

lemma c_option_codec [codec_rules]: "prefix_codec c \<Longrightarrow> prefix_codec (c_option c)"
  unfolding c_option_def by (intro c_map_codec c_list_codec) (simp_all split: option.splits)

lemma c_int_codec [codec_rules]: "prefix_codec c_int"
  unfolding c_int_def by (intro c_map_codec codec_rules) auto

lemma c_word_codec [codec_rules]: "prefix_codec c_word"
  unfolding c_word_def by (intro c_map_codec codec_rules) simp

subsection \<open>Replies and envelopes\<close>

fun put_reply :: "reply \<Rightarrow> bytes" where
  "put_reply (Simple b) = ''0:'' @ cput c_bytes b"
| "put_reply (Error b) = ''1:'' @ cput c_bytes b"
| "put_reply (Integer i) = ''2:'' @ cput c_int i"
| "put_reply (Bulk b) = ''3:'' @ cput c_bytes b"
| "put_reply NilReply = ''4:''"
| "put_reply NilArray = ''5:''"
| "put_reply (Array rs) = ''6:'' @ cput c_nat (length rs) @ concat (map put_reply rs)"

primrec get_reply :: "nat \<Rightarrow> bytes \<Rightarrow> (reply \<times> bytes) option" where
  "get_reply 0 bs = None"
| "get_reply (Suc n) bs =
     (case take 2 bs of
        ''0:'' \<Rightarrow> map_option (map_prod Simple id) (cget c_bytes (drop 2 bs))
      | ''1:'' \<Rightarrow> map_option (map_prod Error id) (cget c_bytes (drop 2 bs))
      | ''2:'' \<Rightarrow> map_option (map_prod Integer id) (cget c_int (drop 2 bs))
      | ''3:'' \<Rightarrow> map_option (map_prod Bulk id) (cget c_bytes (drop 2 bs))
      | ''4:'' \<Rightarrow> Some (NilReply, drop 2 bs)
      | ''5:'' \<Rightarrow> Some (NilArray, drop 2 bs)
      | ''6:'' \<Rightarrow>
          (case cget c_nat (drop 2 bs) of
             None \<Rightarrow> None
           | Some (k, r) \<Rightarrow> map_option (map_prod Array id) (get_many (get_reply n) k r))
      | _ \<Rightarrow> None)"

text \<open>The depth of the reply goes first, as the fuel of the reader.\<close>

definition c_reply :: "reply codec" where
  "c_reply =
     \<lparr>cput = (\<lambda>r. cput c_nat (size r) @ put_reply r),
      cget = (\<lambda>bs. case cget c_nat bs of None \<Rightarrow> None | Some (n, r) \<Rightarrow> get_reply (Suc n) r)\<rparr>"

lemma get_reply_put: "size r \<le> n \<Longrightarrow> get_reply (Suc n) (put_reply r @ rest) = Some (r, rest)"
proof (induction r arbitrary: n rest)
  case (Array rs)
  then obtain m where m: "n = Suc m" by (cases n) auto
  have "get_reply (Suc m) (put_reply x @ rest') = Some (x, rest')" if "x \<in> set rs" for x rest'
    using Array.IH [OF that] Array.prems m size_list_estimation' [OF that order_refl, of size]
    by simp
  then have "get_many (get_reply (Suc m)) (length rs) (concat (map put_reply rs) @ rest) = Some (rs, rest)"
    by (rule get_many_put)
  then show ?case
    using prefix_codec.get_put [OF c_nat_codec] by (simp add: m)
qed (simp_all add: prefix_codec.get_put [OF c_bytes_codec] prefix_codec.get_put [OF c_int_codec])

lemma c_reply_codec [codec_rules]: "prefix_codec c_reply"
  by (simp add: prefix_codec_def c_reply_def get_reply_put prefix_codec.get_put [OF c_nat_codec]
      del: get_reply.simps)

definition c_write_op :: "write_op codec" where
  "c_write_op =
     c_map (\<lambda>op. (origin op, request_id op, op_argv op, client_reply op))
       (\<lambda>(org, rid, argv, r).
          \<lparr>origin = org, request_id = rid, op_argv = argv, client_reply = r\<rparr>)
       (c_pair c_word (c_pair c_word (c_pair (c_list c_bytes) (c_option c_reply))))"

definition c_entry :: "delivered_entry codec" where
  "c_entry =
     c_map (\<lambda>e. (de_index e, de_op e)) (\<lambda>(i, op). \<lparr>de_index = i, de_op = op\<rparr>)
       (c_pair c_word c_write_op)"

definition c_origin_dedup :: "origin_dedup codec" where
  "c_origin_dedup =
     c_map (\<lambda>od. (watermark od, recent od)) (\<lambda>(w, s). \<lparr>watermark = w, recent = s\<rparr>)
       (c_pair c_word (c_list c_word))"

definition c_dedup :: "write_dedup codec" where
  "c_dedup =
     c_map origins (\<lambda>m. \<lparr>origins = m\<rparr>) (c_list (c_pair c_word c_origin_dedup))"

lemma c_write_op_codec [codec_rules]: "prefix_codec c_write_op"
  unfolding c_write_op_def by (intro c_map_codec codec_rules) simp

lemma c_entry_codec [codec_rules]: "prefix_codec c_entry"
  unfolding c_entry_def by (intro c_map_codec codec_rules) simp

lemma c_origin_dedup_codec [codec_rules]: "prefix_codec c_origin_dedup"
  unfolding c_origin_dedup_def by (intro c_map_codec codec_rules) simp

lemma c_dedup_codec [codec_rules]: "prefix_codec c_dedup"
  unfolding c_dedup_def by (intro c_map_codec codec_rules) simp

interpretation op_codec: prefix_codec c_write_op
  by (rule c_write_op_codec)

interpretation entry_codec: prefix_codec c_entry
  by (rule c_entry_codec)

interpretation dedup_codec: prefix_codec c_dedup
  by (rule c_dedup_codec)

lemma op_codec_wire: "wire_codec (cput c_write_op) (decode_whole c_write_op)"
  by (rule op_codec.wire_codec_axioms)

lemma entry_codec_wire: "wire_codec (cput c_entry) (decode_whole c_entry)"
  by (rule entry_codec.wire_codec_axioms)

end
