(* ===== verification/Core_Interface.thy ===== *)
theory Core_Interface
  imports Ref_Codec Effect
begin

section \<open>The ordering core and the wire: what the replication layer is given\<close>

text \<open>
  The total-order core \<open>trains_core::TrainsNode\<close> and the codec \<open>bincode\<close> are packages the
  program uses and does not contain. Their operations are the fields of the records below and
  an argument of everything that calls them: \<open>'c\<close> is the state of the core, \<open>'t\<close> its trains and
  \<open>'p\<close> the protocol state it exports. The constructors of its inputs and outputs are those the
  program builds and matches on; of a delivered payload the program reads only the data.
\<close>

datatype 't core_input =
    TrainReceived 't
  | LocalBroadcast bytes
  | CoreTick

record payload =
  pl_data :: bytes

datatype 't core_output =
    ForwardTrain 't
  | Deliver "payload list"
  | DeclareCrash proc_id

record ('c, 't, 'p) core_ops =
  core_step :: "'t core_input \<Rightarrow> 'c \<Rightarrow> 't core_output list \<times> 'c"
  core_export :: "'c \<Rightarrow> 'p"
  core_import :: "'p \<Rightarrow> 'c \<Rightarrow> 'c"
  core_issue_initial :: "'c \<Rightarrow> 't \<times> 'c"

subsection \<open>Snapshots of a replica\<close>

definition SNAPSHOT_VERSION :: u32 where
  "SNAPSHOT_VERSION = 4"

record view_info =
  vi_installed_view :: u64
  vi_dead :: "proc_id list"

record 'p replica_snapshot =
  sn_version :: u32
  sn_protocol :: 'p
  sn_store :: bytes
  sn_dedup :: write_dedup
  sn_delivered_index :: u64
  sn_view :: "view_info option"

text \<open>
  The codec's functions. Encoding a \<open>WriteOp\<close> may fail, with the text of the error; the other
  two encodings are expected to succeed by the program.
\<close>

record 'p wire =
  enc_op :: "write_op \<Rightarrow> bytes + bytes"
  dec_op :: "bytes \<Rightarrow> write_op option"
  enc_entry :: "delivered_entry \<Rightarrow> bytes"
  dec_entry :: "bytes \<Rightarrow> delivered_entry option"
  enc_snap :: "'p replica_snapshot \<Rightarrow> bytes"
  dec_snap :: "bytes \<Rightarrow> 'p replica_snapshot option"

text \<open>
  The documented behaviour of the codec: what it encodes it decodes to the same value, and
  the encoding of a snapshot (a structure that starts with a version) is not empty.
\<close>

locale wire_laws =
  fixes W :: "'p wire"
  assumes dec_enc_op: "enc_op W op = Inr bs \<Longrightarrow> dec_op W bs = Some op"
    and dec_enc_entry: "dec_entry W (enc_entry W e) = Some e"
    and dec_enc_snap: "dec_snap W (enc_snap W s) = Some s"
    and enc_snap_nonempty: "enc_snap W s \<noteq> []"
begin

lemma enc_op_inj: "enc_op W x = Inr bs \<Longrightarrow> enc_op W y = Inr bs \<Longrightarrow> x = y"
  by (metis dec_enc_op option.inject)

lemma dec_encode_tail: "map (dec_entry W) (encode_tail (enc_entry W) es) = map Some es"
  by (simp add: encode_tail_def dec_enc_entry)

end

text \<open>The trait \<open>RedisStore\<close>, as far as the replication layer relies on it.\<close>

locale snapshot_store =
  fixes S :: "'st store_ops"
    and ok :: "'st \<Rightarrow> bool"
  assumes import_export: "ok s \<Longrightarrow> st_import S (st_export S s) t = Inr s"
    and apply_ok: "ok s \<Longrightarrow> ok (snd (st_apply S cmd s))"

subsection \<open>The interfaces hold of the reference codec and of \<open>MemStore\<close>\<close>

definition c_value :: "redis_value codec" where
  "c_value =
     c_map (\<lambda>v. case v of Str b \<Rightarrow> (0, [b], [], []) | Hash h \<Rightarrow> (1, [], h, []) | Set s \<Rightarrow> (2, [], [], s))
       (\<lambda>(tag, b, h, s). if tag = 0 then Str (hd b) else if tag = 1 then Hash h else Set s)
       (c_pair c_nat (c_pair (c_list c_bytes)
          (c_pair (c_list (c_pair c_bytes c_bytes)) (c_list c_bytes))))"

definition c_mem_store :: "mem_store codec" where
  "c_mem_store =
     c_map (\<lambda>s. (data s, ttl s)) (\<lambda>(d, t). \<lparr>data = d, ttl = t\<rparr>)
       (c_pair (c_list (c_pair c_bytes c_value)) (c_list (c_pair c_bytes c_int)))"

definition c_view :: "view_info codec" where
  "c_view =
     c_map (\<lambda>v. (vi_installed_view v, vi_dead v)) (\<lambda>(i, d). \<lparr>vi_installed_view = i, vi_dead = d\<rparr>)
       (c_pair c_word (c_list c_word))"

definition c_snapshot :: "'p codec \<Rightarrow> 'p replica_snapshot codec" where
  "c_snapshot c =
     c_map (\<lambda>s. (sn_version s, sn_protocol s, sn_store s, sn_dedup s, sn_delivered_index s, sn_view s))
       (\<lambda>(v, p, st, d, i, vw). \<lparr>sn_version = v, sn_protocol = p, sn_store = st, sn_dedup = d,
          sn_delivered_index = i, sn_view = vw\<rparr>)
       (c_pair c_word (c_pair c (c_pair c_bytes (c_pair c_dedup (c_pair c_word (c_option c_view))))))"

lemma c_value_codec [codec_rules]: "prefix_codec c_value"
  unfolding c_value_def by (intro c_map_codec codec_rules) (simp split: redis_value.splits)

lemma c_mem_store_codec [codec_rules]: "prefix_codec c_mem_store"
  unfolding c_mem_store_def by (intro c_map_codec codec_rules) simp

lemma c_view_codec [codec_rules]: "prefix_codec c_view"
  unfolding c_view_def by (intro c_map_codec codec_rules) simp

lemma c_snapshot_codec [codec_rules]: "prefix_codec c \<Longrightarrow> prefix_codec (c_snapshot c)"
  unfolding c_snapshot_def by (intro c_map_codec codec_rules) simp_all

definition ref_wire :: "'p codec \<Rightarrow> 'p wire" where
  "ref_wire c =
     \<lparr>enc_op = (\<lambda>op. Inr (cput c_write_op op)), dec_op = decode_whole c_write_op,
      enc_entry = cput c_entry, dec_entry = decode_whole c_entry,
      enc_snap = cput (c_snapshot c), dec_snap = decode_whole (c_snapshot c)\<rparr>"

lemma snapshot_bytes_nonempty: "cput (c_snapshot c) s \<noteq> []"
  by (simp add: c_snapshot_def c_map_def c_pair_def c_word_def c_nat_def)

lemma decode_whole_put: "prefix_codec c \<Longrightarrow> decode_whole c (cput c x) = Some x"
  using prefix_codec.get_put [of c x "[]"] by (simp add: decode_whole_def)

lemma ref_wire_laws: "prefix_codec c \<Longrightarrow> wire_laws (ref_wire c)"
  by unfold_locales
    (auto simp: ref_wire_def op_codec.dec_enc entry_codec.dec_enc snapshot_bytes_nonempty
      intro: decode_whole_put c_snapshot_codec)

definition ref_mem_ops :: "clock \<Rightarrow> mem_store store_ops" where
  "ref_mem_ops = mem_ops (cput c_mem_store) (decode_whole c_mem_store)"

interpretation mem_codec: prefix_codec c_mem_store
  by (rule c_mem_store_codec)

interpretation ref_wire_nat: wire_laws "ref_wire c_nat"
  by (rule ref_wire_laws) (rule c_nat_codec)

interpretation mem_trait: snapshot_store "ref_mem_ops now" store_ok for now
proof
  show "store_ok s \<Longrightarrow> st_import (ref_mem_ops now) (st_export (ref_mem_ops now) s) t = Inr s" for s t
    by (simp add: ref_mem_ops_def mem_ops_def import_snapshot_def export_snapshot_def
        mem_codec.dec_enc)
  show "store_ok s \<Longrightarrow> store_ok (snd (st_apply (ref_mem_ops now) cmd s))" for s cmd
    using refines_mem_apply [of cmd] by (simp add: ref_mem_ops_def mem_ops_def refines_def)
qed

end
