(* ===== verification/Replica.thy ===== *)
theory Replica
  imports Core_Interface
begin

section \<open>The replica: state-machine replication over the ordering core\<close>

text \<open>
  \<open>src/crates/trains-valkey/src/replica.rs\<close>: a replica composes the ordering core with a local
  store. Reads are answered locally, writes are wrapped and broadcast, and what the core
  delivers is deduplicated, applied and logged. Every method of the source that changes the
  replica is a function that returns the new replica. A failing method returns its error
  and the state it leaves, which need not be the one it started from.
\<close>

named_theorems replica_simps \<open>how the operations act on the parts of a replica\<close>

subsection \<open>State and results\<close>

datatype 't client_outcome =
    CImmediate reply
  | CBroadcast u64 "'t list"

record applied =
  ap_origin :: proc_id
  ap_request_id :: u64
  ap_reply :: reply

record 't stepped =
  st_forward :: "'t list"
  st_applied :: "applied list"

record ('c, 'st) replica =
  rep_id :: proc_id
  rep_core :: 'c
  rep_store :: 'st
  rep_next_rid :: u64
  rep_dedup :: write_dedup
  rep_log :: delivered_log

definition replica_new :: "proc_id \<Rightarrow> 'c \<Rightarrow> 'st \<Rightarrow> ('c, 'st) replica" where
  "replica_new i core store =
     \<lparr>rep_id = i, rep_core = core, rep_store = store, rep_next_rid = 0,
      rep_dedup = dedup_new, rep_log = log_default\<rparr>"

definition delivered_index :: "('c, 'st) replica \<Rightarrow> u64" where
  "delivered_index r = head_index (rep_log r)"

subsection \<open>Applying one delivered effect\<close>

definition empty_argv_reply :: reply where
  "empty_argv_reply = reply_error ''ERR delivered write op had empty argv''"

definition apply_delivered_op_parts ::
  "'st store_ops \<Rightarrow> write_op \<Rightarrow> 'st \<Rightarrow> write_dedup \<Rightarrow> delivered_log
     \<Rightarrow> reply option \<times> 'st \<times> write_dedup \<times> delivered_log" where
  "apply_delivered_op_parts S op store dedup log =
     (case first_seen (origin op) (request_id op) dedup of
        (False, dedup') \<Rightarrow> (None, store, dedup', log)
      | (True, dedup') \<Rightarrow>
          (case (case op_command op of
                   Some cmd \<Rightarrow> st_apply S cmd store
                 | None \<Rightarrow> (empty_argv_reply, store)) of
             (apply_reply, store') \<Rightarrow>
               (let reply = (case client_reply op of Some r \<Rightarrow> r | None \<Rightarrow> apply_reply) in
                (Some reply, store', dedup', snd (append_op op log)))))"

definition apply_delivered_op ::
  "'st store_ops \<Rightarrow> write_op \<Rightarrow> ('c, 'st) replica \<Rightarrow> applied option \<times> ('c, 'st) replica" where
  "apply_delivered_op S op r =
     (case apply_delivered_op_parts S op (rep_store r) (rep_dedup r) (rep_log r) of
        (res, store, dedup, log) \<Rightarrow>
          (map_option (\<lambda>reply. \<lparr>ap_origin = origin op, ap_request_id = request_id op,
             ap_reply = reply\<rparr>) res,
           r\<lparr>rep_store := store, rep_dedup := dedup, rep_log := log\<rparr>))"

subsection \<open>Absorbing the outputs of the core\<close>

fun absorb_payloads ::
  "'p wire \<Rightarrow> 'st store_ops \<Rightarrow> payload list \<Rightarrow> ('c, 'st) replica
     \<Rightarrow> applied list \<times> ('c, 'st) replica" where
  "absorb_payloads W S [] r = ([], r)"
| "absorb_payloads W S (p # ps) r =
     (case dec_op W (pl_data p) of
        Some op \<Rightarrow>
          (case apply_delivered_op S op r of
             (res, r1) \<Rightarrow>
               (case absorb_payloads W S ps r1 of
                  (as, r2) \<Rightarrow> ((case res of Some a \<Rightarrow> a # as | None \<Rightarrow> as), r2)))
      | None \<Rightarrow> absorb_payloads W S ps r)"

fun absorb ::
  "'p wire \<Rightarrow> 'st store_ops \<Rightarrow> 't core_output list \<Rightarrow> ('c, 'st) replica
     \<Rightarrow> 't stepped \<times> ('c, 'st) replica" where
  "absorb W S [] r = (\<lparr>st_forward = [], st_applied = []\<rparr>, r)"
| "absorb W S (out # outs) r =
     (case out of
        ForwardTrain t \<Rightarrow>
          (case absorb W S outs r of (st, r1) \<Rightarrow> (st\<lparr>st_forward := t # st_forward st\<rparr>, r1))
      | Deliver ps \<Rightarrow>
          (case absorb_payloads W S ps r of
             (as, r1) \<Rightarrow>
               (case absorb W S outs r1 of
                  (st, r2) \<Rightarrow> (st\<lparr>st_applied := as @ st_applied st\<rparr>, r2)))
      | DeclareCrash victim \<Rightarrow> absorb W S outs r)"

subsection \<open>Client commands, trains and ticks\<close>

definition encode_failed :: "bytes \<Rightarrow> reply" where
  "encode_failed e = reply_error (''ERR failed to encode write for replication: '' @ e)"

definition broadcast_write ::
  "('c, 't, 'p) core_ops \<Rightarrow> 'p wire \<Rightarrow> 'st store_ops \<Rightarrow> bytes list \<Rightarrow> reply option
     \<Rightarrow> ('c, 'st) replica \<Rightarrow> 't client_outcome \<times> ('c, 'st) replica" where
  "broadcast_write C W S argv resolved r =
     (let request_id = rep_next_rid r;
          op0 = write_op_new (rep_id r) request_id argv;
          op = (case resolved of Some rp \<Rightarrow> with_client_reply op0 rp | None \<Rightarrow> op0) in
      case enc_op W op of
        Inl e \<Rightarrow> (CImmediate (encode_failed e), r)
      | Inr bs \<Rightarrow>
          (case core_step C (LocalBroadcast bs) (rep_core r) of
             (outs, core') \<Rightarrow>
               (case absorb W S outs (r\<lparr>rep_next_rid := request_id + 1, rep_core := core'\<rparr>) of
                  (st, r') \<Rightarrow> (CBroadcast request_id (st_forward st), r'))))"

definition unknown_command :: "bytes \<Rightarrow> reply" where
  "unknown_command n =
     reply_error (''ERR unknown command '' @ quoted n @ '' (not in the replication table)'')"

definition handle ::
  "'f float_ops \<Rightarrow> ('c, 't, 'p) core_ops \<Rightarrow> 'p wire \<Rightarrow> 'st store_ops \<Rightarrow> command
     \<Rightarrow> ('c, 'st) replica \<Rightarrow> 't client_outcome \<times> ('c, 'st) replica" where
  "handle F C W S cmd r =
     (case classify (cmd_name cmd) of
        Read \<Rightarrow> (CImmediate (st_query S cmd (rep_store r)), r)
      | Write \<Rightarrow> broadcast_write C W S (cmd_argv cmd) None r
      | NonDeterministic \<Rightarrow>
          (case resolve F cmd (\<lambda>c. st_query S c (rep_store r)) of
             RImmediate reply \<Rightarrow> (CImmediate reply, r)
           | RBroadcast argv resolved \<Rightarrow> broadcast_write C W S argv (Some resolved) r)
      | Unsupported \<Rightarrow> (CImmediate (unknown_command (cmd_name cmd)), r))"

definition on_train ::
  "('c, 't, 'p) core_ops \<Rightarrow> 'p wire \<Rightarrow> 'st store_ops \<Rightarrow> 't \<Rightarrow> ('c, 'st) replica
     \<Rightarrow> 't stepped \<times> ('c, 'st) replica" where
  "on_train C W S t r =
     (case core_step C (TrainReceived t) (rep_core r) of
        (outs, core') \<Rightarrow> absorb W S outs (r\<lparr>rep_core := core'\<rparr>))"

definition tick ::
  "('c, 't, 'p) core_ops \<Rightarrow> 'p wire \<Rightarrow> 'st store_ops \<Rightarrow> ('c, 'st) replica
     \<Rightarrow> 't stepped \<times> ('c, 'st) replica" where
  "tick C W S r =
     (case core_step C CoreTick (rep_core r) of
        (outs, core') \<Rightarrow> absorb W S outs (r\<lparr>rep_core := core'\<rparr>))"

definition issue_initial ::
  "('c, 't, 'p) core_ops \<Rightarrow> ('c, 'st) replica \<Rightarrow> 't \<times> ('c, 'st) replica" where
  "issue_initial C r =
     (case core_issue_initial C (rep_core r) of (t, core') \<Rightarrow> (t, r\<lparr>rep_core := core'\<rparr>))"

subsection \<open>State transfer\<close>

definition replica_export ::
  "('c, 't, 'p) core_ops \<Rightarrow> 'st store_ops \<Rightarrow> ('c, 'st) replica \<Rightarrow> 'p replica_snapshot" where
  "replica_export C S r =
     \<lparr>sn_version = SNAPSHOT_VERSION, sn_protocol = core_export C (rep_core r),
      sn_store = st_export S (rep_store r), sn_dedup = rep_dedup r,
      sn_delivered_index = head_index (rep_log r), sn_view = None\<rparr>"

text \<open>The core takes the protocol state before the store is read, so an error leaves it changed.\<close>

definition replica_import ::
  "('c, 't, 'p) core_ops \<Rightarrow> 'st store_ops \<Rightarrow> 'p replica_snapshot \<Rightarrow> ('c, 'st) replica
     \<Rightarrow> (snapshot_error + unit) \<times> ('c, 'st) replica" where
  "replica_import C S snap r =
     (let r1 = r\<lparr>rep_core := core_import C (sn_protocol snap) (rep_core r)\<rparr> in
      case st_import S (sn_store snap) (rep_store r1) of
        Inl e \<Rightarrow> (Inl e, r1)
      | Inr store' \<Rightarrow>
          (Inr (), r1\<lparr>rep_store := store', rep_dedup := sn_dedup snap,
             rep_log := resumed_at (sn_delivered_index snap) (dl_cap (rep_log r1))\<rparr>))"

definition build_state_transfer_lazy ::
  "'p wire \<Rightarrow> u64 \<Rightarrow> delivered_log \<Rightarrow> (unit \<Rightarrow> 'p replica_snapshot) \<Rightarrow> bytes \<times> bytes list" where
  "build_state_transfer_lazy W have_idx log make_snapshot =
     (if 0 < have_idx \<and> low_water_index log \<le> have_idx \<and> have_idx \<le> head_index log then
        ([], encode_tail (enc_entry W) (entries_from have_idx log))
      else
        (let snap = make_snapshot () in
         (enc_snap W snap,
          encode_tail (enc_entry W) (entries_from (sn_delivered_index snap) log))))"

definition build_state_transfer ::
  "('c, 't, 'p) core_ops \<Rightarrow> 'p wire \<Rightarrow> 'st store_ops \<Rightarrow> u64 \<Rightarrow> ('c, 'st) replica
     \<Rightarrow> bytes \<times> bytes list" where
  "build_state_transfer C W S have_idx r =
     build_state_transfer_lazy W have_idx (rep_log r) (\<lambda>_. replica_export C S r)"

fun replay_tail ::
  "'p wire \<Rightarrow> 'st store_ops \<Rightarrow> bytes list \<Rightarrow> nat \<Rightarrow> ('c, 'st) replica
     \<Rightarrow> (snapshot_error + nat) \<times> ('c, 'st) replica" where
  "replay_tail W S [] n r = (Inr n, r)"
| "replay_tail W S (frame # frames) n r =
     (case dec_entry W frame of
        None \<Rightarrow> (Inl Decode, r)
      | Some e \<Rightarrow>
          (case apply_delivered_op S (de_op e) r of
             (res, r1) \<Rightarrow> replay_tail W S frames (if res \<noteq> None then n + 1 else n) r1))"

definition apply_state_transfer ::
  "('c, 't, 'p) core_ops \<Rightarrow> 'p wire \<Rightarrow> 'st store_ops \<Rightarrow> bytes \<Rightarrow> bytes list
     \<Rightarrow> ('c, 'st) replica \<Rightarrow> (snapshot_error + nat) \<times> ('c, 'st) replica" where
  "apply_state_transfer C W S snapshot tail r =
     (if snapshot = [] then replay_tail W S tail 0 r
      else
        (case dec_snap W snapshot of
           None \<Rightarrow> (Inl Decode, r)
         | Some snap \<Rightarrow>
             (case replica_import C S snap r of
                (Inl e, r1) \<Rightarrow> (Inl e, r1)
              | (Inr _, r1) \<Rightarrow> replay_tail W S tail 0 r1)))"

end
