(* ===== verification/Replica_Laws.thy ===== *)
theory Replica_Laws
  imports Replica
begin

section \<open>Replication: convergence, exactly-once application and state transfer\<close>

text \<open>
  The replicated part of a replica is its store, its dedup state and its effect log
  (\<open>app_of\<close>). Every operation of a replica changes that part only by running the
  operations the core delivered through \<open>app_step\<close>, whatever the batches they came in; the
  claims about convergence, exactly-once application and state transfer follow from that.
\<close>

subsection \<open>The replicated state\<close>

type_synonym 'st app = "'st \<times> write_dedup \<times> delivered_log"

definition app_of :: "('c, 'st) replica \<Rightarrow> 'st app" where
  "app_of r = (rep_store r, rep_dedup r, rep_log r)"

definition app_step :: "'st store_ops \<Rightarrow> write_op \<Rightarrow> 'st app \<Rightarrow> 'st app" where
  "app_step S op a =
     (case a of (st, d, l) \<Rightarrow> snd (apply_delivered_op_parts S op st d l))"

definition app_run :: "'st store_ops \<Rightarrow> write_op list \<Rightarrow> 'st app \<Rightarrow> 'st app" where
  "app_run S ops a = fold (app_step S) ops a"

definition decoded :: "'p wire \<Rightarrow> payload list \<Rightarrow> write_op list" where
  "decoded W ps = List.map_filter (\<lambda>p. dec_op W (pl_data p)) ps"

definition delivered :: "'t core_output list \<Rightarrow> payload list" where
  "delivered outs = concat (map (\<lambda>out. case out of Deliver ps \<Rightarrow> ps | _ \<Rightarrow> []) outs)"

lemma app_run_append [replica_simps]: "app_run S (xs @ ys) a = app_run S ys (app_run S xs a)"
  by (simp add: app_run_def)

lemma app_run_simps [simp]:
  "app_run S [] a = a" "app_run S (op # ops) a = app_run S ops (app_step S op a)"
  by (simp_all add: app_run_def)

lemma decoded_simps [simp]:
  "decoded W [] = []"
  "decoded W (p # ps) = (case dec_op W (pl_data p) of Some op \<Rightarrow> op # decoded W ps | None \<Rightarrow> decoded W ps)"
  "decoded W (ps @ qs) = decoded W ps @ decoded W qs"
  by (simp_all add: decoded_def List.map_filter_def split: option.splits)

lemma delivered_simps [simp]:
  "delivered [] = []"
  "delivered (out # outs) = (case out of Deliver ps \<Rightarrow> ps | _ \<Rightarrow> []) @ delivered outs"
  by (simp_all add: delivered_def)

lemma app_of_update [simp]:
  "app_of (r\<lparr>rep_core := c\<rparr>) = app_of r" "app_of (r\<lparr>rep_next_rid := n\<rparr>) = app_of r"
  by (simp_all add: app_of_def)

lemma app_of_apply [replica_simps]:
  "app_of (snd (apply_delivered_op S op r)) = app_step S op (app_of r)"
  by (auto simp: apply_delivered_op_def app_step_def app_of_def split: prod.splits)

lemma app_of_payloads [replica_simps]:
  "app_of (snd (absorb_payloads W S ps r)) = app_run S (decoded W ps) (app_of r)"
proof (induction ps arbitrary: r)
  case (Cons p ps)
  show ?case
  proof (cases "dec_op W (pl_data p)")
    case (Some op)
    have "app_of (snd (absorb_payloads W S (p # ps) r))
        = app_of (snd (absorb_payloads W S ps (snd (apply_delivered_op S op r))))"
      using Some by (simp split: prod.splits)
    then show ?thesis
      using Some by (simp add: Cons.IH app_of_apply)
  qed (simp add: Cons.IH)
qed simp

lemma app_of_absorb [replica_simps]:
  "app_of (snd (absorb W S outs r)) = app_run S (decoded W (delivered outs)) (app_of r)"
proof (induction outs arbitrary: r)
  case (Cons out outs)
  show ?case
  proof (cases out)
    case (Deliver ps)
    have "app_of (snd (absorb W S (out # outs) r))
        = app_of (snd (absorb W S outs (snd (absorb_payloads W S ps r))))"
      using Deliver by (simp split: prod.splits)
    then show ?thesis
      using Deliver by (simp add: Cons.IH app_of_payloads app_run_append)
  qed (use Cons.IH in \<open>simp_all split: prod.splits\<close>, metis snd_conv)
qed simp

subsection \<open>Histories of a replica\<close>

datatype 't replica_event = ClientCmd command | TrainIn 't | TickIn | IssueIn

definition write_outputs ::
  "('c, 't, 'p) core_ops \<Rightarrow> 'p wire \<Rightarrow> bytes list \<Rightarrow> reply option \<Rightarrow> ('c, 'st) replica
     \<Rightarrow> 't core_output list" where
  "write_outputs C W argv resolved r =
     (let op0 = write_op_new (rep_id r) (rep_next_rid r) argv;
          op = (case resolved of Some rp \<Rightarrow> with_client_reply op0 rp | None \<Rightarrow> op0) in
      case enc_op W op of
        Inl e \<Rightarrow> []
      | Inr bs \<Rightarrow> fst (core_step C (LocalBroadcast bs) (rep_core r)))"

text \<open>What the core emits while an event is handled, and the replica afterwards.\<close>

definition event_outputs ::
  "'f float_ops \<Rightarrow> ('c, 't, 'p) core_ops \<Rightarrow> 'p wire \<Rightarrow> 'st store_ops \<Rightarrow> 't replica_event
     \<Rightarrow> ('c, 'st) replica \<Rightarrow> 't core_output list" where
  "event_outputs F C W S ev r =
     (case ev of
        ClientCmd cmd \<Rightarrow>
          (case classify (cmd_name cmd) of
             Write \<Rightarrow> write_outputs C W (cmd_argv cmd) None r
           | NonDeterministic \<Rightarrow>
               (case resolve F cmd (\<lambda>c. st_query S c (rep_store r)) of
                  RBroadcast argv rp \<Rightarrow> write_outputs C W argv (Some rp) r
                | RImmediate _ \<Rightarrow> [])
           | _ \<Rightarrow> [])
      | TrainIn t \<Rightarrow> fst (core_step C (TrainReceived t) (rep_core r))
      | TickIn \<Rightarrow> fst (core_step C CoreTick (rep_core r))
      | IssueIn \<Rightarrow> [])"

definition event_next ::
  "'f float_ops \<Rightarrow> ('c, 't, 'p) core_ops \<Rightarrow> 'p wire \<Rightarrow> 'st store_ops \<Rightarrow> 't replica_event
     \<Rightarrow> ('c, 'st) replica \<Rightarrow> ('c, 'st) replica" where
  "event_next F C W S ev r =
     (case ev of
        ClientCmd cmd \<Rightarrow> snd (handle F C W S cmd r)
      | TrainIn t \<Rightarrow> snd (on_train C W S t r)
      | TickIn \<Rightarrow> snd (tick C W S r)
      | IssueIn \<Rightarrow> snd (issue_initial C r))"

text \<open>\<open>replica_trace r ps r'\<close>: some events take \<open>r\<close> to \<open>r'\<close>, and \<open>ps\<close> was delivered on the way.\<close>

inductive replica_trace ::
  "'f float_ops \<Rightarrow> ('c, 't, 'p) core_ops \<Rightarrow> 'p wire \<Rightarrow> 'st store_ops
     \<Rightarrow> ('c, 'st) replica \<Rightarrow> payload list \<Rightarrow> ('c, 'st) replica \<Rightarrow> bool"
  for F C W S where
  trace_refl: "replica_trace F C W S r [] r"
| trace_step: "replica_trace F C W S r ps r' \<Longrightarrow>
    replica_trace F C W S r (ps @ delivered (event_outputs F C W S ev r')) (event_next F C W S ev r')"

lemma app_of_write:
  "app_of (snd (broadcast_write C W S argv rp r)) =
     app_run S (decoded W (delivered (write_outputs C W argv rp r))) (app_of r)"
  by (auto simp: broadcast_write_def write_outputs_def Let_def app_of_absorb [symmetric]
      split: option.splits sum.splits prod.splits)
    (metis app_of_absorb app_of_update snd_conv)+

lemma app_of_event:
  "app_of (event_next F C W S ev r) =
     app_run S (decoded W (delivered (event_outputs F C W S ev r))) (app_of r)"
proof (cases ev)
  case (ClientCmd cmd)
  then show ?thesis
    by (auto simp: event_next_def event_outputs_def handle_def app_of_write
        split: cmd_class.splits resolution.splits)
next
  case (TrainIn t)
  then show ?thesis
    by (simp add: event_next_def event_outputs_def on_train_def app_of_absorb split: prod.splits)
next
  case TickIn
  then show ?thesis
    by (simp add: event_next_def event_outputs_def tick_def app_of_absorb split: prod.splits)
next
  case IssueIn
  then show ?thesis
    by (simp add: event_next_def event_outputs_def issue_initial_def split: prod.splits)
qed

lemma app_of_trace:
  "replica_trace F C W S r ps r' \<Longrightarrow> app_of r' = app_run S (decoded W ps) (app_of r)"
  by (induction rule: replica_trace.induct) (simp_all add: app_of_event app_run_append)

inductive_cases replica_traceE: "replica_trace F C W S r ps r'"

lemma replica_trace_single:
  "replica_trace F C W S r (delivered (event_outputs F C W S ev r)) (event_next F C W S ev r)"
  using trace_step [OF trace_refl, of F C W S r ev] by simp

subsection \<open>First occurrences\<close>

text \<open>The operations of a stream whose id has not been seen before.\<close>

fun fresh_ops :: "(proc_id \<times> u64) set \<Rightarrow> write_op list \<Rightarrow> write_op list" where
  "fresh_ops ids [] = []"
| "fresh_ops ids (op # ops) =
     (if op_id op \<in> ids then fresh_ops ids ops
      else op # fresh_ops (insert (op_id op) ids) ops)"

definition apply_op :: "'st store_ops \<Rightarrow> write_op \<Rightarrow> 'st \<Rightarrow> 'st" where
  "apply_op S op st =
     (case op_command op of Some cmd \<Rightarrow> snd (st_apply S cmd st) | None \<Rightarrow> st)"

definition log_all :: "write_op list \<Rightarrow> delivered_log \<Rightarrow> delivered_log" where
  "log_all ops l = fold (\<lambda>op l. snd (append_op op l)) ops l"

lemma fresh_ops_keep_new: "map op_id (fresh_ops ids ops) = wd.keep_new ids (map op_id ops)"
  by (induction ids ops rule: fresh_ops.induct) simp_all

lemma fresh_ops_distinct: "distinct (map op_id (fresh_ops ids ops))"
  "op_id ` set (fresh_ops ids ops) = op_id ` set ops - ids"
  using wd.keep_new_distinct [of ids "map op_id ops"]
  by (simp_all add: fresh_ops_keep_new [symmetric])

lemma fresh_ops_usable:
  "list_all usable_id (map op_id ops) \<Longrightarrow> list_all usable_id (map op_id (fresh_ops ids ops))"
  using fresh_ops_distinct(2) [of ids ops] by (auto simp: list_all_iff)

lemma fresh_ops_none: "op_id ` set ops \<subseteq> ids \<Longrightarrow> fresh_ops ids ops = []"
  by (induction ids ops rule: fresh_ops.induct) auto

lemma fresh_ops_all:
  "distinct (map op_id ops) \<Longrightarrow> op_id ` set ops \<inter> ids = {} \<Longrightarrow> fresh_ops ids ops = ops"
  by (induction ids ops rule: fresh_ops.induct) auto

lemma fresh_ops_append:
  "fresh_ops ids (xs @ ys) = fresh_ops ids xs @ fresh_ops (ids \<union> op_id ` set xs) ys"
  by (induction ids xs rule: fresh_ops.induct) (auto simp: insert_absorb)

lemma app_step_eq:
  "app_step S op (st, d, l) =
     (if fst (first_seen (origin op) (request_id op) d)
      then (apply_op S op st, snd (first_seen (origin op) (request_id op) d), snd (append_op op l))
      else (st, snd (first_seen (origin op) (request_id op) d), l))"
  by (auto simp: app_step_def apply_delivered_op_parts_def apply_op_def Let_def
      split: prod.splits bool.splits option.splits)

lemma app_run_fresh:
  assumes "dedup_ok d" "list_all usable_id (map op_id ops)"
  shows "app_run S ops (st, d, l) =
    (fold (apply_op S) (fresh_ops (seen d) ops) st, dedup_run (map op_id ops) d,
     log_all (fresh_ops (seen d) ops) l)"
  using assms
proof (induction ops arbitrary: st d l)
  case Nil
  then show ?case by (simp add: dedup_run_def log_all_def)
next
  case (Cons op ops)
  let ?d = "snd (first_seen (origin op) (request_id op) d)"
  have rid: "request_id op \<noteq> - 1"
    using Cons.prems by (simp add: usable_id_def op_id_def)
  note spec = first_seen_spec [OF Cons.prems(1) rid, of "origin op"]
  have "app_run S ops (st', ?d, l') = (fold (apply_op S) (fresh_ops (seen ?d) ops) st',
      dedup_run (map op_id ops) ?d, log_all (fresh_ops (seen ?d) ops) l')" for st' l'
    using Cons.IH [OF spec(1)] Cons.prems by simp
  then show ?case
    using spec(2,3)
    by (simp add: app_step_eq dedup_run_def log_all_def op_id_def [of op] insert_absorb)
qed

lemma dedup_run_old:
  assumes "dedup_ok d" "list_all usable_id ks" "set ks \<subseteq> seen d"
  shows "dedup_run ks d = d"
  using dedup_run_spec [OF assms(1,2)] assms by (intro seen_inj) auto

lemma app_run_replay:
  assumes "dedup_ok d" "list_all usable_id (map op_id ops)"
  shows "app_run S (fresh_ops (seen d) ops) (st, d, l) = app_run S ops (st, d, l)"
proof -
  let ?f = "fresh_ops (seen d) ops"
  have use: "list_all usable_id (map op_id ?f)"
    by (rule fresh_ops_usable [OF assms(2)])
  have "fresh_ops (seen d) ?f = ?f"
    using fresh_ops_distinct [of "seen d" ops] by (intro fresh_ops_all) auto
  moreover have "dedup_run (map op_id ?f) d = dedup_run (map op_id ops) d"
    using dedup_run_spec [OF assms] dedup_run_spec [OF assms(1) use]
      fresh_ops_distinct(2) [of "seen d" ops]
    by (intro seen_inj) auto
  ultimately show ?thesis
    by (simp add: app_run_fresh [OF assms] app_run_fresh [OF assms(1) use])
qed

lemma log_all_run: "log_all ops (log_run b cap hs) = log_run b cap (hs @ ops)"
  by (simp add: log_all_def log_run_def)

subsection \<open>State transfer\<close>

definition no_wrap :: "u64 \<Rightarrow> write_op list \<Rightarrow> bool" where
  "no_wrap b hs \<longleftrightarrow> unat b + length hs < 2 ^ 64"

lemma replica_app_eqI:
  "app_of r = (st, d, l) \<Longrightarrow> rep_store r = st \<and> rep_dedup r = d \<and> rep_log r = l"
  by (simp add: app_of_def)

text \<open>Replaying decodable frames runs their operations.\<close>

lemma replay_tail_run:
  assumes "map (dec_entry W) frames = map Some es"
  shows "\<exists>n'. fst (replay_tail W S frames n r) = Inr n'"
    and "app_of (snd (replay_tail W S frames n r)) = app_run S (map de_op es) (app_of r)"
proof -
  have "(\<exists>n'. fst (replay_tail W S frames n r) = Inr n')
      \<and> app_of (snd (replay_tail W S frames n r)) = app_run S (map de_op es) (app_of r)"
    using assms
  proof (induction frames arbitrary: n r es)
    case (Cons f frames)
    then obtain e es' where es: "es = e # es'" "dec_entry W f = Some e"
        "map (dec_entry W) frames = map Some es'"
      by (cases es) auto
    obtain res r1 where r1: "apply_delivered_op S (de_op e) r = (res, r1)" by fastforce
    have "app_of r1 = app_step S (de_op e) (app_of r)"
      using app_of_apply [of S "de_op e" r] by (simp add: r1)
    then show ?case
      using Cons.IH [OF es(3), of "if res \<noteq> None then n + 1 else n" r1] by (simp add: es r1)
  qed simp
  then show "\<exists>n'. fst (replay_tail W S frames n r) = Inr n'"
    and "app_of (snd (replay_tail W S frames n r)) = app_run S (map de_op es) (app_of r)"
    by auto
qed

lemma entries_from_head:
  assumes "no_wrap b hs"
  shows "entries_from (head_index (log_run b cap hs)) (log_run b cap hs) = []"
proof -
  let ?l = "log_run b cap hs"
  have h: "unat (head_index ?l) = unat b + length hs"
    using unat_index [of b "length hs" "length hs"] assms
    by (simp add: head_index_def log_simps no_wrap_def)
  have "can_serve_from (head_index ?l) ?l"
    using can_serve_run [of b hs "head_index ?l" cap] assms h by (auto simp: no_wrap_def)
  then have "map de_op (entries_from (head_index ?l) ?l) = []"
    using entries_from_run [of b hs "head_index ?l" cap] assms h by (simp add: no_wrap_def)
  then show ?thesis by simp
qed

text \<open>
  The client of both interfaces: what a survivor builds, a peer applies, stated once for every
  codec and every store that keep their laws.
\<close>

locale state_transfer = wire_laws W + snapshot_store S ok
  for W :: "'p wire" and S :: "'st store_ops" and ok :: "'st \<Rightarrow> bool"
begin

lemma snapshot_path:
  fixes r :: "('c, 'st) replica" and p :: "('c', 'st) replica"
  assumes "ok (rep_store r)" "rep_log r = log_run b cap hs" "no_wrap b hs"
    and "\<not> (0 < x \<and> can_serve_from x (rep_log r))"
    and "build_state_transfer C W S x r = (bytes, frames)"
    and "apply_state_transfer C' W S bytes frames p = (res, p')"
  shows "res = Inr 0"
    and "app_of p' = (rep_store r, rep_dedup r, resumed_at (delivered_index r) (dl_cap (rep_log p)))"
proof -
  let ?snap = "replica_export C S r"
  have b: "bytes = enc_snap W ?snap" "frames = []"
    using assms(4,5) entries_from_head [OF assms(3)]
    by (auto simp: build_state_transfer_def build_state_transfer_lazy_def can_serve_from_def
        head_index_def Let_def replica_export_def encode_tail_def assms(2))
  have "apply_state_transfer C' W S bytes frames p =
      (Inr 0, p\<lparr>rep_core := core_import C' (core_export C (rep_core r)) (rep_core p),
         rep_store := rep_store r, rep_dedup := rep_dedup r,
         rep_log := resumed_at (head_index (rep_log r)) (dl_cap (rep_log p))\<rparr>)"
    using import_export [OF assms(1)]
    by (simp add: b apply_state_transfer_def dec_enc_snap enc_snap_nonempty replica_import_def
        replica_export_def)
  then show "res = Inr 0"
    "app_of p' = (rep_store r, rep_dedup r, resumed_at (delivered_index r) (dl_cap (rep_log p)))"
    using assms(6) by (auto simp: app_of_def delivered_index_def)
qed

lemma tail_path:
  fixes r :: "('c, 'st) replica" and p :: "('c', 'st) replica"
  assumes "dedup_ok d0" "list_all usable_id (map op_id (ops1 @ ops2))"
    and "app_of r = app_run S (ops1 @ ops2) (st0, d0, log_run b cap hs)"
    and "app_of p = app_run S ops1 (st0, d0, log_run b cap hs)"
    and "no_wrap b (hs @ fresh_ops (seen d0) (ops1 @ ops2))"
    and "0 < delivered_index p" "can_serve_from (delivered_index p) (rep_log r)"
    and "build_state_transfer C W S (delivered_index p) r = (bytes, frames)"
    and "apply_state_transfer C' W S bytes frames p = (res, p')"
  shows "\<exists>n. res = Inr n" and "app_of p' = app_of r"
proof -
  let ?x = "delivered_index p"
  let ?f1 = "fresh_ops (seen d0) ops1"
  let ?f2 = "fresh_ops (seen d0 \<union> op_id ` set ops1) ops2"
  have use1: "list_all usable_id (map op_id ops1)" and use2: "list_all usable_id (map op_id ops2)"
    using assms(2) by simp_all
  have f: "fresh_ops (seen d0) (ops1 @ ops2) = ?f1 @ ?f2"
    by (rule fresh_ops_append)
  have logr: "rep_log r = log_run b cap (hs @ ?f1 @ ?f2)"
    using assms(3) app_run_fresh [OF assms(1,2), of S st0]
    by (simp add: app_of_def f log_all_run)
  obtain st1 where st1: "app_of p = (st1, dedup_run (map op_id ops1) d0, log_run b cap (hs @ ?f1))"
    using assms(4) app_run_fresh [OF assms(1) use1, of S st0]
    by (simp add: app_of_def log_all_run)
  have d1: "dedup_ok (dedup_run (map op_id ops1) d0)"
      "seen (dedup_run (map op_id ops1) d0) = seen d0 \<union> op_id ` set ops1"
    using dedup_run_spec [OF assms(1) use1] by simp_all
  have nw: "unat b + length (hs @ ?f1 @ ?f2) < 2 ^ 64"
    using assms(5) by (simp add: no_wrap_def f)
  have "?x = b + of_nat (length (hs @ ?f1))"
    using st1 by (simp add: delivered_index_def app_of_def head_index_def log_simps)
  then have x: "unat ?x = unat b + length (hs @ ?f1)"
    using unat_index [OF nw, of "length (hs @ ?f1)"] by simp
  have es: "map de_op (entries_from ?x (rep_log r)) = ?f2"
    using entries_from_run [OF nw, of ?x cap] assms(7) by (simp add: logr x)
  have tail: "bytes = []" "frames = encode_tail (enc_entry W) (entries_from ?x (rep_log r))"
    using assms(6-8)
    by (auto simp: build_state_transfer_def build_state_transfer_lazy_def can_serve_from_def
        head_index_def)
  have frames: "map (dec_entry W) frames = map Some (entries_from ?x (rep_log r))"
    unfolding tail by (rule dec_encode_tail)
  have run: "replay_tail W S frames 0 p = (res, p')"
    using assms(9) by (simp add: apply_state_transfer_def tail(1))
  show "\<exists>n. res = Inr n"
    using replay_tail_run(1) [OF frames, of S 0 p] run by simp
  have "app_of p' = app_run S ?f2 (app_of p)"
    using replay_tail_run(2) [OF frames, of S 0 p] run by (simp add: es)
  also have "\<dots> = app_run S ops2 (app_of p)"
    using app_run_replay [OF d1(1) use2, of S] by (simp add: st1 d1(2))
  finally show "app_of p' = app_of r"
    by (simp add: assms(3,4) app_run_append)
qed

end

interpretation mem_transfer: state_transfer "ref_wire c_nat" "ref_mem_ops now" store_ok for now
  by unfold_locales

end
