(* ===== verification/Replica_Claims.thy ===== *)
theory Replica_Claims
  imports Replica_Laws
begin

section \<open>Claims about replicas\<close>

text \<open>
  Convergence, exactly-once application, client answers and state transfer, over every core,
  codec and store that meet the interfaces. The witnesses run \<open>MemStore\<close> with the reference
  codec over \<open>echo_core\<close>, a core that delivers what it is given.
\<close>

definition echo_core :: "(nat, bytes, nat) core_ops" where
  "echo_core =
     \<lparr>core_step = (\<lambda>i n. case i of
        LocalBroadcast bs \<Rightarrow> ([ForwardTrain bs], n + 1)
      | TrainReceived t \<Rightarrow> ([Deliver [\<lparr>pl_data = t\<rparr>]], n + 1)
      | CoreTick \<Rightarrow> ([], n)),
      core_export = (\<lambda>n. n), core_import = (\<lambda>p n. p), core_issue_initial = (\<lambda>n. ([], n))\<rparr>"

definition replica_with :: "proc_id \<Rightarrow> 'st app \<Rightarrow> (nat, 'st) replica" where
  "replica_with i a =
     (case a of (st, d, l) \<Rightarrow>
        \<lparr>rep_id = i, rep_core = 0, rep_store = st, rep_next_rid = 0, rep_dedup = d, rep_log = l\<rparr>)"

lemma app_of_replica_with [simp]: "app_of (replica_with i a) = a"
  by (simp add: replica_with_def app_of_def split: prod.splits)

definition op_set :: "proc_id \<Rightarrow> u64 \<Rightarrow> bytes \<Rightarrow> bytes \<Rightarrow> write_op" where
  "op_set o' i k v = write_op_new o' i [''SET'', k, v]"

abbreviation mem0 :: "mem_store store_ops" where
  "mem0 \<equiv> ref_mem_ops (0, 0)"

abbreviation wire0 :: "nat wire" where
  "wire0 \<equiv> ref_wire c_nat"

subsection \<open>Convergence\<close>

text \<open>
  C4: two replicas that start from the same store, dedup state and effect log, and to which the
  core delivers the same decodable operations in the same order, end with the same store, dedup
  state and effect log: whatever their cores, their ids, the client commands each of them
  handles in between, and the batches the operations arrive in.
\<close>

theorem replica_convergence:
  assumes "replica_trace F1 C1 W S r1 ps1 r1'" "replica_trace F2 C2 W S r2 ps2 r2'"
    and "rep_store r1 = rep_store r2" "rep_dedup r1 = rep_dedup r2" "rep_log r1 = rep_log r2"
    and "decoded W ps1 = decoded W ps2"
  shows "rep_store r1' = rep_store r2' \<and> rep_dedup r1' = rep_dedup r2' \<and> rep_log r1' = rep_log r2'"
proof -
  have "app_of r1 = app_of r2"
    using assms(3-5) by (simp add: app_of_def)
  then have "app_of r1' = app_of r2'"
    using app_of_trace [OF assms(1)] app_of_trace [OF assms(2)] assms(6) by simp
  then show ?thesis by (simp add: app_of_def)
qed

theorem replica_convergence_witness:
  "let t = cput c_write_op (op_set 1 0 ''k'' ''v'');
       a = replica_new 1 0 mem_new; b = replica_new 2 7 mem_new;
       a' = event_next int_floats echo_core wire0 mem0 (TrainIn t) a;
       b' = event_next int_floats echo_core wire0 mem0 (TrainIn t) b in
   rep_store a' = rep_store b' \<and> rep_dedup a' = rep_dedup b' \<and> rep_log a' = rep_log b'"
proof -
  let ?t = "cput c_write_op (op_set 1 0 ''k'' ''v'')"
  let ?step = "event_next int_floats echo_core wire0 mem0 (TrainIn ?t)"
  let ?a = "replica_new 1 0 mem_new" and ?b = "replica_new 2 7 mem_new"
  have "delivered (event_outputs int_floats echo_core wire0 mem0 (TrainIn ?t) ?a)
      = delivered (event_outputs int_floats echo_core wire0 mem0 (TrainIn ?t) ?b)"
    by (simp add: event_outputs_def echo_core_def)
  then have "rep_store (?step ?a) = rep_store (?step ?b)
      \<and> rep_dedup (?step ?a) = rep_dedup (?step ?b) \<and> rep_log (?step ?a) = rep_log (?step ?b)"
    by (intro replica_convergence [OF replica_trace_single replica_trace_single])
      (simp_all add: replica_new_def)
  then show ?thesis by (simp add: Let_def)
qed

text \<open>
  C5: at-least-once delivery is applied exactly once: after any history the store is the initial
  store with the first occurrence of each operation id applied in delivery order, the effect log
  has grown by exactly those operations, and no id occurs in them twice or was applied before.
\<close>

theorem exactly_once:
  assumes "replica_trace F C W S r ps r'" "dedup_ok (rep_dedup r)"
    and "list_all usable_id (map op_id (decoded W ps))"
  shows "let ops = fresh_ops (seen (rep_dedup r)) (decoded W ps) in
    rep_store r' = fold (apply_op S) ops (rep_store r) \<and> rep_log r' = log_all ops (rep_log r)
    \<and> distinct (map op_id ops)
    \<and> op_id ` set ops = op_id ` set (decoded W ps) - seen (rep_dedup r)
    \<and> seen (rep_dedup r') = seen (rep_dedup r) \<union> op_id ` set (decoded W ps)"
  using app_of_trace [OF assms(1)] app_run_fresh [OF assms(2,3), of S "rep_store r" "rep_log r"]
    fresh_ops_distinct dedup_run_spec(2) [OF assms(2,3)]
  by (simp add: app_of_def Let_def)

theorem exactly_once_witness:
  "let t = cput c_write_op (write_op_new 1 0 [''INCR'', ''n'']);
       step = event_next int_floats echo_core wire0 mem0 (TrainIn t);
       a = replica_new 2 0 mem_new in
   rep_store (step (step a)) = fold (apply_op mem0) [write_op_new 1 0 [''INCR'', ''n'']] mem_new
   \<and> rep_store (step (step a)) = \<lparr>data = [(''n'', Str ''1'')], ttl = []\<rparr>"
proof -
  let ?op = "write_op_new 1 0 [''INCR'', ''n'']"
  let ?t = "cput c_write_op ?op"
  let ?ev = "TrainIn ?t"
  let ?step = "event_next int_floats echo_core wire0 mem0 ?ev"
  let ?a = "replica_new 2 0 mem_new"
  let ?outs = "\<lambda>r. delivered (event_outputs int_floats echo_core wire0 mem0 ?ev r)"
  have tr: "replica_trace int_floats echo_core wire0 mem0 ?a ([] @ ?outs ?a @ ?outs (?step ?a)) (?step (?step ?a))"
    using trace_step [OF trace_step [OF trace_refl]] by (metis append.assoc)
  have dec: "decoded wire0 ([] @ ?outs ?a @ ?outs (?step ?a)) = [?op, ?op]"
    by (simp add: event_outputs_def echo_core_def ref_wire_def op_codec.dec_enc)
  have new: "rep_dedup ?a = dedup_new" "rep_store ?a = mem_new"
    by (simp_all add: replica_new_def)
  have use: "list_all usable_id (map op_id [?op, ?op])" by code_simp
  have "rep_store (?step (?step ?a)) = fold (apply_op mem0) (fresh_ops (seen dedup_new) [?op, ?op]) mem_new"
    using exactly_once [OF tr, unfolded dec new, OF dedup_ok_new use] by (simp add: Let_def)
  then have one: "rep_store (?step (?step ?a)) = fold (apply_op mem0) [?op] mem_new" by simp
  have "fold (apply_op mem0) [?op] mem_new = \<lparr>data = [(''n'', Str ''1'')], ttl = []\<rparr>"
    by code_simp
  with one show ?thesis by (simp add: Let_def)
qed

subsection \<open>State transfer\<close>

text \<open>
  C7: a survivor that cannot serve a peer incrementally (a fresh peer, one that fell behind the
  retained tail, or one that is ahead) sends a snapshot, and applying it gives the peer the
  survivor's store and dedup state exactly, whatever the peer held, with a log that continues at
  the survivor's index: so a peer that was ahead goes back.
\<close>

theorem snapshot_transfer:
  assumes "state_transfer W S ok" "ok (rep_store r)"
    and "rep_log r = log_run b cap hs" "no_wrap b hs"
    and "\<not> (0 < x \<and> can_serve_from x (rep_log r))"
    and "build_state_transfer C W S x r = (bytes, frames)"
    and "apply_state_transfer C' W S bytes frames p = (res, p')"
  shows "res = Inr 0 \<and> rep_store p' = rep_store r \<and> rep_dedup p' = rep_dedup r
    \<and> delivered_index p' = delivered_index r \<and> log_is_empty (rep_log p')"
  using state_transfer.snapshot_path [OF assms]
  by (auto simp: app_of_def delivered_index_def resumed_at_def head_index_def log_is_empty_def)

text \<open>
  C6: a survivor that still holds the tail a peer misses sends only that tail, and applying it
  brings the peer to exactly the survivor's store, dedup state and effect log, even when both
  have seen duplicates: survivor and peer have run \<open>ops1\<close> from a common state, the survivor
  also \<open>ops2\<close>.
\<close>

theorem tail_transfer:
  assumes "state_transfer W S ok" "dedup_ok d0" "list_all usable_id (map op_id (ops1 @ ops2))"
    and "app_of r = app_run S (ops1 @ ops2) (st0, d0, log_run b cap hs)"
    and "app_of p = app_run S ops1 (st0, d0, log_run b cap hs)"
    and "no_wrap b (hs @ fresh_ops (seen d0) (ops1 @ ops2))"
    and "0 < delivered_index p" "can_serve_from (delivered_index p) (rep_log r)"
    and "build_state_transfer C W S (delivered_index p) r = (bytes, frames)"
    and "apply_state_transfer C' W S bytes frames p = (res, p')"
  shows "(\<exists>n. res = Inr n) \<and> rep_store p' = rep_store r \<and> rep_dedup p' = rep_dedup r
    \<and> rep_log p' = rep_log r"
  using state_transfer.tail_path [OF assms] by (auto simp: app_of_def)

definition demo_survivor :: "(nat, mem_store) replica" where
  "demo_survivor =
     replica_with 1 (app_run mem0 [op_set 1 0 ''a'' ''x'', op_set 2 0 ''b'' ''y'', op_set 1 0 ''a'' ''x'',
       op_set 1 1 ''a'' ''z''] (mem_new, dedup_new, log_run 0 2 []))"

definition demo_peer :: "(nat, mem_store) replica" where
  "demo_peer =
     replica_with 3 (app_run mem0 [op_set 1 0 ''a'' ''x''] (mem_new, dedup_new, log_run 0 2 []))"

lemma demo_store_ok: "store_ok (rep_store demo_survivor)"
  by code_simp

lemma demo_log:
  "rep_log demo_survivor
   = log_run 0 2 [op_set 1 0 ''a'' ''x'', op_set 2 0 ''b'' ''y'', op_set 1 1 ''a'' ''z'']"
  by code_simp

theorem snapshot_transfer_witness:
  "case build_state_transfer echo_core wire0 mem0 0 demo_survivor of (bytes, frames) \<Rightarrow>
     (case apply_state_transfer echo_core wire0 mem0 bytes frames demo_peer of (res, p') \<Rightarrow>
        rep_store p' = rep_store demo_survivor \<and> delivered_index p' = delivered_index demo_survivor)"
proof -
  obtain bytes frames where b:
    "build_state_transfer echo_core wire0 mem0 0 demo_survivor = (bytes, frames)" by fastforce
  obtain res p' where p:
    "apply_state_transfer echo_core wire0 mem0 bytes frames demo_peer = (res, p')" by fastforce
  have "\<not> (0 < (0 :: u64) \<and> can_serve_from 0 (rep_log demo_survivor))" by simp
  from snapshot_transfer [OF mem_transfer.state_transfer_axioms demo_store_ok demo_log _ this b p]
  show ?thesis by (simp add: b p no_wrap_def)
qed

theorem tail_transfer_witness:
  "case build_state_transfer echo_core wire0 mem0 (delivered_index demo_peer) demo_survivor of
     (bytes, frames) \<Rightarrow>
       (case apply_state_transfer echo_core wire0 mem0 bytes frames demo_peer of (res, p') \<Rightarrow>
          rep_store p' = rep_store demo_survivor \<and> rep_log p' = rep_log demo_survivor)"
proof -
  obtain bytes frames where b:
    "build_state_transfer echo_core wire0 mem0 (delivered_index demo_peer) demo_survivor = (bytes, frames)"
    by fastforce
  obtain res p' where p:
    "apply_state_transfer echo_core wire0 mem0 bytes frames demo_peer = (res, p')" by fastforce
  let ?ops1 = "[op_set 1 0 ''a'' ''x'']"
  let ?ops2 = "[op_set 2 0 ''b'' ''y'', op_set 1 0 ''a'' ''x'', op_set 1 1 ''a'' ''z'']"
  have r: "app_of demo_survivor = app_run mem0 (?ops1 @ ?ops2) (mem_new, dedup_new, log_run 0 2 [])"
    by (simp add: demo_survivor_def)
  have q: "app_of demo_peer = app_run mem0 ?ops1 (mem_new, dedup_new, log_run 0 2 [])"
    by (simp add: demo_peer_def)
  have x: "0 < delivered_index demo_peer"
      "can_serve_from (delivered_index demo_peer) (rep_log demo_survivor)"
    by code_simp+
  have use: "list_all usable_id (map op_id (?ops1 @ ?ops2))" by code_simp
  have nw: "no_wrap 0 ([] @ fresh_ops (seen dedup_new) (?ops1 @ ?ops2))"
    by (simp add: no_wrap_def)
  from tail_transfer [OF mem_transfer.state_transfer_axioms dedup_ok_new use r q nw x b p]
  show ?thesis by (simp add: b p)
qed

subsection \<open>Client commands and their answers\<close>

lemma apply_delivered_fixed:
  "rep_next_rid (snd (apply_delivered_op S op r)) = rep_next_rid r"
  "rep_id (snd (apply_delivered_op S op r)) = rep_id r"
  "rep_core (snd (apply_delivered_op S op r)) = rep_core r"
  by (simp_all add: apply_delivered_op_def split: prod.splits)

lemma absorb_payloads_fixed:
  "rep_next_rid (snd (absorb_payloads W S ps r)) = rep_next_rid r"
  by (induction ps arbitrary: r)
    (simp_all split: option.splits prod.splits, metis apply_delivered_fixed(1) snd_conv)

lemma absorb_fixed: "rep_next_rid (snd (absorb W S outs r)) = rep_next_rid r"
proof (induction outs arbitrary: r)
  case (Cons out outs)
  then show ?case
    using absorb_payloads_fixed [of W S _ r]
    by (cases out) (simp_all split: prod.splits, (metis snd_conv)+)
qed simp

text \<open>
  A command answered at once (every read, every rejected or unencodable write) leaves the
  replica as it was, request counter included; a broadcast one is a write, carries the next
  request id and consumes exactly that one.
\<close>

lemma handle_outcome:
  assumes "handle F C W S cmd r = (out, r')"
  shows "case out of
      CImmediate reply \<Rightarrow> r' = r
    | CBroadcast rid fw \<Rightarrow>
        is_write (cmd_name cmd) \<and> rid = rep_next_rid r \<and> rep_next_rid r' = rid + 1"
proof -
  have bcast: "case o' of CImmediate reply \<Rightarrow> r1 = r
      | CBroadcast rid fw \<Rightarrow> rid = rep_next_rid r \<and> rep_next_rid r1 = rid + 1"
    if run: "broadcast_write C W S argv rp r = (o', r1)" for argv rp o' r1
  proof -
    define op where "op = (case rp of
        Some x \<Rightarrow> with_client_reply (write_op_new (rep_id r) (rep_next_rid r) argv) x
      | None \<Rightarrow> write_op_new (rep_id r) (rep_next_rid r) argv)"
    show ?thesis
    proof (cases "enc_op W op")
      case (Inl e)
      with run show ?thesis
        by (auto simp: broadcast_write_def Let_def op_def [symmetric])
    next
      case (Inr bs)
      obtain outs c where c: "core_step C (LocalBroadcast bs) (rep_core r) = (outs, c)"
        by fastforce
      with run Inr show ?thesis
        using absorb_fixed [of W S outs "r\<lparr>rep_next_rid := rep_next_rid r + 1, rep_core := c\<rparr>"]
        by (auto simp: broadcast_write_def Let_def op_def [symmetric] split: prod.splits)
    qed
  qed
  show ?thesis
  proof (cases "classify (cmd_name cmd)")
    case Write
    with assms show ?thesis
      by (auto simp: handle_def is_write_def dest!: bcast split: client_outcome.splits)
  next
    case NonDeterministic
    with assms show ?thesis
      by (auto simp: handle_def is_write_def dest!: bcast
          split: resolution.splits client_outcome.splits)
  qed (use assms in \<open>auto simp: handle_def\<close>)
qed

lemma handle_outcome_instance:
  "let r = replica_with 1 (mem_new, dedup_new, log_run 0 2 []); cmd = q [''SET'', ''k'', ''v''] in
   \<exists>fw r'. handle int_floats echo_core wire0 mem0 cmd r = (CBroadcast 0 fw, r') \<and> rep_next_rid r' = 1"
proof -
  let ?r = "replica_with 1 (mem_new, dedup_new, log_run 0 2 [])" and ?cmd = "q [''SET'', ''k'', ''v'']"
  have fst: "fst (handle int_floats echo_core wire0 mem0 ?cmd ?r)
      = CBroadcast 0 [cput c_write_op (op_set 1 0 ''k'' ''v'')]"
    by code_simp
  obtain out r' where run: "handle int_floats echo_core wire0 mem0 ?cmd ?r = (out, r')"
    by fastforce
  with fst have out: "out = CBroadcast 0 [cput c_write_op (op_set 1 0 ''k'' ''v'')]" by simp
  from handle_outcome [OF run] run show ?thesis by (simp add: out Let_def)
qed

lemma applied_payloads:
  assumes "dedup_ok (rep_dedup r)" "list_all usable_id (map op_id (decoded W ps))"
  shows "map (\<lambda>a. (ap_origin a, ap_request_id a)) (fst (absorb_payloads W S ps r))
    = map op_id (fresh_ops (seen (rep_dedup r)) (decoded W ps))"
  using assms
proof (induction ps arbitrary: r)
  case (Cons p ps)
  show ?case
  proof (cases "dec_op W (pl_data p)")
    case None
    with Cons show ?thesis by simp
  next
    case (Some op)
    obtain res r1 where r1: "apply_delivered_op S op r = (res, r1)" by fastforce
    have rid: "request_id op \<noteq> - 1"
      using Cons.prems(2) Some by (simp add: usable_id_def op_id_def)
    note spec = first_seen_spec [OF Cons.prems(1) rid, of "origin op"]
    have d1: "rep_dedup r1 = snd (first_seen (origin op) (request_id op) (rep_dedup r))"
      using app_of_apply [of S op r] r1
      by (simp add: app_of_def app_step_eq split: if_splits)
    have ih: "map (\<lambda>a. (ap_origin a, ap_request_id a)) (fst (absorb_payloads W S ps r1))
        = map op_id (fresh_ops (insert (op_id op) (seen (rep_dedup r))) (decoded W ps))"
      using Cons.IH [of r1] Cons.prems(2) Some spec d1 by (simp add: op_id_def [of op])
    have res: "res = None \<longleftrightarrow> op_id op \<in> seen (rep_dedup r)"
      "\<And>a. res = Some a \<Longrightarrow> (ap_origin a, ap_request_id a) = op_id op"
      using r1 spec(2)
      by (auto simp: apply_delivered_op_def apply_delivered_op_parts_def op_id_def Let_def
          split: prod.splits bool.splits option.splits) metis+
    show ?thesis
      using Some r1 ih res by (cases res) (auto simp: insert_absorb split: prod.splits)
  qed
qed simp

lemma applied_absorb:
  assumes "dedup_ok (rep_dedup r)" "list_all usable_id (map op_id (decoded W (delivered outs)))"
  shows "map (\<lambda>a. (ap_origin a, ap_request_id a)) (st_applied (fst (absorb W S outs r)))
    = map op_id (fresh_ops (seen (rep_dedup r)) (decoded W (delivered outs)))"
  using assms
proof (induction outs arbitrary: r)
  case (Cons out outs)
  show ?case
  proof (cases out)
    case (Deliver ps)
    obtain as r1 where r1: "absorb_payloads W S ps r = (as, r1)" by fastforce
    have use: "list_all usable_id (map op_id (decoded W ps))"
        "list_all usable_id (map op_id (decoded W (delivered outs)))"
      using Cons.prems(2) Deliver by simp_all
    have "app_of r1 = app_run S (decoded W ps) (app_of r)"
      using app_of_payloads [of W S ps r] r1 by simp
    then have "rep_dedup r1 = dedup_run (map op_id (decoded W ps)) (rep_dedup r)"
      using app_run_fresh [OF Cons.prems(1) use(1), of S] by (simp add: app_of_def)
    then have "dedup_ok (rep_dedup r1)"
        "seen (rep_dedup r1) = seen (rep_dedup r) \<union> op_id ` set (decoded W ps)"
      using dedup_run_spec [OF Cons.prems(1) use(1)] by simp_all
    then show ?thesis
      using Deliver r1 Cons.IH [of r1] use applied_payloads [OF Cons.prems(1) use(1), of S]
      by (auto simp: fresh_ops_append split: prod.splits)
  qed (use Cons.IH [of r] Cons.prems in \<open>auto split: prod.splits\<close>)
qed simp

text \<open>
  What the core delivers in one step is acknowledged exactly once: the applied records
  carry, in delivery order, the ids of the first occurrences of the operations delivered and no
  others, so a client that waits for an id is answered once and a duplicate answers nobody.
\<close>

lemma acknowledged_once:
  assumes "dedup_ok (rep_dedup r)" "list_all usable_id (map op_id (decoded W (delivered outs)))"
    and "absorb W S outs r = (st, r')"
  shows "map (\<lambda>a. (ap_origin a, ap_request_id a)) (st_applied st)
      = map op_id (fresh_ops (seen (rep_dedup r)) (decoded W (delivered outs)))
    \<and> distinct (map (\<lambda>a. (ap_origin a, ap_request_id a)) (st_applied st))"
  using applied_absorb [OF assms(1,2), of S] assms(3) fresh_ops_distinct(1) by simp

lemma acknowledged_once_instance:
  "map (\<lambda>a. (ap_origin a, ap_request_id a))
     (st_applied (fst (absorb wire0 mem0
        [Deliver [\<lparr>pl_data = cput c_write_op (op_set 1 0 ''a'' ''x'')\<rparr>], ForwardTrain [],
         Deliver [\<lparr>pl_data = ''junk''\<rparr>, \<lparr>pl_data = cput c_write_op (op_set 1 0 ''a'' ''x'')\<rparr>]]
        (replica_new 2 (0 :: nat) mem_new)))) = [(1, 0)]"
  (is "map _ (st_applied (fst (absorb wire0 mem0 ?outs ?r))) = _")
proof -
  obtain st r' where run: "absorb wire0 mem0 ?outs ?r = (st, r')" by fastforce
  have junk: "dec_op wire0 ''junk'' = None" by code_simp
  have good: "dec_op wire0 (cput c_write_op op) = Some op" for op
    by (simp add: ref_wire_def op_codec.dec_enc)
  have dec: "decoded wire0 (delivered ?outs) = [op_set 1 0 ''a'' ''x'', op_set 1 0 ''a'' ''x'']"
    by (simp add: junk good)
  have ok: "dedup_ok (rep_dedup ?r)" by (simp add: replica_new_def)
  have use: "list_all usable_id (map op_id (decoded wire0 (delivered ?outs)))"
    unfolding dec by code_simp
  show ?thesis
    using acknowledged_once [OF ok use run, unfolded dec] run
    by (simp add: replica_new_def op_id_def op_set_def write_op_new_def)
qed

text \<open>
  A snapshot whose store part does not decode is refused with an error and leaves store,
  dedup state, log and counters alone, but the core has already taken the snapshot's protocol
  state: protocol and application state no longer belong together.
\<close>

lemma import_error_leaves_core:
  assumes "dec_snap W bytes = Some snap" "bytes \<noteq> []"
    and "st_import S (sn_store snap) (rep_store r) = Inl e"
  shows "apply_state_transfer C W S bytes frames r
    = (Inl e, r\<lparr>rep_core := core_import C (sn_protocol snap) (rep_core r)\<rparr>)"
  using assms by (simp add: apply_state_transfer_def replica_import_def)

lemma import_error_leaves_core_instance:
  "let snap = \<lparr>sn_version = 4, sn_protocol = 9, sn_store = ''junk'', sn_dedup = dedup_new,
       sn_delivered_index = 5, sn_view = None\<rparr>; r = replica_new 1 0 mem_new in
   apply_state_transfer echo_core wire0 mem0 (enc_snap wire0 snap) [] r
   = (Inl Decode, r\<lparr>rep_core := 9\<rparr>)"
proof -
  let ?snap = "\<lparr>sn_version = 4, sn_protocol = 9 :: nat, sn_store = ''junk'', sn_dedup = dedup_new,
       sn_delivered_index = 5, sn_view = None\<rparr>"
  let ?r = "replica_new 1 0 mem_new"
  have "st_import mem0 ''junk'' mem_new = Inl Decode" by code_simp
  then have bad: "st_import mem0 (sn_store ?snap) (rep_store ?r) = Inl Decode"
    by (simp add: replica_new_def)
  show ?thesis
    using import_error_leaves_core [OF ref_wire_nat.dec_enc_snap ref_wire_nat.enc_snap_nonempty bad,
        of echo_core "[]"]
    by (simp add: echo_core_def)
qed

end
