(* ===== verification/Driver.thy ===== *)
theory Driver
  imports Replica_Laws "HOL-Library.Monad_Syntax"
begin

section \<open>The driver of a proxy node\<close>

text \<open>
  The per-node driver of \<open>src/crates/trains-valkey/src/proxy.rs\<close>: one event at a time it
  broadcasts client writes, applies what the core delivers, wakes the waiting clients, and
  masks crashed nodes through the view change. What it sends is the list of effects a handler
  returns, in order. The failure detector and the view-change machine are packages the program
  uses: their operations are records, as those of the core are. A oneshot sender is a token
  \<open>'w\<close>; sending on it is the effect \<open>ReplyTo\<close>. A handler that panics or never returns is
  \<open>None\<close>.
\<close>

named_theorems driver_simps \<open>how the handlers act on the parts of the driver's state\<close>

subsection \<open>What the driver is given\<close>

record ('c, 't, 'p, 'r, 'q) kernel_ops = "('c, 't, 'p) core_ops" +
  core_confirm_crash :: "proc_id \<Rightarrow> 'c \<Rightarrow> 'c"
  core_readmit_node :: "proc_id \<Rightarrow> 'c \<Rightarrow> 'c"
  core_recovery_report :: "'c \<Rightarrow> 'r \<times> 'c"
  core_apply_recovery :: "'q \<Rightarrow> 'c \<Rightarrow> 't core_output list \<times> 'c"
  core_reissue_train :: "'c \<Rightarrow> 't \<times> 'c"
  core_set_frozen :: "bool \<Rightarrow> 'c \<Rightarrow> 'c"
  train_issuer :: "'t \<Rightarrow> proc_id"

record 'd detector_ops =
  det_new :: "u32 \<Rightarrow> u32 \<Rightarrow> 'd"
  det_note_alive :: "proc_id \<Rightarrow> 'd \<Rightarrow> 'd"
  det_is_confirmed :: "proc_id \<Rightarrow> 'd \<Rightarrow> bool"
  det_gap_hint :: "proc_id \<Rightarrow> 'd \<Rightarrow> proc_id option \<times> 'd"
  det_disconnect :: "proc_id \<Rightarrow> 'd \<Rightarrow> proc_id option \<times> 'd"

datatype vc_kind = Gather | Install | ReAdmitGather | ReAdmitInstall

datatype ('m, 'q) vc_action = VcSend 'm | VcApply 'q

record ('v, 'm, 'r, 'q) vc_ops =
  vc_new :: "proc_id \<Rightarrow> nat \<Rightarrow> 'v"
  vc_installed_view :: "'v \<Rightarrow> u64"
  vc_adopt_view :: "u64 \<Rightarrow> proc_id list \<Rightarrow> 'v \<Rightarrow> 'v"
  vc_on_confirm :: "proc_id \<Rightarrow> 'r \<Rightarrow> 'v \<Rightarrow> ('m, 'q) vc_action list \<times> 'v"
  vc_on_gather :: "'m \<Rightarrow> 'r \<Rightarrow> 'v \<Rightarrow> ('m, 'q) vc_action list \<times> 'v"
  vc_on_install :: "'m \<Rightarrow> 'v \<Rightarrow> ('m, 'q) vc_action list \<times> 'v"
  vc_on_readmit_gather :: "'m \<Rightarrow> 'r \<Rightarrow> 'v \<Rightarrow> ('m, 'q) vc_action list \<times> 'v"
  vc_on_readmit_install :: "'m \<Rightarrow> 'v \<Rightarrow> ('m, 'q) vc_action list \<times> 'v"
  vc_on_request_readmit :: "'r \<Rightarrow> 'v \<Rightarrow> ('m, 'q) vc_action list \<times> 'v"
  msg_kind :: "'m \<Rightarrow> vc_kind"
  msg_victim :: "'m \<Rightarrow> proc_id option"
  msg_rejoiner :: "'m \<Rightarrow> proc_id option"

record ('c, 't, 'p, 'r, 'q, 'd, 'v, 'm, 'st, 'f) env =
  e_core :: "('c, 't, 'p, 'r, 'q) kernel_ops"
  e_det :: "'d detector_ops"
  e_vc :: "('v, 'm, 'r, 'q) vc_ops"
  e_wire :: "'p wire"
  e_store :: "'st store_ops"
  e_float :: "'f float_ops"
  e_ring_size :: nat
  e_num_trains :: nat

definition STRIKE_THRESHOLD :: u32 where "STRIKE_THRESHOLD = 3"
definition DISCONNECT_WEIGHT :: u32 where "DISCONNECT_WEIGHT = STRIKE_THRESHOLD"

subsection \<open>State, events and effects\<close>

record ('c, 'd, 'v, 'st, 'w) driver_state =
  d_core :: 'c
  d_store :: 'st
  d_pending :: "(u64, 'w) btree_map"
  d_next_rid :: u64
  d_dedup :: write_dedup
  d_log :: delivered_log
  d_detector :: 'd
  d_vc :: 'v
  d_dead :: "nat btree_set"
  d_succ :: nat

record 'a driver_cfg =
  cfg_id :: proc_id
  cfg_issue_initial :: bool
  cfg_ring_addrs :: "'a list"

record 'p promote_seed =
  seed_dedup :: write_dedup
  seed_log :: delivered_log
  seed_protocol :: 'p
  seed_view :: view_info

datatype ('t, 'm, 'a, 'w) driver_effect =
    SendTrain 't
  | SendVc 'm
  | Retarget 'a
  | ReplyTo 'w reply
  | AnswerTransfer 'w bytes "bytes list"
  | AbortRing

datatype ('t, 'm, 'a, 'w) driver_event =
    EvWrite "bytes list" 'w
  | EvTrain 't
  | EvVc 'm
  | EvUnreachable 'a
  | EvTick
  | EvSnapshot u64 'w
  | EvCrash
  | EvConfirmCrash proc_id
  | EvClosed

definition reconfig :: "'a driver_cfg \<Rightarrow> bool" where
  "reconfig cfg \<longleftrightarrow> cfg_ring_addrs cfg \<noteq> []"

definition ring_n :: "('c, 't, 'p, 'r, 'q, 'd, 'v, 'm, 'st, 'f) env \<Rightarrow> 'a driver_cfg \<Rightarrow> nat" where
  "ring_n E cfg = (if reconfig cfg then length (cfg_ring_addrs cfg) else e_ring_size E)"

subsection \<open>Applying what the core delivers\<close>

text \<open>The replicated part of the driver's state, as in the replica model.\<close>

definition d_app :: "('c, 'd, 'v, 'st, 'w) driver_state \<Rightarrow> 'st app" where
  "d_app st = (d_store st, d_dedup st, d_log st)"

definition pump_op ::
  "('c, 't, 'p, 'r, 'q, 'd, 'v, 'm, 'st, 'f) env \<Rightarrow> proc_id \<Rightarrow> write_op
     \<Rightarrow> ('c, 'd, 'v, 'st, 'w) driver_state
     \<Rightarrow> ('t, 'm, 'a, 'w) driver_effect list \<times> ('c, 'd, 'v, 'st, 'w) driver_state" where
  "pump_op E i op st =
     (case first_seen (origin op) (request_id op) (d_dedup st) of
        (False, dedup') \<Rightarrow> ([], st\<lparr>d_dedup := dedup'\<rparr>)
      | (True, dedup') \<Rightarrow>
          (case (case op_command op of
                   Some cmd \<Rightarrow> st_apply (e_store E) cmd (d_store st)
                 | None \<Rightarrow> (reply_error ''ERR delivered write op had empty argv'', d_store st)) of
             (apply_reply, store') \<Rightarrow>
               (let st1 = st\<lparr>d_dedup := dedup', d_store := store',
                             d_log := snd (append_op op (d_log st))\<rparr> in
                if origin op = i then
                  (case bt_get (d_pending st1) (request_id op) of
                     Some tx \<Rightarrow>
                       ([ReplyTo tx (case client_reply op of Some r \<Rightarrow> r | None \<Rightarrow> apply_reply)],
                        st1\<lparr>d_pending := bt_remove (request_id op) (d_pending st1)\<rparr>)
                   | None \<Rightarrow> ([], st1))
                else ([], st1))))"

fun pump_payloads ::
  "('c, 't, 'p, 'r, 'q, 'd, 'v, 'm, 'st, 'f) env \<Rightarrow> proc_id \<Rightarrow> payload list
     \<Rightarrow> ('c, 'd, 'v, 'st, 'w) driver_state
     \<Rightarrow> ('t, 'm, 'a, 'w) driver_effect list \<times> ('c, 'd, 'v, 'st, 'w) driver_state" where
  "pump_payloads E i [] st = ([], st)"
| "pump_payloads E i (p # ps) st =
     (case dec_op (e_wire E) (pl_data p) of
        None \<Rightarrow> pump_payloads E i ps st
      | Some op \<Rightarrow>
          (case pump_op E i op st of
             (ef, st1) \<Rightarrow> (case pump_payloads E i ps st1 of (ef', st2) \<Rightarrow> (ef @ ef', st2))))"

text \<open>\<open>pump_outputs\<close> also returns the crash hints of the core.\<close>

fun pump_outputs ::
  "('c, 't, 'p, 'r, 'q, 'd, 'v, 'm, 'st, 'f) env \<Rightarrow> proc_id \<Rightarrow> 't core_output list
     \<Rightarrow> ('c, 'd, 'v, 'st, 'w) driver_state
     \<Rightarrow> ('t, 'm, 'a, 'w) driver_effect list \<times> proc_id list
        \<times> ('c, 'd, 'v, 'st, 'w) driver_state" where
  "pump_outputs E i [] st = ([], [], st)"
| "pump_outputs E i (out # outs) st =
     (case out of
        ForwardTrain t \<Rightarrow>
          (case pump_outputs E i outs st of (ef, vs, st') \<Rightarrow> (SendTrain t # ef, vs, st'))
      | Deliver ps \<Rightarrow>
          (case pump_payloads E i ps st of
             (ef, st1) \<Rightarrow>
               (case pump_outputs E i outs st1 of (ef', vs, st2) \<Rightarrow> (ef @ ef', vs, st2)))
      | DeclareCrash victim \<Rightarrow>
          (case pump_outputs E i outs st of (ef, vs, st') \<Rightarrow> (ef, victim # vs, st')))"

subsection \<open>Client writes\<close>

datatype write_action = AImmediate reply | ABroadcast "bytes list" "reply option"

definition not_replicable :: reply where
  "not_replicable = reply_error ''ERR command is not replicable as a write''"

definition write_action ::
  "'f float_ops \<Rightarrow> (command \<Rightarrow> reply) \<Rightarrow> bytes list \<Rightarrow> write_action" where
  "write_action F query argv =
     (case parse argv of
        None \<Rightarrow> AImmediate (reply_error ''ERR empty command'')
      | Some cmd \<Rightarrow>
          (case classify (cmd_name cmd) of
             Write \<Rightarrow> ABroadcast argv None
           | NonDeterministic \<Rightarrow>
               (case resolve F cmd query of
                  RImmediate r \<Rightarrow> AImmediate r
                | RBroadcast argv' resolved \<Rightarrow> ABroadcast argv' (Some resolved))
           | _ \<Rightarrow> AImmediate not_replicable))"

definition handle_write_request ::
  "('c, 't, 'p, 'r, 'q, 'd, 'v, 'm, 'st, 'f) env \<Rightarrow> proc_id \<Rightarrow> bytes list \<Rightarrow> 'w
     \<Rightarrow> ('c, 'd, 'v, 'st, 'w) driver_state
     \<Rightarrow> ('t, 'm, 'a, 'w) driver_effect list \<times> ('c, 'd, 'v, 'st, 'w) driver_state" where
  "handle_write_request E i argv tx st =
     (case write_action (e_float E) (\<lambda>c. st_query (e_store E) c (d_store st)) argv of
        AImmediate reply \<Rightarrow> ([ReplyTo tx reply], st)
      | ABroadcast argv' resolved \<Rightarrow>
          (let rid = d_next_rid st;
               op0 = write_op_new i rid argv';
               op = (case resolved of Some r \<Rightarrow> with_client_reply op0 r | None \<Rightarrow> op0) in
           case enc_op (e_wire E) op of
             Inl e \<Rightarrow>
               ([ReplyTo tx (reply_error (''ERR failed to encode write for replication: '' @ e))], st)
           | Inr bs \<Rightarrow>
               (let st1 = st\<lparr>d_next_rid := rid + 1, d_pending := bt_insert rid tx (d_pending st)\<rparr> in
                case core_step (e_core E) (LocalBroadcast bs) (d_core st1) of
                  (outs, core') \<Rightarrow>
                    (case pump_outputs E i outs (st1\<lparr>d_core := core'\<rparr>) of
                       (ef, _, st2) \<Rightarrow> (ef, st2)))))"

subsection \<open>Membership\<close>

text \<open>The search for the next alive node: \<open>None\<close> where it never ends, or divides by zero.\<close>

partial_function (option) next_alive_loop :: "nat \<Rightarrow> nat \<Rightarrow> nat btree_set \<Rightarrow> nat \<Rightarrow> nat option" where
  "next_alive_loop me n dead j =
     (if bs_contains j dead \<and> j \<noteq> me then next_alive_loop me n dead ((j + 1) mod n) else Some j)"

lemma next_alive_loop_code [code]:
  "next_alive_loop me n dead j =
     (case bs_contains j dead \<and> j \<noteq> me of
        True \<Rightarrow> next_alive_loop me n dead ((j + 1) mod n) | False \<Rightarrow> Some j)"
  by (subst next_alive_loop.simps) (auto split: bool.splits)

definition next_alive :: "nat \<Rightarrow> nat \<Rightarrow> nat btree_set \<Rightarrow> nat option" where
  "next_alive me n dead =
     (if n = 0 then None else next_alive_loop me n dead ((me + 1) mod n))"

definition index_addr :: "'a list \<Rightarrow> nat \<Rightarrow> 'a option" where
  "index_addr addrs j = (if j < length addrs then Some (addrs ! j) else None)"

text \<open>The common end of \<open>exclude\<close> and \<open>readmit\<close>: point at the next alive node if it changed.\<close>

definition retarget ::
  "proc_id \<Rightarrow> nat \<Rightarrow> 'a list \<Rightarrow> ('c, 'd, 'v, 'st, 'w) driver_state
     \<Rightarrow> (('t, 'm, 'a, 'w) driver_effect list \<times> ('c, 'd, 'v, 'st, 'w) driver_state) option" where
  "retarget i n addrs st =
     do {
       ns \<leftarrow> next_alive (unat i) n (d_dead st);
       if ns \<noteq> d_succ st then do {
         a \<leftarrow> index_addr addrs ns;
         Some ([Retarget a], st\<lparr>d_succ := ns\<rparr>)
       } else Some ([], st)
     }"

definition exclude ::
  "('c, 't, 'p, 'r, 'q, 'd, 'v, 'm, 'st, 'f) env \<Rightarrow> nat \<Rightarrow> proc_id \<Rightarrow> nat \<Rightarrow> 'a list
     \<Rightarrow> ('c, 'd, 'v, 'st, 'w) driver_state
     \<Rightarrow> (('t, 'm, 'a, 'w) driver_effect list \<times> ('c, 'd, 'v, 'st, 'w) driver_state) option" where
  "exclude E victim i n addrs st =
     (if bs_contains victim (d_dead st) then Some ([], st)
      else retarget i n addrs
        (st\<lparr>d_dead := bs_insert victim (d_dead st),
            d_core := core_confirm_crash (e_core E) (of_nat victim)
                        (core_set_frozen (e_core E) True (d_core st))\<rparr>))"

definition readmit ::
  "('c, 't, 'p, 'r, 'q, 'd, 'v, 'm, 'st, 'f) env \<Rightarrow> nat \<Rightarrow> proc_id \<Rightarrow> nat \<Rightarrow> 'a list
     \<Rightarrow> ('c, 'd, 'v, 'st, 'w) driver_state
     \<Rightarrow> (('t, 'm, 'a, 'w) driver_effect list \<times> ('c, 'd, 'v, 'st, 'w) driver_state) option" where
  "readmit E rejoiner i n addrs st =
     (if \<not> bs_contains rejoiner (d_dead st) then Some ([], st)
      else retarget i n addrs
        (st\<lparr>d_dead := bs_remove rejoiner (d_dead st),
            d_core := core_readmit_node (e_core E) (of_nat rejoiner)
                        (core_set_frozen (e_core E) True (d_core st))\<rparr>))"

fun execute ::
  "('c, 't, 'p, 'r, 'q, 'd, 'v, 'm, 'st, 'f) env \<Rightarrow> ('m, 'q) vc_action list \<Rightarrow> proc_id
     \<Rightarrow> ('c, 'd, 'v, 'st, 'w) driver_state
     \<Rightarrow> ('t, 'm, 'a, 'w) driver_effect list \<times> ('c, 'd, 'v, 'st, 'w) driver_state" where
  "execute E [] i st = ([], st)"
| "execute E (VcSend msg # as) i st =
     (case execute E as i st of (ef, st') \<Rightarrow> (SendVc msg # ef, st'))"
| "execute E (VcApply plan # as) i st =
     (case core_apply_recovery (e_core E) plan (d_core st) of
        (outs, core1) \<Rightarrow>
          (case pump_outputs E i outs (st\<lparr>d_core := core1\<rparr>) of
             (ef, _, st1) \<Rightarrow>
               (case (if unat i < e_num_trains E then
                        (case core_reissue_train (e_core E) (d_core st1) of
                           (t, core2) \<Rightarrow> ([SendTrain t], st1\<lparr>d_core := core2\<rparr>))
                      else ([], st1)) of
                  (ef1, st2) \<Rightarrow>
                    (case execute E as i st2 of (ef2, st3) \<Rightarrow> (ef @ ef1 @ ef2, st3)))))"

definition handle_crash_confirmed ::
  "('c, 't, 'p, 'r, 'q, 'd, 'v, 'm, 'st, 'f) env \<Rightarrow> proc_id \<Rightarrow> proc_id \<Rightarrow> nat \<Rightarrow> 'a list
     \<Rightarrow> ('c, 'd, 'v, 'st, 'w) driver_state
     \<Rightarrow> (('t, 'm, 'a, 'w) driver_effect list \<times> ('c, 'd, 'v, 'st, 'w) driver_state) option" where
  "handle_crash_confirmed E confirmed i n addrs st =
     do {
       (ef, st1) \<leftarrow> exclude E (unat confirmed) i n addrs st;
       (case core_recovery_report (e_core E) (d_core st1) of
          (report, core') \<Rightarrow>
            (case vc_on_confirm (e_vc E) confirmed report (d_vc st1) of
               (acts, vc') \<Rightarrow>
                 (case execute E acts i (st1\<lparr>d_core := core', d_vc := vc'\<rparr>) of
                    (ef', st2) \<Rightarrow> Some (ef @ ef', st2))))
     }"

fun process_hints ::
  "('c, 't, 'p, 'r, 'q, 'd, 'v, 'm, 'st, 'f) env \<Rightarrow> proc_id list \<Rightarrow> proc_id \<Rightarrow> nat \<Rightarrow> bool
     \<Rightarrow> 'a list \<Rightarrow> ('c, 'd, 'v, 'st, 'w) driver_state
     \<Rightarrow> (('t, 'm, 'a, 'w) driver_effect list \<times> ('c, 'd, 'v, 'st, 'w) driver_state) option" where
  "process_hints E [] i n rc addrs st = Some ([], st)"
| "process_hints E (victim # vs) i n rc addrs st =
     (if det_is_confirmed (e_det E) victim (d_detector st) then process_hints E vs i n rc addrs st
      else
        (case det_gap_hint (e_det E) victim (d_detector st) of
           (None, det') \<Rightarrow> process_hints E vs i n rc addrs (st\<lparr>d_detector := det'\<rparr>)
         | (Some confirmed, det') \<Rightarrow>
             do {
               (ef, st1) \<leftarrow>
                 (if rc then handle_crash_confirmed E confirmed i n addrs (st\<lparr>d_detector := det'\<rparr>)
                  else Some ([], st\<lparr>d_detector := det',
                    d_core := core_confirm_crash (e_core E) confirmed (d_core st)\<rparr>));
               (ef', st2) \<leftarrow> process_hints E vs i n rc addrs st1;
               Some (ef @ ef', st2)
             }))"

definition handle_vc ::
  "('c, 't, 'p, 'r, 'q, 'd, 'v, 'm, 'st, 'f) env \<Rightarrow> 'm \<Rightarrow> proc_id \<Rightarrow> nat \<Rightarrow> 'a list
     \<Rightarrow> ('c, 'd, 'v, 'st, 'w) driver_state
     \<Rightarrow> (('t, 'm, 'a, 'w) driver_effect list \<times> ('c, 'd, 'v, 'st, 'w) driver_state) option" where
  "handle_vc E msg i n addrs st =
     (case msg_rejoiner (e_vc E) msg of
        Some rejoiner \<Rightarrow>
          do {
            (ef, st1) \<leftarrow> readmit E (unat rejoiner) i n addrs st;
            (case core_recovery_report (e_core E) (d_core st1) of
               (report, core') \<Rightarrow>
                 (case (case msg_kind (e_vc E) msg of
                          ReAdmitGather \<Rightarrow> vc_on_readmit_gather (e_vc E) msg report (d_vc st1)
                        | ReAdmitInstall \<Rightarrow> vc_on_readmit_install (e_vc E) msg (d_vc st1)
                        | _ \<Rightarrow> ([], d_vc st1)) of
                    (acts, vc') \<Rightarrow>
                      (case execute E acts i (st1\<lparr>d_core := core', d_vc := vc'\<rparr>) of
                         (ef', st2) \<Rightarrow> Some (ef @ ef', st2))))
          }
      | None \<Rightarrow>
          (case msg_victim (e_vc E) msg of
             None \<Rightarrow> Some ([], st)
           | Some victim \<Rightarrow>
               do {
                 (ef, st1) \<leftarrow> exclude E (unat victim) i n addrs st;
                 (case core_recovery_report (e_core E) (d_core st1) of
                    (report, core') \<Rightarrow>
                      (case (case msg_kind (e_vc E) msg of
                               Gather \<Rightarrow> vc_on_gather (e_vc E) msg report (d_vc st1)
                             | Install \<Rightarrow> vc_on_install (e_vc E) msg (d_vc st1)
                             | _ \<Rightarrow> ([], d_vc st1)) of
                         (acts, vc') \<Rightarrow>
                           (case execute E acts i (st1\<lparr>d_core := core', d_vc := vc'\<rparr>) of
                              (ef', st2) \<Rightarrow> Some (ef @ ef', st2))))
               }))"

end
