(* ===== verification/Driver_Loop.thy ===== *)
theory Driver_Loop
  imports Driver
begin

section \<open>The driver loop: start, one event, a run\<close>

text \<open>
  \<open>driver_loop\<close> and \<open>serve_state_transfer\<close> of \<open>src/crates/trains-valkey/src/proxy.rs\<close>.
  \<open>driver_init\<close> is what runs before the loop, for a cold start or a promotion;
  \<open>driver_step\<close> is one arm of the \<open>select\<close>, with the flag that says whether the loop goes on;
  \<open>driver_run\<close> is a sequence of events. An arm that is disabled without reconfiguration leaves
  the state as it is.
\<close>

definition driver_snapshot ::
  "('c, 't, 'p, 'r, 'q, 'd, 'v, 'm, 'st, 'f) env \<Rightarrow> ('c, 'd, 'v, 'st, 'w) driver_state
     \<Rightarrow> 'p replica_snapshot" where
  "driver_snapshot E st =
     \<lparr>sn_version = SNAPSHOT_VERSION, sn_protocol = core_export (e_core E) (d_core st),
      sn_store = st_export (e_store E) (d_store st), sn_dedup = d_dedup st,
      sn_delivered_index = head_index (d_log st),
      sn_view = Some \<lparr>vi_installed_view = vc_installed_view (e_vc E) (d_vc st),
                      vi_dead = map of_nat (d_dead st)\<rparr>\<rparr>"

definition serve_state_transfer ::
  "('c, 't, 'p, 'r, 'q, 'd, 'v, 'm, 'st, 'f) env \<Rightarrow> u64 \<Rightarrow> ('c, 'd, 'v, 'st, 'w) driver_state
     \<Rightarrow> bytes \<times> bytes list" where
  "serve_state_transfer E have_idx st =
     build_state_transfer_lazy (e_wire E) have_idx (d_log st) (\<lambda>_. driver_snapshot E st)"

text \<open>The state before a promotion seed is taken in.\<close>

definition driver_new ::
  "('c, 't, 'p, 'r, 'q, 'd, 'v, 'm, 'st, 'f) env \<Rightarrow> 'a driver_cfg \<Rightarrow> 'c \<Rightarrow> 'st
     \<Rightarrow> ('c, 'd, 'v, 'st, 'w) driver_state" where
  "driver_new E cfg core store =
     \<lparr>d_core = core, d_store = store, d_pending = [], d_next_rid = 0, d_dedup = dedup_new,
      d_log = log_default, d_detector = det_new (e_det E) STRIKE_THRESHOLD DISCONNECT_WEIGHT,
      d_vc = vc_new (e_vc E) (cfg_id cfg) (ring_n E cfg), d_dead = [],
      d_succ = (unat (cfg_id cfg) + 1) mod ring_n E cfg\<rparr>"

definition adopt_seed ::
  "('c, 't, 'p, 'r, 'q, 'd, 'v, 'm, 'st, 'f) env \<Rightarrow> 'a driver_cfg \<Rightarrow> 'p promote_seed
     \<Rightarrow> ('c, 'd, 'v, 'st, 'w) driver_state \<Rightarrow> ('c, 'd, 'v, 'st, 'w) driver_state option" where
  "adopt_seed E cfg seed st =
     (let others = filter (\<lambda>d. d \<noteq> cfg_id cfg) (vi_dead (seed_view seed));
          dead_others = fold bs_insert (map unat others) [] in
      do {
        ns \<leftarrow> next_alive (unat (cfg_id cfg)) (ring_n E cfg) dead_others;
        Some (st\<lparr>d_dedup := seed_dedup seed, d_log := seed_log seed,
          d_core := core_readmit_node (e_core E) (cfg_id cfg)
                      (core_import (e_core E) (seed_protocol seed) (d_core st)),
          d_vc := vc_adopt_view (e_vc E) (vi_installed_view (seed_view seed)) others (d_vc st),
          d_succ := ns, d_dead := dead_others\<rparr>)
      })"

definition request_readmission ::
  "('c, 't, 'p, 'r, 'q, 'd, 'v, 'm, 'st, 'f) env \<Rightarrow> proc_id \<Rightarrow> ('c, 'd, 'v, 'st, 'w) driver_state
     \<Rightarrow> ('t, 'm, 'a, 'w) driver_effect list \<times> ('c, 'd, 'v, 'st, 'w) driver_state" where
  "request_readmission E i st =
     (case core_recovery_report (e_core E) (d_core st) of
        (report, core') \<Rightarrow>
          (case vc_on_request_readmit (e_vc E) report (d_vc st) of
             (acts, vc') \<Rightarrow> execute E acts i (st\<lparr>d_core := core', d_vc := vc'\<rparr>)))"

definition driver_init ::
  "('c, 't, 'p, 'r, 'q, 'd, 'v, 'm, 'st, 'f) env \<Rightarrow> 'a driver_cfg \<Rightarrow> 'c \<Rightarrow> 'st
     \<Rightarrow> 'p promote_seed option
     \<Rightarrow> (('t, 'm, 'a, 'w) driver_effect list \<times> ('c, 'd, 'v, 'st, 'w) driver_state) option" where
  "driver_init E cfg core store promote =
     (if ring_n E cfg = 0 then None
      else
        (case promote of
           Some seed \<Rightarrow>
             do {
               st \<leftarrow> adopt_seed E cfg seed (driver_new E cfg core store);
               Some (request_readmission E (cfg_id cfg) st)
             }
         | None \<Rightarrow>
             (let st = driver_new E cfg core store in
              if cfg_issue_initial cfg then
                (case core_issue_initial (e_core E) (d_core st) of
                   (t, core') \<Rightarrow> Some ([SendTrain t], st\<lparr>d_core := core'\<rparr>))
              else Some ([], st))))"

fun position :: "'a \<Rightarrow> 'a list \<Rightarrow> nat option" where
  "position a [] = None"
| "position a (b # bs) = (if b = a then Some 0 else map_option Suc (position a bs))"

text \<open>A core step, its outputs pumped and its crash hints fed to the detector.\<close>

definition core_turn ::
  "('c, 't, 'p, 'r, 'q, 'd, 'v, 'm, 'st, 'f) env \<Rightarrow> 'a driver_cfg \<Rightarrow> 't core_input
     \<Rightarrow> ('c, 'd, 'v, 'st, 'w) driver_state
     \<Rightarrow> (('t, 'm, 'a, 'w) driver_effect list \<times> ('c, 'd, 'v, 'st, 'w) driver_state) option" where
  "core_turn E cfg inp st =
     (case core_step (e_core E) inp (d_core st) of
        (outs, core') \<Rightarrow>
          (case pump_outputs E (cfg_id cfg) outs (st\<lparr>d_core := core'\<rparr>) of
             (ef, victims, st1) \<Rightarrow>
               do {
                 (ef', st2) \<leftarrow> process_hints E victims (cfg_id cfg) (ring_n E cfg) (reconfig cfg)
                                (cfg_ring_addrs cfg) st1;
                 Some (ef @ ef', st2)
               }))"

definition driver_step ::
  "('c, 't, 'p, 'r, 'q, 'd, 'v, 'm, 'st, 'f) env \<Rightarrow> 'a driver_cfg \<Rightarrow> ('t, 'm, 'a, 'w) driver_event
     \<Rightarrow> ('c, 'd, 'v, 'st, 'w) driver_state
     \<Rightarrow> (('t, 'm, 'a, 'w) driver_effect list \<times> ('c, 'd, 'v, 'st, 'w) driver_state \<times> bool) option"
  where
  "driver_step E cfg ev st =
     (let i = cfg_id cfg; n = ring_n E cfg; addrs = cfg_ring_addrs cfg;
          go = map_option (\<lambda>(ef, st'). (ef, st', True)) in
      case ev of
        EvWrite argv tx \<Rightarrow> go (Some (handle_write_request E i argv tx st))
      | EvTrain t \<Rightarrow>
          go (core_turn E cfg (TrainReceived t)
            (st\<lparr>d_detector := det_note_alive (e_det E) (train_issuer (e_core E) t) (d_detector st)\<rparr>))
      | EvVc msg \<Rightarrow> go (if reconfig cfg then handle_vc E msg i n addrs st else Some ([], st))
      | EvUnreachable addr \<Rightarrow>
          go (if \<not> reconfig cfg then Some ([], st)
              else
                (case position addr addrs of
                   None \<Rightarrow> Some ([], st)
                 | Some victim \<Rightarrow>
                     if bs_contains victim (d_dead st) then Some ([], st)
                     else
                       (case det_disconnect (e_det E) (of_nat victim) (d_detector st) of
                          (None, det') \<Rightarrow> Some ([], st\<lparr>d_detector := det'\<rparr>)
                        | (Some confirmed, det') \<Rightarrow>
                            handle_crash_confirmed E confirmed i n addrs
                              (st\<lparr>d_detector := det'\<rparr>))))
      | EvTick \<Rightarrow> go (core_turn E cfg CoreTick st)
      | EvSnapshot have_idx w \<Rightarrow>
          (case serve_state_transfer E have_idx st of
             (snapshot, tail) \<Rightarrow> Some ([AnswerTransfer w snapshot tail], st, True))
      | EvCrash \<Rightarrow> Some ([AbortRing], st, False)
      | EvConfirmCrash victim \<Rightarrow>
          go (if reconfig cfg then handle_crash_confirmed E victim i n addrs st else Some ([], st))
      | EvClosed \<Rightarrow> Some ([], st, False))"

fun driver_run ::
  "('c, 't, 'p, 'r, 'q, 'd, 'v, 'm, 'st, 'f) env \<Rightarrow> 'a driver_cfg \<Rightarrow> ('t, 'm, 'a, 'w) driver_event list
     \<Rightarrow> ('c, 'd, 'v, 'st, 'w) driver_state
     \<Rightarrow> (('t, 'm, 'a, 'w) driver_effect list \<times> ('c, 'd, 'v, 'st, 'w) driver_state \<times> bool) option"
  where
  "driver_run E cfg [] st = Some ([], st, True)"
| "driver_run E cfg (ev # evs) st =
     (case driver_step E cfg ev st of
        None \<Rightarrow> None
      | Some (ef, st1, False) \<Rightarrow> Some (ef, st1, False)
      | Some (ef, st1, True) \<Rightarrow>
          (case driver_run E cfg evs st1 of
             None \<Rightarrow> None
           | Some (ef', st2, b) \<Rightarrow> Some (ef @ ef', st2, b)))"

end
