(* ===== verification/Driver_Laws.thy ===== *)
theory Driver_Laws
  imports Driver_Loop Replica_Claims
begin

section \<open>Properties of the driver\<close>

text \<open>
  The driver's own apply path does what the replica's does (\<open>pump_refines\<close>), clients are woken
  by what was applied (\<open>wake\<close>), the successor search finds the nearest live node, and the
  membership operations are idempotent and inverse. The last part is about whole runs: the
  handlers always return, and the successor is always the nearest live node.
\<close>

subsection \<open>The two apply paths agree\<close>

text \<open>What a list of applied writes owes the waiting clients of node \<open>i\<close>.\<close>

fun wake ::
  "proc_id \<Rightarrow> (u64, 'w) btree_map \<Rightarrow> applied list \<Rightarrow> ('w \<times> reply) list \<times> (u64, 'w) btree_map" where
  "wake i pend [] = ([], pend)"
| "wake i pend (a # as) =
     (case (if ap_origin a = i then bt_get pend (ap_request_id a) else None) of
        None \<Rightarrow> wake i pend as
      | Some tx \<Rightarrow>
          (case wake i (bt_remove (ap_request_id a) pend) as of
             (rs, pend') \<Rightarrow> ((tx, ap_reply a) # rs, pend')))"

definition replies_of :: "('t, 'm, 'a, 'w) driver_effect list \<Rightarrow> ('w \<times> reply) list" where
  "replies_of ef = List.map_filter (\<lambda>e. case e of ReplyTo w r \<Rightarrow> Some (w, r) | _ \<Rightarrow> None) ef"

definition trains_of :: "('t, 'm, 'a, 'w) driver_effect list \<Rightarrow> 't list" where
  "trains_of ef = List.map_filter (\<lambda>e. case e of SendTrain t \<Rightarrow> Some t | _ \<Rightarrow> None) ef"

lemma effect_filters [simp]:
  "replies_of [] = []" "trains_of [] = []"
  "replies_of (ef @ ef') = replies_of ef @ replies_of ef'"
  "trains_of (ef @ ef') = trains_of ef @ trains_of ef'"
  "replies_of (ReplyTo w r # ef) = (w, r) # replies_of ef" "trains_of (ReplyTo w r # ef) = trains_of ef"
  "replies_of (SendTrain t # ef) = replies_of ef" "trains_of (SendTrain t # ef) = t # trains_of ef"
  by (simp_all add: replies_of_def trains_of_def List.map_filter_def)

lemma wake_append:
  "wake i pend (as @ bs) =
     (case wake i pend as of (rs, p1) \<Rightarrow> (case wake i p1 bs of (rs', p2) \<Rightarrow> (rs @ rs', p2)))"
  by (induction i pend as rule: wake.induct) (auto split: option.splits prod.splits)

text \<open>A replica and a driver state with the same replicated part.\<close>

definition same_app :: "('c, 'st) replica \<Rightarrow> ('c2, 'd, 'v, 'st, 'w) driver_state \<Rightarrow> bool" where
  "same_app r st \<longleftrightarrow> app_of r = d_app st"

lemma pump_op_refines:
  fixes st :: "('c, 'd, 'v, 'st, 'w) driver_state" and ef :: "('t, 'm, 'a, 'w) driver_effect list"
  assumes "same_app r st" "apply_delivered_op (e_store E) op r = (res, r')"
    and "pump_op E i op st = (ef, st')"
  shows "same_app r' st' \<and> trains_of ef = []
    \<and> wake i (d_pending st) (case res of Some a \<Rightarrow> [a] | None \<Rightarrow> []) = (replies_of ef, d_pending st')"
  using assms
  by (auto simp: same_app_def app_of_def d_app_def pump_op_def apply_delivered_op_def
      apply_delivered_op_parts_def empty_argv_reply_def Let_def
      split: prod.splits bool.splits option.splits if_splits)

lemma pump_payloads_refines:
  fixes st :: "('c, 'd, 'v, 'st, 'w) driver_state" and ef :: "('t, 'm, 'a, 'w) driver_effect list"
  assumes "same_app r st" "absorb_payloads (e_wire E) (e_store E) ps r = (as, r')"
    and "pump_payloads E i ps st = (ef, st')"
  shows "same_app r' st' \<and> trains_of ef = [] \<and> wake i (d_pending st) as = (replies_of ef, d_pending st')"
  using assms
proof (induction ps arbitrary: r st as ef)
  case (Cons p ps)
  show ?case
  proof (cases "dec_op (e_wire E) (pl_data p)")
    case None
    with Cons show ?thesis by simp
  next
    case (Some op)
    obtain res r1 where r1: "apply_delivered_op (e_store E) op r = (res, r1)" by fastforce
    obtain ef1 :: "('t, 'm, 'a, 'w) driver_effect list" and st1 where
      s1: "pump_op E i op st = (ef1, st1)" by fastforce
    obtain as2 where a2: "absorb_payloads (e_wire E) (e_store E) ps r1 = (as2, r')"
      using Cons.prems(2) Some r1 by (auto split: prod.splits)
    obtain ef2 :: "('t, 'm, 'a, 'w) driver_effect list" where
      e2: "pump_payloads E i ps st1 = (ef2, st')"
      using Cons.prems(3) Some s1 by (auto split: prod.splits)
    have as: "as = (case res of Some a \<Rightarrow> [a] | None \<Rightarrow> []) @ as2" and ef: "ef = ef1 @ ef2"
      using Cons.prems(2,3) Some r1 s1 a2 e2 by (auto split: option.splits)
    note h = pump_op_refines [OF Cons.prems(1) r1 s1]
    from h have "same_app r1 st1" by simp
    from h Cons.IH [OF this a2 e2] show ?thesis
      unfolding as ef wake_append by simp
  qed
qed simp

definition crash_hints :: "'t core_output list \<Rightarrow> proc_id list" where
  "crash_hints outs = List.map_filter (\<lambda>out. case out of DeclareCrash v \<Rightarrow> Some v | _ \<Rightarrow> None) outs"

lemma pump_outputs_refines:
  fixes st :: "('c, 'd, 'v, 'st, 'w) driver_state" and ef :: "('t, 'm, 'a, 'w) driver_effect list"
  assumes "same_app r st" "absorb (e_wire E) (e_store E) outs r = (stp, r')"
    and "pump_outputs E i outs st = (ef, vs, st')"
  shows "same_app r' st' \<and> trains_of ef = st_forward stp \<and> vs = crash_hints outs
    \<and> wake i (d_pending st) (st_applied stp) = (replies_of ef, d_pending st')"
  using assms
proof (induction outs arbitrary: r st stp ef vs)
  case Nil
  then show ?case by (auto simp: crash_hints_def List.map_filter_def)
next
  case (Cons out outs)
  show ?case
  proof (cases out)
    case (ForwardTrain t)
    obtain stp1 where a: "absorb (e_wire E) (e_store E) outs r = (stp1, r')"
        "stp = stp1\<lparr>st_forward := t # st_forward stp1\<rparr>"
      using Cons.prems(2) ForwardTrain by (auto split: prod.splits)
    obtain ef1 :: "('t, 'm, 'a, 'w) driver_effect list" where
      p: "pump_outputs E i outs st = (ef1, vs, st')" "ef = SendTrain t # ef1"
      using Cons.prems(3) ForwardTrain by (auto split: prod.splits)
    from Cons.IH [OF Cons.prems(1) a(1) p(1)] show ?thesis
      using ForwardTrain a(2) p(2) by (simp add: crash_hints_def List.map_filter_def)
  next
    case (DeclareCrash v)
    obtain vs1 where p: "pump_outputs E i outs st = (ef, vs1, st')" "vs = v # vs1"
      using Cons.prems(3) DeclareCrash by (auto split: prod.splits)
    have a: "absorb (e_wire E) (e_store E) outs r = (stp, r')"
      using Cons.prems(2) DeclareCrash by simp
    from Cons.IH [OF Cons.prems(1) a p(1)] show ?thesis
      using DeclareCrash p(2) by (simp add: crash_hints_def List.map_filter_def)
  next
    case (Deliver ps)
    obtain as r1 where a: "absorb_payloads (e_wire E) (e_store E) ps r = (as, r1)" by fastforce
    obtain ef1 :: "('t, 'm, 'a, 'w) driver_effect list" and st1 where
      p: "pump_payloads E i ps st = (ef1, st1)" by fastforce
    obtain stp1 where a2: "absorb (e_wire E) (e_store E) outs r1 = (stp1, r')"
        "stp = stp1\<lparr>st_applied := as @ st_applied stp1\<rparr>"
      using Cons.prems(2) Deliver a by (auto split: prod.splits)
    obtain ef2 :: "('t, 'm, 'a, 'w) driver_effect list" where
      p2: "pump_outputs E i outs st1 = (ef2, vs, st')" "ef = ef1 @ ef2"
      using Cons.prems(3) Deliver p by (auto split: prod.splits)
    note h = pump_payloads_refines [OF Cons.prems(1) a p]
    from h have "same_app r1 st1" by simp
    from h Cons.IH [OF this a2(1) p2(1)] show ?thesis
      using Deliver a2(2) p2(2)
      by (simp add: crash_hints_def List.map_filter_def wake_append)
  qed
qed

subsection \<open>The next alive node\<close>

lemma next_alive_loop_spec:
  assumes "me < n" "0 < k" "k \<le> n"
  shows "\<exists>m. k \<le> m \<and> m \<le> n \<and> next_alive_loop me n dead ((me + k) mod n) = Some ((me + m) mod n)
    \<and> (m = n \<or> (me + m) mod n \<notin> set dead) \<and> (\<forall>l. k \<le> l \<and> l < m \<longrightarrow> (me + l) mod n \<in> set dead)"
  using assms
proof (induction "n - k" arbitrary: k rule: less_induct)
  case less
  let ?j = "(me + k) mod n"
  show ?case
  proof (cases "?j \<in> set dead \<and> k < n")
    case True
    have "?j \<noteq> me"
      using True less.prems by (cases "me + k < n") (auto simp: le_mod_geq)
    then have step: "next_alive_loop me n dead ?j = next_alive_loop me n dead ((me + Suc k) mod n)"
      using True by (subst next_alive_loop.simps) (simp add: bs_contains_def mod_Suc_eq)
    have lt: "n - Suc k < n - k"
      using True by (simp add: diff_less_mono2)
    obtain m where "Suc k \<le> m" "m \<le> n"
      "next_alive_loop me n dead ((me + Suc k) mod n) = Some ((me + m) mod n)"
      "m = n \<or> (me + m) mod n \<notin> set dead"
      "\<forall>l. Suc k \<le> l \<and> l < m \<longrightarrow> (me + l) mod n \<in> set dead"
      using less.hyps [OF lt less.prems(1)] True by auto
    then show ?thesis
      using True step by (intro exI [of _ m]) (auto simp: Suc_le_eq dest: le_neq_implies_less)
  next
    case False
    have "?j = me" if "k = n" using that less.prems(1) by simp
    then have "next_alive_loop me n dead ?j = Some ?j"
      using False less.prems(3)
      by (subst next_alive_loop.simps) (auto simp: bs_contains_def)
    then show ?thesis
      using False less.prems by (intro exI [of _ k]) auto
  qed
qed

lemma next_alive_nearest:
  assumes "me < n"
  shows "\<exists>m. 0 < m \<and> m \<le> n \<and> next_alive me n dead = Some ((me + m) mod n)
    \<and> (m = n \<or> (me + m) mod n \<notin> set dead) \<and> (\<forall>l. 0 < l \<and> l < m \<longrightarrow> (me + l) mod n \<in> set dead)"
  using next_alive_loop_spec [OF assms, of 1 dead] assms
  by (auto simp: next_alive_def Suc_le_eq)

lemma next_alive_total: "me < n \<Longrightarrow> \<exists>j < n. next_alive me n dead = Some j"
  using next_alive_nearest [of me n dead] by (metis mod_less_divisor not_less0 gr0I)

subsection \<open>Membership invariants\<close>

text \<open>
  The successor is the nearest live node and a ring address. \<open>driver_ok\<close> holds of a node
  whose id is a position of the ring and whose address list, when there is one, has the length
  of the ring.
\<close>

definition cfg_ok ::
  "('c, 't, 'p, 'r, 'q, 'd, 'v, 'm, 'st, 'f) env \<Rightarrow> 'a driver_cfg \<Rightarrow> bool" where
  "cfg_ok E cfg \<longleftrightarrow> unat (cfg_id cfg) < ring_n E cfg"

definition member_ok :: "proc_id \<Rightarrow> nat \<Rightarrow> ('c, 'd, 'v, 'st, 'w) driver_state \<Rightarrow> bool" where
  "member_ok i n st \<longleftrightarrow> bs_ok (d_dead st) \<and> next_alive (unat i) n (d_dead st) = Some (d_succ st)"

lemma pump_op_member:
  "pump_op E i op st = (ef, st') \<Longrightarrow> d_dead st' = d_dead st \<and> d_succ st' = d_succ st"
  by (auto simp: pump_op_def Let_def split: prod.splits bool.splits option.splits if_splits)

lemma pump_payloads_member:
  "pump_payloads E i ps st = (ef, st') \<Longrightarrow> d_dead st' = d_dead st \<and> d_succ st' = d_succ st"
proof (induction ps arbitrary: st ef)
  case (Cons p ps)
  then show ?case
    by (fastforce split: option.splits prod.splits dest: pump_op_member)
qed simp

lemma pump_outputs_member:
  "pump_outputs E i outs st = (ef, vs, st') \<Longrightarrow> d_dead st' = d_dead st \<and> d_succ st' = d_succ st"
proof (induction outs arbitrary: st ef vs)
  case (Cons out outs)
  show ?case
  proof (cases out)
    case (Deliver ps)
    with Cons show ?thesis
      by (fastforce split: prod.splits dest: pump_payloads_member)
  qed (use Cons in \<open>auto split: prod.splits\<close>)
qed simp

lemma execute_member:
  "execute E as i st = (ef, st') \<Longrightarrow> d_dead st' = d_dead st \<and> d_succ st' = d_succ st"
proof (induction as arbitrary: st ef)
  case (Cons a as)
  show ?case
  proof (cases a)
    case (VcSend msg)
    with Cons show ?thesis by (auto split: prod.splits)
  next
    case (VcApply plan)
    with Cons show ?thesis
      by (auto split: prod.splits if_splits dest!: pump_outputs_member)
  qed
qed simp

lemma execute_parts [driver_simps]:
  "d_dead (snd (execute E as i st)) = d_dead st" "d_succ (snd (execute E as i st)) = d_succ st"
  by (rule conjunct1 [OF execute_member [OF prod.collapse [symmetric]]]
      conjunct2 [OF execute_member [OF prod.collapse [symmetric]]])+

text \<open>A result that is there, with a state whose membership is in order and whose dead set is \<open>D\<close>.\<close>

definition member_result ::
  "proc_id \<Rightarrow> nat \<Rightarrow> nat set
     \<Rightarrow> (('t, 'm, 'a, 'w) driver_effect list \<times> ('c, 'd, 'v, 'st, 'w) driver_state) option \<Rightarrow> bool" where
  "member_result i n D res \<longleftrightarrow>
     (\<exists>ef st'. res = Some (ef, st') \<and> member_ok i n st' \<and> set (d_dead st') = D)"

lemma retarget_ok:
  assumes "unat i < n" "length addrs = n" "bs_ok (d_dead st)"
  shows "member_result i n (set (d_dead st)) (retarget i n addrs st)"
  using next_alive_total [OF assms(1), of "d_dead st"] assms
  by (auto simp: retarget_def index_addr_def member_ok_def member_result_def)

lemma exclude_ok:
  assumes "unat i < n" "length addrs = n" "member_ok i n st"
  shows "member_result i n (insert v (set (d_dead st))) (exclude E v i n addrs st)"
proof (cases "bs_contains v (d_dead st)")
  case True
  with assms(3) show ?thesis
    by (auto simp: exclude_def bs_contains_def insert_absorb member_result_def)
next
  case False
  let ?st = "st\<lparr>d_dead := bs_insert v (d_dead st),
            d_core := core_confirm_crash (e_core E) (of_nat v)
                        (core_set_frozen (e_core E) True (d_core st))\<rparr>"
  have "bs_ok (d_dead ?st)"
    using assms(3) by (simp add: member_ok_def)
  from retarget_ok [OF assms(1,2) this] False show ?thesis
    by (simp add: exclude_def)
qed

lemma readmit_ok:
  assumes "unat i < n" "length addrs = n" "member_ok i n st"
  shows "member_result i n (set (d_dead st) - {v}) (readmit E v i n addrs st)"
proof (cases "bs_contains v (d_dead st)")
  case False
  with assms(3) show ?thesis
    by (auto simp: readmit_def bs_contains_def member_result_def)
next
  case True
  let ?st = "st\<lparr>d_dead := bs_remove v (d_dead st),
            d_core := core_readmit_node (e_core E) (of_nat v)
                        (core_set_frozen (e_core E) True (d_core st))\<rparr>"
  have "bs_ok (d_dead ?st)"
    using assms(3) by (simp add: member_ok_def)
  from retarget_ok [OF assms(1,2) this] True show ?thesis
    by (simp add: readmit_def)
qed

lemma member_ok_parts:
  "d_dead st' = d_dead st \<Longrightarrow> d_succ st' = d_succ st \<Longrightarrow> member_ok i n st' \<longleftrightarrow> member_ok i n st"
  by (simp add: member_ok_def)

lemma crash_confirmed_ok:
  assumes "unat i < n" "length addrs = n" "member_ok i n st"
  shows "member_result i n (insert (unat v) (set (d_dead st))) (handle_crash_confirmed E v i n addrs st)"
  using exclude_ok [OF assms, of "unat v" E]
  by (auto simp: member_result_def handle_crash_confirmed_def member_ok_def
      split: prod.splits dest!: execute_member)

lemma process_hints_ok:
  assumes "unat i < n" "rc \<longrightarrow> length addrs = n" "member_ok i n st"
  shows "\<exists>D. member_result i n D (process_hints E vs i n rc addrs st)"
  using assms(3)
proof (induction vs arbitrary: st)
  case Nil
  then show ?case by (auto simp: member_result_def)
next
  case (Cons v vs)
  show ?case
  proof (cases "det_is_confirmed (e_det E) v (d_detector st)")
    case True
    with Cons show ?thesis by simp
  next
    case False
    obtain c det' where h: "det_gap_hint (e_det E) v (d_detector st) = (c, det')" by fastforce
    let ?st = "st\<lparr>d_detector := det'\<rparr>"
    have ok: "member_ok i n ?st" using Cons.prems by (simp add: member_ok_def)
    show ?thesis
    proof (cases c)
      case None
      with Cons.IH [OF ok] False h show ?thesis by simp
    next
      case (Some confirmed)
      let ?step = "if rc then handle_crash_confirmed E confirmed i n addrs ?st
        else Some ([], st\<lparr>d_detector := det', d_core := core_confirm_crash (e_core E) confirmed (d_core st)\<rparr>)"
      have "\<exists>D. member_result i n D ?step"
      proof (cases rc)
        case True
        with crash_confirmed_ok [OF assms(1) _ ok, of addrs confirmed E] assms(2) show ?thesis by auto
      next
        case False
        with ok show ?thesis by (auto simp: member_result_def member_ok_def)
      qed
      then obtain ef st1 where st1: "?step = Some (ef, st1)" "member_ok i n st1"
        by (auto simp: member_result_def)
      from Cons.IH [OF st1(2)] st1(1) False h Some show ?thesis
        by (auto simp: member_result_def)
    qed
  qed
qed

lemma handle_vc_ok:
  assumes "unat i < n" "length addrs = n" "member_ok i n st"
  shows "\<exists>D. member_result i n D (handle_vc E msg i n addrs st)"
proof (cases "msg_rejoiner (e_vc E) msg")
  case (Some r)
  then show ?thesis
    using readmit_ok [OF assms, of "unat r" E]
    by (auto simp: member_result_def handle_vc_def member_ok_def
        split: prod.splits dest!: execute_member)
next
  case None
  show ?thesis
  proof (cases "msg_victim (e_vc E) msg")
    case (Some v)
    then show ?thesis
      using None exclude_ok [OF assms, of "unat v" E]
      by (auto simp: member_result_def handle_vc_def member_ok_def
          split: prod.splits dest!: execute_member)
  qed (use None assms(3) in \<open>auto simp: handle_vc_def member_result_def\<close>)
qed

subsection \<open>Steps and runs\<close>

definition step_result ::
  "proc_id \<Rightarrow> nat
     \<Rightarrow> (('t, 'm, 'a, 'w) driver_effect list \<times> ('c, 'd, 'v, 'st, 'w) driver_state \<times> bool) option
     \<Rightarrow> bool" where
  "step_result i n res \<longleftrightarrow> (\<exists>ef st' b. res = Some (ef, st', b) \<and> member_ok i n st')"

lemma step_result_go:
  "member_result i n D res \<Longrightarrow> step_result i n (map_option (\<lambda>(ef, st'). (ef, st', True)) res)"
  by (auto simp: member_result_def step_result_def)

lemma ring_n_reconfig: "reconfig cfg \<Longrightarrow> length (cfg_ring_addrs cfg) = ring_n E cfg"
  by (simp add: ring_n_def)

definition safe_result ::
  "proc_id \<Rightarrow> nat
     \<Rightarrow> (('t, 'm, 'a, 'w) driver_effect list \<times> ('c, 'd, 'v, 'st, 'w) driver_state) option \<Rightarrow> bool" where
  "safe_result i n res \<longleftrightarrow> (\<exists>D. member_result i n D res)"

lemma safe_result_iff:
  "safe_result i n res \<longleftrightarrow> (\<exists>ef st'. res = Some (ef, st') \<and> member_ok i n st')"
  by (auto simp: safe_result_def member_result_def)

lemma safe_result_Some [simp]: "safe_result i n (Some p) \<longleftrightarrow> member_ok i n (snd p)"
  by (cases p) (auto simp: safe_result_iff)

lemma step_result_Some [simp]: "step_result i n (Some (ef, st', b)) \<longleftrightarrow> member_ok i n st'"
  by (auto simp: step_result_def)

lemma pump_outputs_ok:
  "pump_outputs E i outs (st\<lparr>d_core := c\<rparr>) = (ef, vs, st') \<Longrightarrow> member_ok j n st \<Longrightarrow> member_ok j n st'"
  by (auto simp: member_ok_def dest!: pump_outputs_member)

lemma execute_ok: "execute E as i st = (ef, st') \<Longrightarrow> member_ok j n st \<Longrightarrow> member_ok j n st'"
  by (auto simp: member_ok_def dest!: execute_member)

lemma safe_result_bind:
  "safe_result i n res \<Longrightarrow> safe_result i n (res \<bind> (\<lambda>(ef', st2). Some (ef @ ef', st2)))"
  by (auto simp: safe_result_iff)

lemma core_turn_ok:
  assumes "cfg_ok E cfg" "member_ok (cfg_id cfg) (ring_n E cfg) st"
  shows "safe_result (cfg_id cfg) (ring_n E cfg) (core_turn E cfg inp st)"
proof -
  have i: "unat (cfg_id cfg) < ring_n E cfg"
    and len: "reconfig cfg \<longrightarrow> length (cfg_ring_addrs cfg) = ring_n E cfg"
    using assms(1) by (simp_all add: cfg_ok_def ring_n_reconfig)
  note hints = process_hints_ok [OF i len, folded safe_result_def]
  show ?thesis
    using assms(2)
    by (auto simp: core_turn_def intro!: safe_result_bind hints elim: pump_outputs_ok
        split: prod.splits)
qed

lemma handle_write_member:
  "handle_write_request E i argv tx st = (ef, st') \<Longrightarrow>
     d_dead st' = d_dead st \<and> d_succ st' = d_succ st"
  by (auto simp: handle_write_request_def Let_def dest!: pump_outputs_member
      split: write_action.splits sum.splits prod.splits)

lemma driver_step_ok:
  assumes "cfg_ok E cfg" "member_ok (cfg_id cfg) (ring_n E cfg) st"
  shows "step_result (cfg_id cfg) (ring_n E cfg) (driver_step E cfg ev st)"
proof -
  let ?i = "cfg_id cfg" and ?n = "ring_n E cfg"
  have i: "unat ?i < ?n" using assms(1) by (simp add: cfg_ok_def)
  have det: "member_ok ?i ?n (st\<lparr>d_detector := x\<rparr>)" for x
    using assms(2) by (simp add: member_ok_def)
  show ?thesis
  proof (cases ev)
    case (EvWrite argv tx)
    show ?thesis
      using assms(2) by (auto simp: EvWrite driver_step_def step_result_def member_ok_def
          split: prod.splits dest!: handle_write_member)
  next
    case (EvTrain t)
    show ?thesis
      using core_turn_ok [OF assms(1) det]
      by (auto simp: EvTrain driver_step_def Let_def safe_result_def intro: step_result_go)
  next
    case (EvVc msg)
    show ?thesis
      using handle_vc_ok [OF i _ assms(2), of "cfg_ring_addrs cfg" E msg] assms(2)
      by (auto simp: EvVc driver_step_def Let_def ring_n_reconfig intro: step_result_go)
  next
    case (EvUnreachable a)
    show ?thesis
      using assms(2) det
      by (auto simp: EvUnreachable driver_step_def Let_def ring_n_reconfig
          intro: step_result_go [OF crash_confirmed_ok [OF i _ det]]
          split: option.splits prod.splits)
  next
    case EvTick
    show ?thesis
      using core_turn_ok [OF assms]
      by (auto simp: EvTick driver_step_def Let_def safe_result_def intro: step_result_go)
  next
    case (EvConfirmCrash v)
    show ?thesis
      using assms(2)
      by (auto simp: EvConfirmCrash driver_step_def Let_def ring_n_reconfig
          intro: step_result_go [OF crash_confirmed_ok [OF i _ assms(2)]])
  qed (use assms(2) in \<open>auto simp: driver_step_def Let_def split: prod.splits\<close>)
qed

lemma driver_run_ok:
  assumes "cfg_ok E cfg" "member_ok (cfg_id cfg) (ring_n E cfg) st"
  shows "step_result (cfg_id cfg) (ring_n E cfg) (driver_run E cfg evs st)"
  using assms(2)
proof (induction evs arbitrary: st)
  case Nil
  then show ?case by simp
next
  case (Cons ev evs)
  obtain ef st1 b where s: "driver_step E cfg ev st = Some (ef, st1, b)"
    "member_ok (cfg_id cfg) (ring_n E cfg) st1"
    using driver_step_ok [OF assms(1) Cons.prems, of ev] by (auto simp: step_result_def)
  show ?case
    using s Cons.IH [OF s(2)] by (cases b) (auto simp: step_result_def)
qed

lemma bs_ok_fold: "bs_ok s \<Longrightarrow> bs_ok (fold bs_insert xs s)"
  by (induction xs arbitrary: s) simp_all

lemma adopt_seed_ok:
  assumes "cfg_ok E cfg"
  shows "\<exists>st. adopt_seed E cfg seed (driver_new E cfg core store) = Some st
    \<and> member_ok (cfg_id cfg) (ring_n E cfg) st"
proof -
  let ?dead = "fold bs_insert (map unat (filter (\<lambda>d. d \<noteq> cfg_id cfg) (vi_dead (seed_view seed)))) []"
  obtain ns where "next_alive (unat (cfg_id cfg)) (ring_n E cfg) ?dead = Some ns"
    using next_alive_total [of "unat (cfg_id cfg)" "ring_n E cfg" ?dead] assms
    by (auto simp: cfg_ok_def)
  then show ?thesis
    using bs_ok_fold [OF bs_ok_Nil, of "map unat (filter (\<lambda>d. d \<noteq> cfg_id cfg) (vi_dead (seed_view seed)))"]
    by (simp add: adopt_seed_def Let_def member_ok_def)
qed

lemma safe_result_bind_state:
  "\<exists>st. x = Some st \<and> P st \<Longrightarrow> (\<And>st. P st \<Longrightarrow> safe_result i n (f st)) \<Longrightarrow> safe_result i n (x \<bind> f)"
  by auto

lemma driver_init_ok:
  assumes "cfg_ok E cfg"
  shows "safe_result (cfg_id cfg) (ring_n E cfg) (driver_init E cfg core store promote)"
proof -
  have n: "0 < ring_n E cfg"
    using assms by (auto simp: cfg_ok_def)
  then have "next_alive (unat (cfg_id cfg)) (ring_n E cfg) [] = Some ((unat (cfg_id cfg) + 1) mod ring_n E cfg)"
    by (simp add: next_alive_def next_alive_loop.simps bs_contains_def)
  then have new: "member_ok (cfg_id cfg) (ring_n E cfg) (driver_new E cfg core store)"
    by (simp add: member_ok_def driver_new_def)
  show ?thesis
  proof (cases promote)
    case None
    with new n show ?thesis
      by (auto simp: driver_init_def Let_def member_ok_def split: prod.splits)
  next
    case (Some seed)
    have "safe_result (cfg_id cfg) (ring_n E cfg)
        (adopt_seed E cfg seed (driver_new E cfg core store)
          \<bind> (\<lambda>st. Some (request_readmission E (cfg_id cfg) st)))"
      by (rule safe_result_bind_state [OF adopt_seed_ok [OF assms]])
        (auto simp: request_readmission_def member_ok_def execute_parts split: prod.splits)
    with n Some show ?thesis by (simp add: driver_init_def)
  qed
qed

text \<open>The envelope of a client's write.\<close>

definition envelope :: "proc_id \<Rightarrow> u64 \<Rightarrow> bytes list \<Rightarrow> reply option \<Rightarrow> write_op" where
  "envelope i rid argv resolved =
     (case resolved of Some r \<Rightarrow> with_client_reply (write_op_new i rid argv) r
                     | None \<Rightarrow> write_op_new i rid argv)"

lemma envelope_parts [simp]:
  "origin (envelope i rid argv rs) = i" "request_id (envelope i rid argv rs) = rid"
  "op_argv (envelope i rid argv rs) = argv" "client_reply (envelope i rid argv rs) = rs"
  by (simp_all add: envelope_def write_op_new_def with_client_reply_def split: option.splits)

end
