(* ===== verification/Driver_Claims.thy ===== *)
theory Driver_Claims
  imports Driver_Laws
begin

section \<open>Claims about the driver\<close>

text \<open>
  The claims of this theory hold for every core, detector, view-change machine, codec and
  store. The witnesses run them on \<open>demo_env\<close>: \<open>MemStore\<close> and the reference codec over a
  kernel that counts its steps and delivers the trains it is given.
\<close>

definition echo_kernel :: "(nat, bytes, nat, nat, nat) kernel_ops" where
  "echo_kernel =
     \<lparr>core_step = core_step echo_core, core_export = (\<lambda>n. n), core_import = (\<lambda>p n. p),
      core_issue_initial = (\<lambda>n. ([], n)), core_confirm_crash = (\<lambda>v n. n + 1),
      core_readmit_node = (\<lambda>v n. n + 1), core_recovery_report = (\<lambda>n. (n, n)),
      core_apply_recovery = (\<lambda>plan n. ([], n + plan)), core_reissue_train = (\<lambda>n. (''t'', n)),
      core_set_frozen = (\<lambda>b n. n), train_issuer = (\<lambda>t. 0)\<rparr>"

definition count_detector :: "nat detector_ops" where
  "count_detector =
     \<lparr>det_new = (\<lambda>s w. 0), det_note_alive = (\<lambda>p d. 0), det_is_confirmed = (\<lambda>p d. False),
      det_gap_hint = (\<lambda>p d. (if 1 < d then Some p else None, d + 1)),
      det_disconnect = (\<lambda>p d. (Some p, d + 1))\<rparr>"

definition send_vc :: "(nat, nat, nat, nat) vc_ops" where
  "send_vc =
     \<lparr>vc_new = (\<lambda>p n. 0), vc_installed_view = of_nat, vc_adopt_view = (\<lambda>w ds v. unat w),
      vc_on_confirm = (\<lambda>p r v. ([VcSend (unat p)], v + 1)), vc_on_gather = (\<lambda>m r v. ([VcApply 1], v)),
      vc_on_install = (\<lambda>m v. ([], v + 1)), vc_on_readmit_gather = (\<lambda>m r v. ([VcSend m], v)),
      vc_on_readmit_install = (\<lambda>m v. ([VcApply 2], v)),
      vc_on_request_readmit = (\<lambda>r v. ([VcSend 9], v)),
      msg_kind = (\<lambda>m. if m < 3 then Gather else ReAdmitGather),
      msg_victim = (\<lambda>m. if m < 3 then Some (of_nat m) else None),
      msg_rejoiner = (\<lambda>m. if m < 3 then None else Some (of_nat (m - 3)))\<rparr>"

definition demo_env :: "(nat, bytes, nat, nat, nat, nat, nat, nat, mem_store, int option) env" where
  "demo_env =
     \<lparr>e_core = echo_kernel, e_det = count_detector, e_vc = send_vc, e_wire = wire0, e_store = mem0,
      e_float = int_floats, e_ring_size = 3, e_num_trains = 1\<rparr>"

definition demo_state :: "(nat, nat, nat, mem_store, nat) driver_state" where
  "demo_state =
     \<lparr>d_core = 0, d_store = mem_new, d_pending = [], d_next_rid = 0, d_dedup = dedup_new,
      d_log = log_run 0 2 [], d_detector = 0, d_vc = 0, d_dead = [], d_succ = 1\<rparr>"

text \<open>The ring positions as addresses.\<close>

definition demo_cfg :: "nat driver_cfg" where
  "demo_cfg = \<lparr>cfg_id = 0, cfg_issue_initial = False, cfg_ring_addrs = [0, 1, 2]\<rparr>"

lemma demo_parts: "e_wire demo_env = wire0" "e_store demo_env = mem0"
  by (simp_all add: demo_env_def)

subsection \<open>One apply path\<close>

text \<open>
  C14: the driver's own apply loop refines the replica model: from the same store, dedup state and
  log, the same outputs of the core lead to the same store, dedup state and log, the same trains
  are forwarded in the same order, the crash hints are those the core declared, and the clients
  answered are exactly those waiting for a write of this node that was applied, each once and with
  the reply the replica model records.
\<close>

theorem pump_refines_absorb:
  fixes st :: "('c, 'd, 'v, 'st, 'w) driver_state" and ef :: "('t, 'm, 'a, 'w) driver_effect list"
  assumes "app_of r = d_app st" "absorb (e_wire E) (e_store E) outs r = (stp, r')"
    and "pump_outputs E i outs st = (ef, vs, st')"
  shows "d_app st' = app_of r' \<and> trains_of ef = st_forward stp \<and> vs = crash_hints outs
    \<and> (replies_of ef, d_pending st') = wake i (d_pending st) (st_applied stp)"
  using pump_outputs_refines [of r st E outs stp r' i ef vs st'] assms by (simp add: same_app_def)

theorem pump_refines_absorb_witness:
  "let outs = [DeclareCrash 2, Deliver [\<lparr>pl_data = cput c_write_op (op_set 0 0 ''k'' ''v'')\<rparr>], ForwardTrain ''t''];
       st = demo_state\<lparr>d_pending := [(0, 41)]\<rparr>;
       (ef, vs, st') = pump_outputs demo_env 0 outs st :: (bytes, nat, nat, nat) driver_effect list \<times> _ in
   d_app st' = app_of (snd (absorb wire0 mem0 outs (replica_with 5 (d_app st)))) \<and> vs = [2]"
proof -
  let ?outs = "[DeclareCrash 2, Deliver [\<lparr>pl_data = cput c_write_op (op_set 0 0 ''k'' ''v'')\<rparr>],
    ForwardTrain ''t'']"
  let ?st = "demo_state\<lparr>d_pending := [(0, 41)]\<rparr>"
  obtain stp r' where a:
    "absorb (e_wire demo_env) (e_store demo_env) ?outs (replica_with 5 (d_app ?st)) = (stp, r')"
    by fastforce
  obtain ef :: "(bytes, nat, nat, nat) driver_effect list" and vs st' where
    p: "pump_outputs demo_env 0 ?outs ?st = (ef, vs, st')"
    using prod_cases3 by blast
  have "app_of (replica_with 5 (d_app ?st)) = d_app ?st" by simp
  from pump_refines_absorb [OF this a p] a [unfolded demo_parts] show ?thesis
    unfolding Let_def p prod.case by (simp only: snd_conv crash_hints_def) (simp add: List.map_filter_def)
qed

subsection \<open>A client's write, broadcast and delivered back\<close>

lemma pump_nothing_delivered:
  assumes "delivered outs = []" "pump_outputs E i outs st = (ef, vs, st')"
  shows "st' = st \<and> replies_of ef = []"
  using assms
proof (induction outs arbitrary: ef vs)
  case (Cons out outs)
  then show ?case by (cases out) (auto split: prod.splits)
qed simp

lemma write_request_state:
  fixes ef :: "('t, 'm, 'a, 'w) driver_effect list"
  assumes "write_action (e_float E) (\<lambda>c. st_query (e_store E) c (d_store st)) argv = ABroadcast argv' rs"
    and "enc_op (e_wire E) (envelope i (d_next_rid st) argv' rs) = Inr bs"
    and "delivered (fst (core_step (e_core E) (LocalBroadcast bs) (d_core st))) = []"
    and "handle_write_request E i argv tx st = (ef, st1)"
  shows "replies_of ef = [] \<and> (\<exists>c. st1 = st\<lparr>d_next_rid := d_next_rid st + 1,
      d_pending := bt_insert (d_next_rid st) tx (d_pending st), d_core := c\<rparr>)"
proof -
  let ?st = "st\<lparr>d_next_rid := d_next_rid st + 1, d_pending := bt_insert (d_next_rid st) tx (d_pending st)\<rparr>"
  obtain outs c where c: "core_step (e_core E) (LocalBroadcast bs) (d_core st) = (outs, c)" by fastforce
  obtain ef' :: "('t, 'm, 'a, 'w) driver_effect list" and vs st' where
    p: "pump_outputs E i outs (?st\<lparr>d_core := c\<rparr>) = (ef', vs, st')"
    using prod_cases3 by blast
  have "ef = ef'" "st1 = st'"
    using assms(1,2,4) c p
    by (simp_all add: handle_write_request_def Let_def envelope_def [symmetric])
  with pump_nothing_delivered [OF _ p] assms(3) c show ?thesis by auto
qed

lemma deliver_single:
  assumes "dec_op (e_wire E) bs = Some op"
    and "pump_outputs E i [Deliver [\<lparr>pl_data = bs\<rparr>]] st = (ef, vs, st')"
  shows "pump_op E i op st = (ef, st')"
  using assms by (auto split: prod.splits)

text \<open>
  C32: a promoted node loses its first writes: it starts its request counter at zero with the
  dedup state of its survivors, and if that already covers its own id zero (it wrote before it
  crashed), its new write is delivered back and dropped: the store does not change, the client gets
  no answer and stays in the table of waiting clients.
\<close>

theorem promoted_write_lost:
  assumes "wire_laws (e_wire E)" "dedup_ok (seed_dedup seed)" "(cfg_id cfg, 0) \<in> seen (seed_dedup seed)"
    and "adopt_seed E cfg seed (driver_new E cfg core store) = Some st"
    and "write_action (e_float E) (\<lambda>c. st_query (e_store E) c (d_store st)) argv = ABroadcast argv' rs"
    and "enc_op (e_wire E) (envelope (cfg_id cfg) 0 argv' rs) = Inr bs"
    and "delivered (fst (core_step (e_core E) (LocalBroadcast bs) (d_core st))) = []"
    and "handle_write_request E (cfg_id cfg) argv tx st = (ef, st1)"
    and "pump_outputs E (cfg_id cfg) [Deliver [\<lparr>pl_data = bs\<rparr>]] st1 = (ef', vs, st2)"
  shows "replies_of ef = [] \<and> ef' = [] \<and> d_store st2 = store \<and> bt_get (d_pending st2) 0 = Some tx"
proof -
  have st: "d_next_rid st = 0" "d_dedup st = seed_dedup seed" "d_store st = store"
    using assms(4) by (auto simp: adopt_seed_def Let_def driver_new_def bind_eq_Some_conv)
  obtain c where st1: "replies_of ef = []" "st1 = st\<lparr>d_next_rid := d_next_rid st + 1,
      d_pending := bt_insert (d_next_rid st) tx (d_pending st), d_core := c\<rparr>"
    using write_request_state [OF assms(5) _ assms(7,8)] assms(6) st(1) by auto
  have dec: "dec_op (e_wire E) bs = Some (envelope (cfg_id cfg) 0 argv' rs)"
    by (rule wire_laws.dec_enc_op [OF assms(1,6)])
  obtain d where d: "first_seen (cfg_id cfg) 0 (seed_dedup seed) = (False, d)"
    using first_seen_spec(2) [OF assms(2), of 0 "cfg_id cfg"] assms(3)
    by (cases "first_seen (cfg_id cfg) 0 (seed_dedup seed)") auto
  show ?thesis
    using st1 st d deliver_single [OF dec assms(9)] by (auto simp: pump_op_def)
qed

definition demo_seed :: "nat promote_seed" where
  "demo_seed =
     \<lparr>seed_dedup = \<lparr>origins = [(0, \<lparr>watermark = 1, recent = []\<rparr>)]\<rparr>, seed_log = log_run 1 2 [],
      seed_protocol = 7, seed_view = \<lparr>vi_installed_view = 1, vi_dead = [0, 2]\<rparr>\<rparr>"

text \<open>The demo node promoted with that seed; its successor skips the dead node 2 only if it must.\<close>

definition demo_promoted :: "mem_store \<Rightarrow> (nat, nat, nat, mem_store, nat) driver_state" where
  "demo_promoted store =
     \<lparr>d_core = 8, d_store = store, d_pending = [], d_next_rid = 0, d_dedup = seed_dedup demo_seed,
      d_log = log_run 1 2 [], d_detector = 0, d_vc = 1, d_dead = [2], d_succ = 1\<rparr>"

lemma demo_adopt:
  "adopt_seed demo_env demo_cfg demo_seed (driver_new demo_env demo_cfg 0 store) = Some (demo_promoted store)"
  by (simp add: adopt_seed_def driver_new_def demo_env_def demo_cfg_def demo_seed_def demo_promoted_def
      echo_kernel_def send_vc_def count_detector_def ring_n_def reconfig_def next_alive_def
      next_alive_loop.simps bs_contains_def bs_insert_def Let_def)

theorem promoted_write_lost_witness:
  "let st = demo_promoted mem_new;
       bs = cput c_write_op (envelope 0 0 [''SET'', ''k'', ''v''] None);
       (ef, st1) = handle_write_request demo_env 0 [''SET'', ''k'', ''v''] 41 st
         :: (bytes, nat, nat, nat) driver_effect list \<times> _;
       (ef', vs, st2) = pump_outputs demo_env 0 [Deliver [\<lparr>pl_data = bs\<rparr>]] st1
         :: (bytes, nat, nat, nat) driver_effect list \<times> _ in
   ef' = [] \<and> d_store st2 = mem_new \<and> bt_get (d_pending st2) 0 = Some 41"
proof -
  let ?st = "demo_promoted mem_new"
  let ?bs = "cput c_write_op (envelope 0 0 [''SET'', ''k'', ''v''] None)"
  obtain ef :: "(bytes, nat, nat, nat) driver_effect list" and st1 where
    h: "handle_write_request demo_env (cfg_id demo_cfg) [''SET'', ''k'', ''v''] 41 ?st = (ef, st1)"
    by fastforce
  obtain ef' :: "(bytes, nat, nat, nat) driver_effect list" and vs st2 where
    p: "pump_outputs demo_env (cfg_id demo_cfg) [Deliver [\<lparr>pl_data = ?bs\<rparr>]] st1 = (ef', vs, st2)"
    using prod_cases3 by blast
  have id: "cfg_id demo_cfg = 0" by (simp add: demo_cfg_def)
  have wire: "wire_laws (e_wire demo_env)"
    by (simp add: demo_env_def ref_wire_nat.wire_laws_axioms)
  have ded: "dedup_ok (seed_dedup demo_seed)" by code_simp
  have old: "(cfg_id demo_cfg, 0) \<in> seen (seed_dedup demo_seed)"
    by (simp add: demo_cfg_def demo_seed_def seen_def ids_of_def bt_get_def applied_ids_def)
  have act: "write_action (e_float demo_env) (\<lambda>c. st_query (e_store demo_env) c (d_store ?st))
      [''SET'', ''k'', ''v''] = ABroadcast [''SET'', ''k'', ''v''] None"
    by code_simp
  have enc: "enc_op (e_wire demo_env) (envelope (cfg_id demo_cfg) 0 [''SET'', ''k'', ''v''] None) = Inr ?bs"
    by (simp add: demo_env_def ref_wire_def id)
  have quiet: "delivered (fst (core_step (e_core demo_env) (LocalBroadcast ?bs) (d_core ?st))) = []"
    by (simp add: demo_env_def echo_kernel_def echo_core_def)
  from promoted_write_lost [OF wire ded old demo_adopt act enc quiet h p]
  show ?thesis unfolding Let_def h [unfolded id] prod.case p [unfolded id] by simp
qed

subsection \<open>Membership\<close>

text \<open>
  C35: for a node that is a position of the ring, the search for the successor ends with the
  nearest node after it that is not excluded, skipping only excluded ones; it comes back to the
  node itself only after all others were found excluded.
\<close>

theorem next_alive_is_nearest:
  assumes "me < n"
  shows "\<exists>m. 0 < m \<and> m \<le> n \<and> next_alive me n dead = Some ((me + m) mod n)
    \<and> (m = n \<or> (me + m) mod n \<notin> set dead)
    \<and> (\<forall>l. 0 < l \<and> l < m \<longrightarrow> (me + l) mod n \<in> set dead)"
  by (rule next_alive_nearest [OF assms])

theorem next_alive_is_nearest_witness:
  "next_alive 3 5 [0, 4] = Some 1"
proof -
  obtain m where m: "0 < m" "m \<le> 5" "next_alive 3 5 [0, 4] = Some ((3 + m) mod 5)"
      "m = 5 \<or> (3 + m) mod 5 \<notin> set [0, 4]"
      "\<forall>l. 0 < l \<and> l < m \<longrightarrow> (3 + l) mod 5 \<in> set [0, 4 :: nat]"
    using next_alive_is_nearest [of 3 5 "[0, 4]"] by auto
  have "m \<noteq> 1" "m \<noteq> 2" using m(4) by auto
  moreover have "\<not> 3 < m"
    using m(5) by (auto dest: spec [of _ 3])
  ultimately have "m = 3" using m(1) by linarith
  with m(3) show ?thesis by simp
qed

text \<open>
  C34: exclusion is idempotent and re-admission undoes it: after a node is excluded, excluding it
  again does nothing, and re-admitting it restores the set of excluded nodes and the successor
  that were there before, whatever the order of the node ids.
\<close>

theorem readmit_undoes_exclude:
  assumes "unat i < n" "length addrs = n" "member_ok i n st" "v \<notin> set (d_dead st)"
    and "exclude E v i n addrs st = Some (ef1, st1)" "readmit E v i n addrs st1 = Some (ef2, st2)"
  shows "exclude E v i n addrs st1 = Some ([], st1)
    \<and> d_dead st2 = d_dead st \<and> d_succ st2 = d_succ st \<and> readmit E v i n addrs st2 = Some ([], st2)"
proof -
  have s1: "member_ok i n st1" "set (d_dead st1) = insert v (set (d_dead st))"
    using exclude_ok [OF assms(1-3), of v E] assms(5) by (auto simp: member_result_def)
  have s2: "member_ok i n st2" "set (d_dead st2) = set (d_dead st1) - {v}"
    using readmit_ok [OF assms(1,2) s1(1), of v E] assms(6) by (auto simp: member_result_def)
  have dead: "d_dead st2 = d_dead st"
    using s1 s2 assms(3,4) by (intro bs_ok_ext) (auto simp: member_ok_def)
  then have "d_succ st2 = d_succ st"
    using s2(1) assms(3) by (simp add: member_ok_def)
  with dead s1(2) assms(4) show ?thesis
    by (simp add: exclude_def readmit_def bs_contains_def)
qed

theorem readmit_undoes_exclude_witness:
  "\<exists>ef1 st1 ef2 st2. exclude demo_env 1 0 3 [0, 1, 2 :: nat] demo_state = Some (ef1 :: (bytes, nat, nat, nat) driver_effect list, st1)
     \<and> readmit demo_env 1 0 3 [0, 1, 2 :: nat] st1 = Some (ef2 :: (bytes, nat, nat, nat) driver_effect list, st2)
     \<and> d_succ st1 = 2 \<and> d_dead st2 = [] \<and> d_succ st2 = 1"
proof -
  note defs = exclude_def readmit_def retarget_def index_addr_def demo_state_def next_alive_def
    next_alive_loop.simps bs_contains_def bs_insert_def bs_remove_def
  obtain st1 where st1: "exclude demo_env 1 0 3 [0, 1, 2 :: nat] demo_state
      = Some ([Retarget 2] :: (bytes, nat, nat, nat) driver_effect list, st1)" "d_succ st1 = 2" "d_dead st1 = [1]"
    by (simp add: defs)
  then obtain ef2 :: "(bytes, nat, nat, nat) driver_effect list" and st2 where
    st2: "readmit demo_env 1 0 3 [0, 1, 2 :: nat] st1 = Some (ef2, st2)"
    by (simp add: readmit_def retarget_def index_addr_def next_alive_def next_alive_loop.simps
        bs_contains_def bs_remove_def)
  have "member_ok 0 3 demo_state" "1 \<notin> set (d_dead demo_state)"
    by (simp_all add: member_ok_def defs)
  from readmit_undoes_exclude [OF _ _ this st1(1) st2]
  have "d_dead st2 = d_dead demo_state" "d_succ st2 = d_succ demo_state" by simp_all
  with st1 st2 show ?thesis by (auto simp: demo_state_def)
qed

text \<open>
  C18: a driver whose id is a ring position never hangs or panics in a membership change and never
  loses its place: from a cold start or a promotion, every sequence of events runs to a result, and
  in the state it ends in the successor is the nearest node that is not excluded.
\<close>

theorem driver_keeps_ring:
  fixes E :: "('c, 't, 'p, 'r, 'q, 'd, 'v, 'm, 'st, 'f) env"
    and evs :: "('t, 'm, 'a, 'w) driver_event list"
  assumes "unat (cfg_id cfg) < ring_n E cfg"
  shows "\<exists>ef0 st0 ef st b. driver_init E cfg core store promote = Some (ef0, st0)
    \<and> driver_run E cfg evs st0 = Some (ef, st, b)
    \<and> next_alive (unat (cfg_id cfg)) (ring_n E cfg) (d_dead st) = Some (d_succ st)"
proof -
  have ok: "cfg_ok E cfg" using assms by (simp add: cfg_ok_def)
  obtain ef0 :: "('t, 'm, 'a, 'w) driver_effect list" and st0 :: "('c, 'd, 'v, 'st, 'w) driver_state"
    where "driver_init E cfg core store promote = Some (ef0, st0)"
      "member_ok (cfg_id cfg) (ring_n E cfg) st0"
    using driver_init_ok [OF ok, of core store promote] by (auto simp: safe_result_iff)
  with driver_run_ok [OF ok, of st0 evs] show ?thesis
    by (auto simp: step_result_def member_ok_def)
qed

theorem driver_keeps_ring_witness:
  "\<exists>ef0 st0 ef st b.
     driver_init demo_env demo_cfg 0 mem_new None = Some (ef0 :: (bytes, nat, nat, nat) driver_effect list, st0)
     \<and> driver_run demo_env demo_cfg [EvUnreachable 1, EvVc 5, EvTick, EvConfirmCrash 2] st0
       = Some (ef :: (bytes, nat, nat, nat) driver_effect list, st, b)
     \<and> next_alive (unat (cfg_id demo_cfg)) (ring_n demo_env demo_cfg) (d_dead st) = Some (d_succ st)"
  by (rule driver_keeps_ring) (simp add: demo_cfg_def ring_n_def reconfig_def)

end
