(* ===== verification/Passive.thy ===== *)
theory Passive
  imports Driver_Loop
begin

section \<open>Passive rejoin: catching up off the ring, and promotion\<close>

text \<open>
  \<open>passive_catch_up\<close>, \<open>apply_passive_transfer\<close>, \<open>final_snapshot_for_promotion\<close> and the rejoin
  branch of \<open>run_proxy_node\<close> in \<open>src/crates/trains-valkey/src/proxy.rs\<close>. A restarted node polls
  the survivors for the transfer that closes its gap, answers client writes with a fixed error,
  and, when it may, becomes a ring member after two rounds that brought nothing new. A fetch is
  an operation on the state \<open>'n\<close> of the network (the survivors included); a poll event carries
  the network as the round finds it.
\<close>

named_theorems passive_simps \<open>one event of the catch-up loop\<close>

definition PROMOTE_IDLE_ROUNDS :: u32 where
  "PROMOTE_IDLE_ROUNDS = 2"

record 'a rejoin_cfg =
  rj_survivor_addrs :: "'a list"
  rj_promote :: bool

type_synonym ('a, 'n) fetcher = "'a \<Rightarrow> u64 \<Rightarrow> 'n \<Rightarrow> (bytes \<times> bytes list) option \<times> 'n"

subsection \<open>Applying a transfer\<close>

fun passive_replay ::
  "'p wire \<Rightarrow> 'st store_ops \<Rightarrow> bytes list \<Rightarrow> nat \<Rightarrow> 'st app \<Rightarrow> (snapshot_error + nat) \<times> 'st app" where
  "passive_replay W S [] n a = (Inr n, a)"
| "passive_replay W S (frame # frames) n (st, dd, lg) =
     (case dec_entry W frame of
        None \<Rightarrow> (Inl Decode, (st, dd, lg))
      | Some e \<Rightarrow>
          (case apply_delivered_op_parts S (de_op e) st dd lg of
             (res, a1) \<Rightarrow> passive_replay W S frames (if res \<noteq> None then n + 1 else n) a1))"

definition apply_passive_transfer ::
  "'p wire \<Rightarrow> 'st store_ops \<Rightarrow> bytes \<times> bytes list \<Rightarrow> 'st app \<Rightarrow> (snapshot_error + nat) \<times> 'st app" where
  "apply_passive_transfer W S xfer a =
     (case xfer of (snapshot, tail) \<Rightarrow>
      case a of (st, dd, lg) \<Rightarrow>
        if snapshot = [] then passive_replay W S tail 0 a
        else
          (case dec_snap W snapshot of
             None \<Rightarrow> (Inl Decode, a)
           | Some snap \<Rightarrow>
               (case st_import S (sn_store snap) st of
                  Inl e \<Rightarrow> (Inl e, a)
                | Inr st' \<Rightarrow>
                    passive_replay W S tail 0
                      (st', sn_dedup snap, resumed_at (sn_delivered_index snap) (dl_cap lg)))))"

text \<open>One round: the survivors in turn, until a transfer is applied. The index asked for is
  the one at the start of the round, also after a transfer that failed half way.\<close>

fun fetch_round ::
  "'p wire \<Rightarrow> 'st store_ops \<Rightarrow> ('a, 'n) fetcher \<Rightarrow> u64 \<Rightarrow> 'a list \<Rightarrow> 'n \<Rightarrow> 'st app
     \<Rightarrow> bool \<times> bool \<times> 'n \<times> 'st app" where
  "fetch_round W S fetch have_idx [] net a = (False, False, net, a)"
| "fetch_round W S fetch have_idx (addr # addrs) net a =
     (case fetch addr have_idx net of
        (None, net1) \<Rightarrow> fetch_round W S fetch have_idx addrs net1 a
      | (Some xfer, net1) \<Rightarrow>
          (case apply_passive_transfer W S xfer a of
             (Inr n, a1) \<Rightarrow> (True, 0 < n \<or> fst xfer \<noteq> [], net1, a1)
           | (Inl e, a1) \<Rightarrow> fetch_round W S fetch have_idx addrs net1 a1))"

subsection \<open>The snapshot a promotion starts from\<close>

text \<open>Frames of the tail that do not decode are passed over here.\<close>

definition replay_lenient :: "'p wire \<Rightarrow> 'st store_ops \<Rightarrow> bytes list \<Rightarrow> 'st app \<Rightarrow> 'st app" where
  "replay_lenient W S frames a =
     fold (\<lambda>frame (st, dd, lg).
       case dec_entry W frame of
         None \<Rightarrow> (st, dd, lg)
       | Some e \<Rightarrow> snd (apply_delivered_op_parts S (de_op e) st dd lg)) frames a"

fun final_snapshot_for_promotion ::
  "'p wire \<Rightarrow> 'st store_ops \<Rightarrow> ('a, 'n) fetcher \<Rightarrow> 'a list \<Rightarrow> 'n \<Rightarrow> 'st app
     \<Rightarrow> 'p promote_seed option \<times> 'st app" where
  "final_snapshot_for_promotion W S fetch [] net a = (None, a)"
| "final_snapshot_for_promotion W S fetch (addr # addrs) net a =
     (case fetch addr 0 net of
        (None, net1) \<Rightarrow> final_snapshot_for_promotion W S fetch addrs net1 a
      | (Some (snapshot, tail), net1) \<Rightarrow>
          (if snapshot = [] then final_snapshot_for_promotion W S fetch addrs net1 a
           else
             (case dec_snap W snapshot of
                None \<Rightarrow> final_snapshot_for_promotion W S fetch addrs net1 a
              | Some snap \<Rightarrow>
                  (case sn_view snap of
                     None \<Rightarrow> final_snapshot_for_promotion W S fetch addrs net1 a
                   | Some view \<Rightarrow>
                       (case st_import S (sn_store snap) (fst a) of
                          Inl e \<Rightarrow> final_snapshot_for_promotion W S fetch addrs net1 a
                        | Inr st' \<Rightarrow>
                            (let a1 = replay_lenient W S tail
                                   (st', sn_dedup snap,
                                    resumed_at (sn_delivered_index snap) (dl_cap (snd (snd a)))) in
                             (Some \<lparr>seed_dedup = fst (snd a1), seed_log = snd (snd a1),
                                seed_protocol = sn_protocol snap, seed_view = view\<rparr>, a1)))))))"

subsection \<open>The catch-up loop\<close>

record 'st standby =
  pv_app :: "'st app"
  pv_idle :: u32

definition passive_start :: "'st \<Rightarrow> 'st standby" where
  "passive_start store = \<lparr>pv_app = (store, dedup_new, log_default), pv_idle = 0\<rparr>"

datatype ('n, 'w) passive_event =
    PollTick 'n
  | PassiveWrite "bytes list" 'w
  | ChannelClosed

datatype 'p passive_exit =
    Tailing
  | Promoted "'p promote_seed"
  | ShutDown

definition read_only_reply :: reply where
  "read_only_reply = reply_error
     (''ERR node is rejoining '' @ [CHR 0xE2, CHR 0x80, CHR 0x94] @ '' read-only passive replica'')"

definition pv_head :: "'st app \<Rightarrow> u64" where
  "pv_head a = head_index (snd (snd a))"

definition poll_round ::
  "'p wire \<Rightarrow> 'st store_ops \<Rightarrow> ('a, 'n) fetcher \<Rightarrow> 'a rejoin_cfg \<Rightarrow> 'n \<Rightarrow> 'st standby
     \<Rightarrow> 'p passive_exit \<times> 'st standby" where
  "poll_round W S fetch cfg net p =
     (case fetch_round W S fetch (pv_head (pv_app p)) (rj_survivor_addrs cfg) net (pv_app p) of
        (served, progress, net1, a1) \<Rightarrow>
          if rj_promote cfg \<and> served \<and> \<not> progress \<and> 0 < pv_head a1 then
            (let idle = pv_idle p + 1 in
             if PROMOTE_IDLE_ROUNDS \<le> idle then
               (case final_snapshot_for_promotion W S fetch (rj_survivor_addrs cfg) net1 a1 of
                  (Some seed, a2) \<Rightarrow> (Promoted seed, \<lparr>pv_app = a2, pv_idle = idle\<rparr>)
                | (None, a2) \<Rightarrow> (Tailing, \<lparr>pv_app = a2, pv_idle = 0\<rparr>))
             else (Tailing, \<lparr>pv_app = a1, pv_idle = idle\<rparr>))
          else (Tailing, \<lparr>pv_app = a1, pv_idle = (if progress then 0 else pv_idle p)\<rparr>))"

definition passive_step ::
  "'p wire \<Rightarrow> 'st store_ops \<Rightarrow> ('a, 'n) fetcher \<Rightarrow> 'a rejoin_cfg \<Rightarrow> ('n, 'w) passive_event
     \<Rightarrow> 'st standby \<Rightarrow> ('w \<times> reply) list \<times> 'p passive_exit \<times> 'st standby" where
  "passive_step W S fetch cfg ev p =
     (case ev of
        PollTick net \<Rightarrow> ([], poll_round W S fetch cfg net p)
      | PassiveWrite argv w \<Rightarrow> ([(w, read_only_reply)], Tailing, p)
      | ChannelClosed \<Rightarrow> ([], ShutDown, p))"

text \<open>The events left over are those that come after the loop has returned.\<close>

fun passive_catch_up ::
  "'p wire \<Rightarrow> 'st store_ops \<Rightarrow> ('a, 'n) fetcher \<Rightarrow> 'a rejoin_cfg \<Rightarrow> ('n, 'w) passive_event list
     \<Rightarrow> 'st standby
     \<Rightarrow> ('w \<times> reply) list \<times> 'p passive_exit \<times> 'st standby \<times> ('n, 'w) passive_event list" where
  "passive_catch_up W S fetch cfg [] p = ([], Tailing, p, [])"
| "passive_catch_up W S fetch cfg (ev # evs) p =
     (case passive_step W S fetch cfg ev p of
        (ef, Tailing, p1) \<Rightarrow>
          (case passive_catch_up W S fetch cfg evs p1 of
             (ef', x, p2, rest) \<Rightarrow> (ef @ ef', x, p2, rest))
      | (ef, x, p1) \<Rightarrow> (ef, x, p1, evs))"

subsection \<open>The rejoin task of a node\<close>

text \<open>
  After a promotion the transport is opened; if that fails the node catches up again, from the
  store it has and a fresh dedup state and log, and never asks to be promoted again.
\<close>

datatype ('ef, 'stp, 'std) rejoin_result =
    StayedPassive 'stp
  | RanDriver 'ef 'std

definition rejoin_task ::
  "('c, 't, 'p, 'r, 'q, 'd, 'v, 'm, 'st, 'f) env \<Rightarrow> 'b driver_cfg \<Rightarrow> ('a, 'n) fetcher
     \<Rightarrow> 'a rejoin_cfg \<Rightarrow> bool \<Rightarrow> 'c \<Rightarrow> 'st \<Rightarrow> ('n, 'w) passive_event list
     \<Rightarrow> ('t, 'm, 'b, 'w) driver_event list
     \<Rightarrow> (('w \<times> reply) list \<times>
         (('t, 'm, 'b, 'w) driver_effect list, 'st standby, ('c, 'd, 'v, 'st, 'w) driver_state)
           rejoin_result) option" where
  "rejoin_task E dcfg fetch cfg spawn_ok core store evs devs =
     (case passive_catch_up (e_wire E) (e_store E) fetch cfg evs (passive_start store) of
        (ef, Promoted seed, p, rest) \<Rightarrow>
          if spawn_ok then
            (case driver_init E (dcfg\<lparr>cfg_issue_initial := False\<rparr>) core (fst (pv_app p)) (Some seed) of
               None \<Rightarrow> None
             | Some (ef1, st) \<Rightarrow>
                 map_option (\<lambda>(ef2, st', _). (ef, RanDriver (ef1 @ ef2) st'))
                   (driver_run E (dcfg\<lparr>cfg_issue_initial := False\<rparr>) devs st))
          else
            (case passive_catch_up (e_wire E) (e_store E) fetch (cfg\<lparr>rj_promote := False\<rparr>) rest
                    (passive_start (fst (pv_app p))) of
               (ef', _, p', _) \<Rightarrow> Some (ef @ ef', StayedPassive p'))
      | (ef, _, p, _) \<Rightarrow> Some (ef, StayedPassive p))"

subsection \<open>The transfer is the replica's\<close>

lemma passive_replay_refines:
  "passive_replay W S frames n (app_of r) =
     (fst (replay_tail W S frames n r), app_of (snd (replay_tail W S frames n r)))"
proof (induction frames arbitrary: n r)
  case (Cons f frames)
  show ?case
  proof (cases "dec_entry W f")
    case (Some e)
    obtain res r1 where r1: "apply_delivered_op S (de_op e) r = (res, r1)" by fastforce
    obtain x a1 where p: "apply_delivered_op_parts S (de_op e) (rep_store r) (rep_dedup r) (rep_log r)
        = (x, a1)"
      by (metis prod.exhaust)
    have "a1 = app_of r1" "x = None \<longleftrightarrow> res = None"
      using p r1 by (auto simp: apply_delivered_op_def app_of_def split: prod.splits)
    then show ?thesis
      using Some r1 p Cons.IH [of _ r1] by (cases x; cases res) (simp_all add: app_of_def [of r])
  qed (simp add: app_of_def)
qed simp

lemma passive_transfer_app:
  "apply_passive_transfer W S (snapshot, tail) (app_of r) =
     (fst (apply_state_transfer C W S snapshot tail r),
      app_of (snd (apply_state_transfer C W S snapshot tail r)))"
proof -
  let ?r = "\<lambda>snap st'. (r\<lparr>rep_core := core_import C (sn_protocol snap) (rep_core r)\<rparr>)
      \<lparr>rep_store := st', rep_dedup := sn_dedup snap,
       rep_log := resumed_at (sn_delivered_index snap) (dl_cap (rep_log r))\<rparr>"
  have "passive_replay W S tail 0 (st', sn_dedup snap,
        resumed_at (sn_delivered_index snap) (dl_cap (rep_log r)))
      = (fst (replay_tail W S tail 0 (?r snap st')), app_of (snd (replay_tail W S tail 0 (?r snap st'))))"
    for snap st'
  proof -
    have "app_of (?r snap st') =
        (st', sn_dedup snap, resumed_at (sn_delivered_index snap) (dl_cap (rep_log r)))"
      by (simp add: app_of_def)
    with passive_replay_refines [of W S tail 0 "?r snap st'"] show ?thesis
      by (simp only:)
  qed
  then show ?thesis
    using passive_replay_refines [of W S tail 0 r]
    by (auto simp: apply_passive_transfer_def apply_state_transfer_def replica_import_def Let_def
        app_of_def split: option.splits sum.splits)
qed

end
