(* ===== verification/Passive_Claims.thy ===== *)
theory Passive_Claims
  imports Passive Driver_Claims
begin

section \<open>Claims about passive rejoin\<close>

text \<open>
  What a standby does with its clients' writes, when it may be promoted, what one round brings
  it, and that against a survivor that has gone quiet it is promoted after at most three polls,
  with exactly the survivor's state. The survivor is a ring member that answers with
  \<open>serve_state_transfer\<close>; \<open>serves\<close> says which addresses reach it.
\<close>

subsection \<open>Writes are refused, polls alone change the standby\<close>

fun write_replies :: "('n, 'w) passive_event list \<Rightarrow> ('w \<times> reply) list" where
  "write_replies [] = []"
| "write_replies (PassiveWrite argv w # evs) = (w, read_only_reply) # write_replies evs"
| "write_replies (_ # evs) = write_replies evs"

fun polls :: "('n, 'w) passive_event list \<Rightarrow> 'n list" where
  "polls [] = []"
| "polls (PollTick net # evs) = net # polls evs"
| "polls (_ # evs) = polls evs"

lemma idle_cases: "(i :: u32) < PROMOTE_IDLE_ROUNDS \<longleftrightarrow> i = 0 \<or> i = 1"
proof -
  have "i < 2 \<longleftrightarrow> i = 0 \<or> i = 1"
    by unat_arith
  then show ?thesis by (simp add: PROMOTE_IDLE_ROUNDS_def)
qed

lemma poll_round_idle:
  assumes "poll_round W S fetch cfg net p = (x, p')" "pv_idle p < PROMOTE_IDLE_ROUNDS"
  shows "x = Tailing \<Longrightarrow> pv_idle p' < PROMOTE_IDLE_ROUNDS \<and> unat (pv_idle p') \<le> unat (pv_idle p) + 1"
    and "x = Promoted seed \<Longrightarrow> rj_promote cfg \<and> pv_idle p = 1"
    and "x \<noteq> ShutDown"
proof -
  from assms(2) consider "pv_idle p = 0" | "pv_idle p = 1"
    unfolding idle_cases by blast
  moreover have "\<not> (2 :: u32) \<le> 1" "(0 :: u32) < 2" "(1 :: u32) < 2"
    by (simp_all add: word_le_nat_alt word_less_nat_alt)
  ultimately have "(x = Tailing \<longrightarrow> pv_idle p' < PROMOTE_IDLE_ROUNDS \<and> unat (pv_idle p') \<le> unat (pv_idle p) + 1)
      \<and> (x = Promoted seed \<longrightarrow> rj_promote cfg \<and> pv_idle p = 1) \<and> x \<noteq> ShutDown"
    by cases (use assms(1)[symmetric] in \<open>auto simp: poll_round_def Let_def PROMOTE_IDLE_ROUNDS_def
        split: prod.splits option.splits if_splits\<close>)
  then show "x = Tailing \<Longrightarrow> pv_idle p' < PROMOTE_IDLE_ROUNDS \<and> unat (pv_idle p') \<le> unat (pv_idle p) + 1"
    "x = Promoted seed \<Longrightarrow> rj_promote cfg \<and> pv_idle p = 1" "x \<noteq> ShutDown"
    by blast+
qed

lemma standby_run:
  assumes "passive_catch_up W S fetch cfg evs p = (ef, x, p', rest)"
    and "pv_idle p < PROMOTE_IDLE_ROUNDS"
  shows "\<exists>done. evs = done @ rest \<and> ef = write_replies done
    \<and> passive_catch_up W S fetch cfg (map PollTick (polls done)) p
        = ([] :: ('w \<times> reply) list, (if x = ShutDown then Tailing else x), p', [])
    \<and> (\<forall>seed. x = Promoted seed \<longrightarrow> rj_promote cfg \<and> 2 \<le> unat (pv_idle p) + length (polls done))"
  using assms
proof (induction evs arbitrary: p ef)
  case (Cons ev evs)
  show ?case
  proof (cases ev)
    case (PollTick net)
    obtain y p1 where r: "poll_round W S fetch cfg net p = (y, p1)" by fastforce
    note idle = poll_round_idle [OF r Cons.prems(2)]
    show ?thesis
    proof (cases y)
      case Tailing
      obtain ef1 x1 p2 rest1 where t: "passive_catch_up W S fetch cfg evs p1 = (ef1, x1, p2, rest1)"
        using prod_cases4 by blast
      then have eq: "ef1 = ef" "x1 = x" "p2 = p'" "rest1 = rest"
        using Cons.prems(1) PollTick r Tailing by (simp_all add: passive_step_def)
      from Cons.IH [OF t [unfolded eq]] idle(1) [OF Tailing] obtain "done" where
        d: "evs = done @ rest" "ef = write_replies done"
          "passive_catch_up W S fetch cfg (map PollTick (polls done)) p1
            = ([] :: ('w \<times> reply) list, (if x = ShutDown then Tailing else x), p', [])"
          "\<And>seed. x = Promoted seed \<Longrightarrow> rj_promote cfg \<and> 2 \<le> unat (pv_idle p1) + length (polls done)"
        by blast
      show ?thesis
        using d(1,2,3) d(4) idle(1) [OF Tailing] PollTick r Tailing
        by (intro exI [of _ "ev # done"]) (fastforce simp: passive_step_def)
    next
      case (Promoted seed)
      then show ?thesis
        using Cons.prems PollTick r idle(2)
        by (intro exI [of _ "[ev]"]) (auto simp: passive_step_def)
    next
      case ShutDown
      then show ?thesis using idle(3) by simp
    qed
  next
    case (PassiveWrite argv w)
    obtain ef1 x1 p2 rest1 where t: "passive_catch_up W S fetch cfg evs p = (ef1, x1, p2, rest1)"
      using prod_cases4 by blast
    then have eq: "ef = (w, read_only_reply) # ef1" "x1 = x" "p2 = p'" "rest1 = rest"
      using Cons.prems(1) PassiveWrite by (simp_all add: passive_step_def)
    from Cons.IH [OF t [unfolded eq] Cons.prems(2)] obtain "done" where
      "evs = done @ rest" "ef1 = write_replies done"
      "passive_catch_up W S fetch cfg (map PollTick (polls done)) p
        = ([] :: ('w \<times> reply) list, (if x = ShutDown then Tailing else x), p', [])"
      "\<forall>seed. x = Promoted seed \<longrightarrow> rj_promote cfg \<and> 2 \<le> unat (pv_idle p) + length (polls done)"
      by blast
    then show ?thesis
      using PassiveWrite eq by (intro exI [of _ "ev # done"]) simp
  next
    case ChannelClosed
    then show ?thesis
      using Cons.prems(1) by (intro exI [of _ "[ev]"]) (auto simp: passive_step_def)
  qed
qed auto

text \<open>
  C28: a standby is read-only: every client write it takes is answered with the fixed error and
  leaves it as it was, its state is what the polls alone make of it; it is promoted only when the
  operator asked for that, and not before two polls.
\<close>

theorem standby_read_only:
  assumes "passive_catch_up W S fetch cfg evs p = (ef, x, p', rest)" "pv_idle p = 0"
  shows "\<exists>done. evs = done @ rest \<and> ef = write_replies done
    \<and> passive_catch_up W S fetch cfg (map PollTick (polls done)) p
        = ([] :: ('w \<times> reply) list, (if x = ShutDown then Tailing else x), p', [])
    \<and> (\<forall>seed. x = Promoted seed \<longrightarrow> rj_promote cfg \<and> 2 \<le> length (polls done))"
  using standby_run [OF assms(1)] assms(2) by (simp add: idle_cases)

subsection \<open>A survivor that serves its state\<close>

definition serves :: "('a, 'n) fetcher \<Rightarrow> ('a \<Rightarrow> bool) \<Rightarrow> (u64 \<Rightarrow> bytes \<times> bytes list) \<Rightarrow> bool" where
  "serves fetch up xfer \<longleftrightarrow> (\<forall>a x net. fst (fetch a x net) = (if up a then Some (xfer x) else None))"

lemma serves_cases:
  assumes "serves fetch up xfer"
  obtains (up) net1 where "up a" "fetch a x net = (Some (xfer x), net1)"
  | (down) net1 where "\<not> up a" "fetch a x net = (None, net1)"
  using assms unfolding serves_def by (metis prod.collapse)

lemma fetch_round_serves:
  assumes "serves fetch up xfer" "\<exists>a\<in>set addrs. up a"
    and "apply_passive_transfer W S (xfer x) app = (Inr n, app1)"
  shows "\<exists>net1. fetch_round W S fetch x addrs net app = (True, 0 < n \<or> fst (xfer x) \<noteq> [], net1, app1)"
  using assms(2)
proof (induction addrs arbitrary: net)
  case (Cons a addrs)
  from serves_cases [OF assms(1), of a x net] show ?case
    by cases (use Cons assms(3) in auto)
qed simp

lemma final_snapshot_serves:
  assumes "serves fetch up xfer" "\<exists>a\<in>set addrs. up a"
    and "xfer 0 = (enc_snap W snap, [])" "dec_snap W (enc_snap W snap) = Some snap"
    and "enc_snap W snap \<noteq> []" "sn_view snap = Some view"
    and "st_import S (sn_store snap) (fst app) = Inr store"
  shows "final_snapshot_for_promotion W S fetch addrs net app =
    (Some \<lparr>seed_dedup = sn_dedup snap,
       seed_log = resumed_at (sn_delivered_index snap) (dl_cap (snd (snd app))),
       seed_protocol = sn_protocol snap, seed_view = view\<rparr>,
     store, sn_dedup snap, resumed_at (sn_delivered_index snap) (dl_cap (snd (snd app))))"
  using assms(2)
proof (induction addrs arbitrary: net)
  case (Cons a addrs)
  from serves_cases [OF assms(1), of a 0 net] show ?case
    by cases (use Cons assms(3-7) in \<open>auto simp: replay_lenient_def\<close>)
qed simp

lemma passive_replay_run:
  assumes "map (dec_entry W) frames = map Some es"
  shows "\<exists>n'. passive_replay W S frames n app = (Inr n', app_run S (map de_op es) app)"
proof -
  let ?r = "replica_with 0 app"
  obtain n' where "fst (replay_tail W S frames n ?r) = Inr n'"
    using replay_tail_run(1) [OF assms, of S n ?r] by blast
  then show ?thesis
    using replay_tail_run(2) [OF assms, of S n ?r] passive_replay_refines [of W S frames n ?r]
    by simp
qed

lemma first_seen_old:
  assumes "dedup_ok d" "usable_id (op_id op)" "op_id op \<in> seen d"
  shows "first_seen (origin op) (request_id op) d = (False, d)"
proof -
  have "dedup_run [op_id op] d = d"
    using assms by (intro dedup_run_old) simp_all
  then have "snd (first_seen (origin op) (request_id op) d) = d"
    by (simp add: dedup_run_def op_id_def)
  moreover have "\<not> fst (first_seen (origin op) (request_id op) d)"
    using first_seen_spec(2) [OF assms(1), of "request_id op" "origin op"] assms(2,3)
    by (simp add: usable_id_def op_id_def)
  ultimately show ?thesis by (simp add: prod_eq_iff)
qed

lemma passive_replay_old:
  assumes "map (dec_entry W) frames = map Some es"
    and "dedup_ok d" "\<And>e. e \<in> set es \<Longrightarrow> usable_id (op_id (de_op e)) \<and> op_id (de_op e) \<in> seen d"
  shows "passive_replay W S frames n (st, d, l) = (Inr n, st, d, l)"
  using assms(1,3)
proof (induction frames arbitrary: es)
  case (Cons f frames)
  then obtain e es' where "es = e # es'" by (cases es) auto
  with Cons show ?case
    using first_seen_old [OF assms(2), of "de_op e"]
    by (simp add: apply_delivered_op_parts_def)
qed simp

text \<open>
  A ring member that has gone quiet: its log is the bounded log of a history of usable ids with at
  least one effect, its dedup state is well formed, and codec and store keep their laws.
\<close>

definition quiet_survivor ::
  "('c, 't, 'p, 'r, 'q, 'd, 'v, 'm, 'st, 'f) env \<Rightarrow> ('st \<Rightarrow> bool) \<Rightarrow> write_op list
     \<Rightarrow> ('c, 'd, 'v, 'st, 'w) driver_state \<Rightarrow> bool" where
  "quiet_survivor E ok hs D \<longleftrightarrow>
     state_transfer (e_wire E) (e_store E) ok \<and> ok (d_store D) \<and> dedup_ok (d_dedup D)
     \<and> (\<exists>b cap. d_log D = log_run b cap hs \<and> no_wrap b hs)
     \<and> list_all usable_id (map op_id hs) \<and> 0 < head_index (d_log D)"

lemma serve_tail:
  assumes "0 < x" "can_serve_from x (d_log D)"
  shows "serve_state_transfer E x D =
    ([], encode_tail (enc_entry (e_wire E)) (entries_from x (d_log D)))"
  using assms
  by (simp add: serve_state_transfer_def build_state_transfer_lazy_def can_serve_from_def head_index_def)

lemma serve_snapshot:
  assumes "quiet_survivor E ok hs D" "\<not> (0 < x \<and> can_serve_from x (d_log D))"
  shows "serve_state_transfer E x D = (enc_snap (e_wire E) (driver_snapshot E D), [])"
  using assms entries_from_head
  by (auto simp: serve_state_transfer_def build_state_transfer_lazy_def can_serve_from_def
      head_index_def Let_def driver_snapshot_def encode_tail_def quiet_survivor_def)

lemma log_all_head: "head_index (log_all ops l) = head_index l + of_nat (length ops)"
  by (induction ops arbitrary: l)
    (simp_all add: log_all_def head_index_def append_op_def Let_def)

lemma length_fresh_ops: "length (fresh_ops ids ops) \<le> length ops"
  by (induction ids ops rule: fresh_ops.induct) auto

text \<open>A standby that the survivor can only send what it has already seen.\<close>

definition caught_up :: "delivered_log \<Rightarrow> 'st app \<Rightarrow> bool" where
  "caught_up lg a \<longleftrightarrow>
     dedup_ok (fst (snd a)) \<and> 0 < pv_head a \<and> can_serve_from (pv_head a) lg
     \<and> (\<forall>e\<in>set (entries_from (pv_head a) lg).
          usable_id (op_id (de_op e)) \<and> op_id (de_op e) \<in> seen (fst (snd a)))"

lemma entries_usable:
  assumes "quiet_survivor E ok hs D" "e \<in> set (entries_from x (d_log D))"
  shows "usable_id (op_id (de_op e))"
proof -
  obtain b cap where l: "d_log D = log_run b cap hs"
    using assms(1) by (auto simp: quiet_survivor_def)
  have "e \<in> set (numbered b hs)"
    using assms(2) by (auto simp: entries_from_def l log_simps dest: in_set_dropD)
  then have "de_op e \<in> set hs"
    by (auto simp: numbered_def)
  then show ?thesis
    using assms(1) by (auto simp: quiet_survivor_def list_all_iff)
qed

lemma caught_up_transfer:
  assumes "quiet_survivor E ok hs D" "caught_up (d_log D) a"
  shows "apply_passive_transfer (e_wire E) (e_store E) (serve_state_transfer E (pv_head a) D) a
    = (Inr 0, a)"
proof -
  have laws: "wire_laws (e_wire E)"
    using assms(1) by (simp add: quiet_survivor_def state_transfer_def)
  obtain st d l where a: "a = (st, d, l)" by (cases a)
  show ?thesis
    using passive_replay_old [OF wire_laws.dec_encode_tail [OF laws], of d "entries_from (pv_head a) (d_log D)"
        "e_store E" 0 st l] assms(2) a
    by (simp add: caught_up_def serve_tail apply_passive_transfer_def)
qed

lemma tail_catches_up:
  assumes "quiet_survivor E ok hs D" "dedup_ok (fst (snd a))"
    and "0 < pv_head a" "can_serve_from (pv_head a) (d_log D)"
    and "a1 = app_run (e_store E) (map de_op (entries_from (pv_head a) (d_log D))) a"
  shows "caught_up (d_log D) a1"
proof -
  obtain st d l where a: "a = (st, d, l)" by (cases a)
  obtain b cap where l: "d_log D = log_run b cap hs" "no_wrap b hs"
    using assms(1) by (auto simp: quiet_survivor_def)
  note nw = l(2) [unfolded no_wrap_def]
  let ?es = "entries_from (pv_head a) (d_log D)"
  let ?ops = "map de_op ?es"
  let ?k = "length (fresh_ops (seen d) ?ops)"
  have use: "list_all usable_id (map op_id ?ops)"
    using entries_usable [OF assms(1)] by (auto simp: list_all_iff)
  have d: "dedup_ok d" using assms(2) a by simp
  note run = app_run_fresh [OF d use, of "e_store E" st l]
  have a1: "fst (snd a1) = dedup_run (map op_id ?ops) d" "pv_head a1 = pv_head a + of_nat ?k"
    using run by (simp_all add: assms(5) a pv_head_def log_all_head)
  have dd: "dedup_ok (fst (snd a1))" "seen (fst (snd a1)) = seen d \<union> op_id ` set ?ops"
    using dedup_run_spec [OF d use] by (simp_all add: a1(1) image_image)
  have serve: "unat b + (length hs - max cap 1) \<le> unat (pv_head a)" "unat (pv_head a) \<le> unat b + length hs"
    using assms(4) can_serve_run [OF nw, of "pv_head a" cap] by (simp_all add: l(1))
  have "?ops = drop (unat (pv_head a) - unat b) hs"
    using entries_from_run [OF nw, of "pv_head a" cap] assms(4) by (simp add: l(1))
  then have "length ?ops = unat b + length hs - unat (pv_head a)"
    using serve by simp
  moreover have "?k \<le> length ?ops"
    by (rule length_fresh_ops)
  ultimately have k: "unat (pv_head a) + ?k \<le> unat b + length hs"
    using serve(2) by linarith
  then have head: "unat (pv_head a1) = unat (pv_head a) + ?k"
    using unat_index [of "pv_head a" ?k ?k] nw by (simp add: a1(2))
  have "can_serve_from (pv_head a1) (d_log D)"
    using can_serve_run [OF nw, of "pv_head a1" cap] serve(1) k head by (simp add: l(1))
  moreover have "set (entries_from (pv_head a1) (d_log D)) \<subseteq> set ?es"
    using head by (auto simp: entries_from_def word_le_nat_alt)
  moreover have "0 < pv_head a1"
    using head assms(3) by (simp add: word_less_nat_alt)
  ultimately show ?thesis
    using dd entries_usable [OF assms(1)] by (fastforce simp: caught_up_def)
qed

lemma round_catches_up:
  assumes "quiet_survivor E ok hs D" "dedup_ok (fst (snd a))"
  shows "\<exists>n a1. apply_passive_transfer (e_wire E) (e_store E)
      (serve_state_transfer E (pv_head a) D) a = (Inr n, a1) \<and> caught_up (d_log D) a1"
proof (cases "0 < pv_head a \<and> can_serve_from (pv_head a) (d_log D)")
  case True
  let ?es = "entries_from (pv_head a) (d_log D)"
  have laws: "wire_laws (e_wire E)"
    using assms(1) by (simp add: quiet_survivor_def state_transfer_def)
  obtain n where "passive_replay (e_wire E) (e_store E) (encode_tail (enc_entry (e_wire E)) ?es) 0 a
      = (Inr n, app_run (e_store E) (map de_op ?es) a)"
    using passive_replay_run [OF wire_laws.dec_encode_tail [OF laws]] by blast
  moreover have "caught_up (d_log D) (app_run (e_store E) (map de_op ?es) a)"
    using True by (intro tail_catches_up [OF assms]) auto
  ultimately show ?thesis
    using True by (cases a) (simp add: serve_tail apply_passive_transfer_def)
next
  case False
  obtain st d l where a: "a = (st, d, l)" by (cases a)
  obtain b cap where log: "d_log D = log_run b cap hs" "no_wrap b hs"
    using assms(1) by (auto simp: quiet_survivor_def)
  let ?a1 = "(d_store D, d_dedup D, resumed_at (head_index (d_log D)) (dl_cap l))"
  have laws: "wire_laws (e_wire E)" "snapshot_store (e_store E) ok"
    using assms(1) by (simp_all add: quiet_survivor_def state_transfer_def)
  have "apply_passive_transfer (e_wire E) (e_store E) (serve_state_transfer E (pv_head a) D) a
      = (Inr 0, ?a1)"
    using False wire_laws.dec_enc_snap [OF laws(1)] wire_laws.enc_snap_nonempty [OF laws(1)]
      snapshot_store.import_export [OF laws(2)] assms(1)
    by (simp add: serve_snapshot [OF assms(1)] apply_passive_transfer_def a driver_snapshot_def
        quiet_survivor_def)
  moreover have "caught_up (d_log D) ?a1"
  proof -
    have "pv_head ?a1 = head_index (d_log D)"
      by (simp add: pv_head_def head_index_def resumed_at_def)
    moreover have "can_serve_from (head_index (d_log D)) (d_log D)"
      using can_serve_run [OF log(2) [unfolded no_wrap_def], of "head_index (d_log D)" cap]
        unat_index [OF log(2) [unfolded no_wrap_def], of "length hs"]
      by (simp add: log(1) head_index_def log_simps)
    ultimately show ?thesis
      using assms(1) entries_from_head [OF log(2), of cap]
      by (simp add: caught_up_def quiet_survivor_def log(1))
  qed
  ultimately show ?thesis by blast
qed

subsection \<open>Promotion\<close>

text \<open>
  C25: the standby's own transfer code, kept apart from the replica's, does what the replica's does
  on store, dedup state and log, for every snapshot and tail, decodable or not: same result, same
  count of applied effects, same state left behind by an error. Only the protocol state, which a
  standby does not have, is left out.
\<close>

theorem passive_transfer_refines:
  "apply_passive_transfer W S (snapshot, tail) (app_of r) =
     (case apply_state_transfer C W S snapshot tail r of (res, r') \<Rightarrow> (res, app_of r'))"
  using passive_transfer_app [of W S snapshot tail r C] by (simp split: prod.splits)

text \<open>One poll against a quiet survivor: the standby is level with it, and promoted when that
  is the second idle round.\<close>

lemma quiet_poll:
  assumes "quiet_survivor E ok hs D" "serves fetch up (\<lambda>x. serve_state_transfer E x D)"
    and "\<exists>a\<in>set (rj_survivor_addrs cfg). up a" "rj_promote cfg"
    and "dedup_ok (fst (snd (pv_app p)))" "pv_idle p < PROMOTE_IDLE_ROUNDS"
  shows "case poll_round (e_wire E) (e_store E) fetch cfg net p of (x, p1) \<Rightarrow>
    (x = Tailing \<and> caught_up (d_log D) (pv_app p1)
      \<and> pv_idle p1 = (if caught_up (d_log D) (pv_app p) then 1 else pv_idle p1) \<and> pv_idle p1 < PROMOTE_IDLE_ROUNDS
      \<and> (caught_up (d_log D) (pv_app p) \<longrightarrow> pv_idle p = 0))
    \<or> (\<exists>lg. x = Promoted \<lparr>seed_dedup = d_dedup D, seed_log = lg,
          seed_protocol = core_export (e_core E) (d_core D),
          seed_view = \<lparr>vi_installed_view = vc_installed_view (e_vc E) (d_vc D),
                       vi_dead = map of_nat (d_dead D)\<rparr>\<rparr>
        \<and> pv_app p1 = (d_store D, d_dedup D, lg) \<and> head_index lg = head_index (d_log D)
        \<and> log_is_empty lg)"
proof -
  let ?snap = "driver_snapshot E D"
  have laws: "wire_laws (e_wire E)" "snapshot_store (e_store E) ok"
    using assms(1) by (simp_all add: quiet_survivor_def state_transfer_def)
  obtain n a1 where tr: "apply_passive_transfer (e_wire E) (e_store E)
      (serve_state_transfer E (pv_head (pv_app p)) D) (pv_app p) = (Inr n, a1)"
    and up1: "caught_up (d_log D) a1"
    and same: "caught_up (d_log D) (pv_app p) \<Longrightarrow> n = 0 \<and> a1 = pv_app p"
    using round_catches_up [OF assms(1,5)] caught_up_transfer [OF assms(1)] by fastforce
  have snap0: "fst (serve_state_transfer E (pv_head (pv_app p)) D) = []"
    if "caught_up (d_log D) (pv_app p)"
    using that by (simp add: caught_up_def serve_tail)
  obtain net1 where fr: "fetch_round (e_wire E) (e_store E) fetch (pv_head (pv_app p))
      (rj_survivor_addrs cfg) net (pv_app p)
      = (True, 0 < n \<or> fst (serve_state_transfer E (pv_head (pv_app p)) D) \<noteq> [], net1, a1)"
    using fetch_round_serves [OF assms(2,3) tr] by blast
  let ?lg = "resumed_at (head_index (d_log D)) (dl_cap (snd (snd a1)))"
  have "serve_state_transfer E 0 D = (enc_snap (e_wire E) ?snap, [])"
    by (rule serve_snapshot [OF assms(1)]) simp
  moreover have "st_import (e_store E) (sn_store ?snap) (fst a1) = Inr (d_store D)"
    using snapshot_store.import_export [OF laws(2)] assms(1)
    by (simp add: driver_snapshot_def quiet_survivor_def)
  ultimately have fin: "final_snapshot_for_promotion (e_wire E) (e_store E) fetch
      (rj_survivor_addrs cfg) net1 a1 =
      (Some \<lparr>seed_dedup = d_dedup D, seed_log = ?lg,
          seed_protocol = core_export (e_core E) (d_core D),
          seed_view = \<lparr>vi_installed_view = vc_installed_view (e_vc E) (d_vc D),
                       vi_dead = map of_nat (d_dead D)\<rparr>\<rparr>, d_store D, d_dedup D, ?lg)"
    using final_snapshot_serves [OF assms(2,3), of "e_wire E" ?snap "\<lparr>vi_installed_view =
        vc_installed_view (e_vc E) (d_vc D), vi_dead = map of_nat (d_dead D)\<rparr>" "e_store E" a1
        "d_store D" net1]
      wire_laws.dec_enc_snap [OF laws(1)] wire_laws.enc_snap_nonempty [OF laws(1)]
    by (simp add: driver_snapshot_def)
  have lg: "head_index ?lg = head_index (d_log D)" "log_is_empty ?lg"
    by (simp_all add: head_index_def resumed_at_def log_is_empty_def)
  have pos: "0 < pv_head a1"
    using up1 by (simp add: caught_up_def)
  have two: "\<not> (2 :: u32) \<le> 1" "(0 :: u32) < 2" "(1 :: u32) < 2"
    by (simp_all add: word_le_nat_alt word_less_nat_alt)
  from assms(6) consider "pv_idle p = 0" | "pv_idle p = 1"
    unfolding idle_cases by blast
  then show ?thesis
    by cases (use fr fin lg pos two up1 same snap0 assms(4) in
      \<open>auto simp: poll_round_def Let_def PROMOTE_IDLE_ROUNDS_def\<close>)
qed

text \<open>The polls a standby is away from its promotion.\<close>

definition polls_left :: "delivered_log \<Rightarrow> 'st standby \<Rightarrow> nat" where
  "polls_left lg p = (if caught_up lg (pv_app p) then if pv_idle p = 1 then 1 else 2 else 3)"

lemma quiet_run:
  assumes "quiet_survivor E ok hs D" "serves fetch up (\<lambda>x. serve_state_transfer E x D)"
    and "\<exists>a\<in>set (rj_survivor_addrs cfg). up a" "rj_promote cfg"
    and "dedup_ok (fst (snd (pv_app p)))" "pv_idle p < PROMOTE_IDLE_ROUNDS"
    and "polls_left (d_log D) p \<le> length (polls evs)" "ChannelClosed \<notin> set evs"
  shows "\<exists>ef p' rest lg.
    passive_catch_up (e_wire E) (e_store E) fetch cfg evs p =
      (ef, Promoted \<lparr>seed_dedup = d_dedup D, seed_log = lg,
          seed_protocol = core_export (e_core E) (d_core D),
          seed_view = \<lparr>vi_installed_view = vc_installed_view (e_vc E) (d_vc D),
                       vi_dead = map of_nat (d_dead D)\<rparr>\<rparr>, p', rest)
    \<and> pv_app p' = (d_store D, d_dedup D, lg)
    \<and> head_index lg = head_index (d_log D) \<and> log_is_empty lg
    \<and> length (polls evs) \<le> length (polls rest) + polls_left (d_log D) p"
  using assms(5-8)
proof (induction evs arbitrary: p)
  case Nil
  then show ?case by (simp add: polls_left_def split: if_splits)
next
  case (Cons ev evs)
  show ?case
  proof (cases ev)
    case (PollTick net)
    obtain x p1 where r: "poll_round (e_wire E) (e_store E) fetch cfg net p = (x, p1)" by fastforce
    note quiet = quiet_poll [OF assms(1-4) Cons.prems(1,2), of net, unfolded r prod.case]
    show ?thesis
    proof (cases "x = Tailing")
      case True
      with quiet have t: "caught_up (d_log D) (pv_app p1)" "pv_idle p1 < PROMOTE_IDLE_ROUNDS"
        "caught_up (d_log D) (pv_app p) \<Longrightarrow> pv_idle p = 0 \<and> pv_idle p1 = 1"
        by auto
      have less: "polls_left (d_log D) p1 < polls_left (d_log D) p"
        using t by (simp add: polls_left_def)
      have "dedup_ok (fst (snd (pv_app p1)))" "polls_left (d_log D) p1 \<le> length (polls evs)"
        "ChannelClosed \<notin> set evs"
        using t(1) less Cons.prems(3,4) PollTick by (auto simp: caught_up_def)
      from Cons.IH [OF this(1) t(2) this(2,3)] less show ?thesis
        using PollTick r True by (fastforce simp: passive_step_def)
    next
      case False
      have "1 \<le> polls_left (d_log D) p"
        by (simp add: polls_left_def)
      then show ?thesis
        using quiet False PollTick r by (auto simp: passive_step_def)
    qed
  next
    case (PassiveWrite argv w)
    then have "polls_left (d_log D) p \<le> length (polls evs)" "ChannelClosed \<notin> set evs"
      using Cons.prems(3,4) by auto
    from Cons.IH [OF Cons.prems(1,2) this] show ?thesis
      using PassiveWrite by (fastforce simp: passive_step_def)
  qed (use Cons.prems in simp)
qed

text \<open>
  C16: a standby that may be promoted is promoted: once a survivor it can reach has gone quiet and
  has delivered at least one effect, it leaves the loop within three polls, whatever it held,
  whichever other survivors are down, and however many client writes come in between; the seed it
  hands over is the survivor's dedup state, protocol state and view, its store is the survivor's,
  and its log continues at the survivor's index.
\<close>

theorem standby_promotes:
  assumes "quiet_survivor E ok hs D" "serves fetch up (\<lambda>x. serve_state_transfer E x D)"
    and "\<exists>a\<in>set (rj_survivor_addrs cfg). up a" "rj_promote cfg"
    and "dedup_ok (fst (snd (pv_app p)))" "pv_idle p < PROMOTE_IDLE_ROUNDS"
    and "3 \<le> length (polls evs)" "ChannelClosed \<notin> set evs"
  shows "\<exists>ef p' rest lg.
    passive_catch_up (e_wire E) (e_store E) fetch cfg evs p =
      (ef, Promoted \<lparr>seed_dedup = d_dedup D, seed_log = lg,
          seed_protocol = core_export (e_core E) (d_core D),
          seed_view = \<lparr>vi_installed_view = vc_installed_view (e_vc E) (d_vc D),
                       vi_dead = map of_nat (d_dead D)\<rparr>\<rparr>, p', rest)
    \<and> pv_app p' = (d_store D, d_dedup D, lg)
    \<and> head_index lg = head_index (d_log D) \<and> log_is_empty lg
    \<and> length (polls evs) \<le> length (polls rest) + 3"
proof -
  have "polls_left (d_log D) p \<le> 3"
    by (simp add: polls_left_def)
  with assms(7) quiet_run [OF assms(1-6) _ assms(8)] show ?thesis
    by fastforce
qed

subsection \<open>Witnesses\<close>

text \<open>A ring member that has delivered two writes, and a network in which address 1 reaches it.\<close>

definition quiet_member :: "(nat, nat, nat, mem_store, nat) driver_state" where
  "quiet_member = demo_state
     \<lparr>d_core := 5, d_store := \<lparr>data = [(''a'', Str ''x''), (''b'', Str ''y'')], ttl = []\<rparr>,
      d_dedup := dedup_run [(1, 0), (2, 0)] dedup_new,
      d_log := log_run 0 2 [op_set 1 0 ''a'' ''x'', op_set 2 0 ''b'' ''y''], d_dead := [2]\<rparr>"

definition demo_fetch :: "(nat, unit) fetcher" where
  "demo_fetch a x net = (if a = 1 then Some (serve_state_transfer demo_env x quiet_member) else None, net)"

definition demo_rejoin :: "bool \<Rightarrow> nat rejoin_cfg" where
  "demo_rejoin b = \<lparr>rj_survivor_addrs = [2, 1], rj_promote = b\<rparr>"

definition demo_standby :: "mem_store standby" where
  "demo_standby = \<lparr>pv_app = (\<lparr>data = [(''old'', Str ''1'')], ttl = []\<rparr>, dedup_new, log_run 0 2 []), pv_idle = 0\<rparr>"

lemma quiet_member_ok:
  "quiet_survivor demo_env store_ok [op_set 1 0 ''a'' ''x'', op_set 2 0 ''b'' ''y''] quiet_member"
proof -
  have "d_log quiet_member = log_run 0 2 [op_set 1 0 ''a'' ''x'', op_set 2 0 ''b'' ''y'']"
    "d_dedup quiet_member = dedup_run [(1, 0), (2, 0)] dedup_new"
    by (simp_all add: quiet_member_def)
  moreover have "store_ok (d_store quiet_member)" "0 < head_index (d_log quiet_member)"
    "list_all usable_id (map op_id [op_set 1 0 ''a'' ''x'', op_set 2 0 ''b'' ''y''])"
    by code_simp+
  moreover have "dedup_ok (dedup_run [(1, 0), (2, 0)] dedup_new)"
    by (rule dedup_run_spec) (simp_all add: usable_id_def)
  moreover have "no_wrap 0 [op_set 1 0 ''a'' ''x'', op_set 2 0 ''b'' ''y'']"
    by (simp add: no_wrap_def)
  ultimately show ?thesis
    using mem_transfer.state_transfer_axioms
    unfolding quiet_survivor_def demo_parts by auto
qed

theorem standby_promotes_witness:
  "\<exists>ef seed p' rest.
     passive_catch_up wire0 mem0 demo_fetch (demo_rejoin True)
       [PollTick (), PassiveWrite [''SET'', ''k'', ''v''] (7 :: nat), PollTick (), PollTick (), PollTick ()]
       demo_standby = (ef, Promoted seed, p', rest)
     \<and> fst (pv_app p') = \<lparr>data = [(''a'', Str ''x''), (''b'', Str ''y'')], ttl = []\<rparr>
     \<and> vi_dead (seed_view seed) = [2]"
proof -
  let ?evs = "[PollTick (), PassiveWrite [''SET'', ''k'', ''v''] (7 :: nat), PollTick (), PollTick (), PollTick ()]"
  have serves: "serves demo_fetch (\<lambda>a. a = 1) (\<lambda>x. serve_state_transfer demo_env x quiet_member)"
    by (simp add: serves_def demo_fetch_def)
  have cfg: "\<exists>a\<in>set (rj_survivor_addrs (demo_rejoin True)). a = 1" "rj_promote (demo_rejoin True)"
    by (simp_all add: demo_rejoin_def)
  have p: "dedup_ok (fst (snd (pv_app demo_standby)))" "pv_idle demo_standby < PROMOTE_IDLE_ROUNDS"
    by (simp_all add: demo_standby_def PROMOTE_IDLE_ROUNDS_def word_less_nat_alt)
  from standby_promotes [OF quiet_member_ok serves cfg p, of ?evs] show ?thesis
    by (fastforce simp: demo_parts quiet_member_def demo_state_def)
qed

theorem standby_read_only_witness:
  "passive_catch_up wire0 mem0 (\<lambda>a x net. (None, net)) (demo_rejoin True)
       [PollTick (), PassiveWrite [''SET'', ''k'', ''v''] (7 :: nat), ChannelClosed, PassiveWrite [''DEL'', ''k''] 8]
       demo_standby = ([(7, read_only_reply)], ShutDown, demo_standby, [PassiveWrite [''DEL'', ''k''] 8])
   \<and> passive_catch_up wire0 mem0 (\<lambda>a x net. (None, net)) (demo_rejoin True) [PollTick ()] demo_standby
     = ([] :: (nat \<times> reply) list, Tailing, demo_standby, [])"
proof -
  let ?fetch = "(\<lambda>a x net. (None, net)) :: (nat, unit) fetcher"
  let ?evs = "[PollTick (), PassiveWrite [''SET'', ''k'', ''v''] (7 :: nat), ChannelClosed, PassiveWrite [''DEL'', ''k''] 8]"
  have run: "passive_catch_up wire0 mem0 ?fetch (demo_rejoin True) ?evs demo_standby
      = ([(7, read_only_reply)], ShutDown, demo_standby, [PassiveWrite [''DEL'', ''k''] 8])"
    by (simp add: passive_step_def poll_round_def demo_rejoin_def demo_standby_def)
  have idle: "pv_idle demo_standby = 0"
    by (simp add: demo_standby_def)
  from standby_read_only [OF run idle] obtain "done" where
    "?evs = done @ [PassiveWrite [''DEL'', ''k''] 8]"
    "passive_catch_up wire0 mem0 ?fetch (demo_rejoin True) (map PollTick (polls done)) demo_standby
     = ([] :: (nat \<times> reply) list, Tailing, demo_standby, [])"
    by auto
  moreover from this(1) have "done = [PollTick (), PassiveWrite [''SET'', ''k'', ''v''] 7, ChannelClosed]"
    by (metis append1_eq_conv append_Cons append_Nil)
  ultimately show ?thesis using run by simp
qed

end
