(* ===== verification/Conn_Gate.thy ===== *)
theory Conn_Gate
  imports Reply_Reader "HOL-Library.Multiset"
begin

section \<open>Listener backpressure: the connection gate\<close>

text \<open>
  \<open>ConnGate\<close>, \<open>ConnGuard\<close> and the accept loop of \<open>src/crates/trains-valkey/src/proxy.rs\<close>. A
  connection is admitted when a permit of the global semaphore is free and the counter of its
  address is below the per-address cap; a refused one gets \<open>BUSY_REPLY\<close> and is closed. The guard
  of an admitted connection releases both holds when its task ends. A \<open>HashMap\<close> whose order
  nothing observes is a map.
\<close>

named_theorems gate_simps \<open>permits and counters after an operation of the gate\<close>

definition MAX_CLIENT_CONNS :: nat where
  "MAX_CLIENT_CONNS = 512"

definition PER_IP_CONN_CAP :: u32 where
  "PER_IP_CONN_CAP = 32"

definition BUSY_REPLY :: bytes where
  "BUSY_REPLY = ''-ERR busy: server connection cap reached'' @ crlf"

record 'ip conn_gate =
  cg_permits :: nat  \<comment> \<open>free permits of the semaphore\<close>
  cg_per_ip :: "'ip \<rightharpoonup> u32"

record 'ip conn_guard =
  guard_ip :: 'ip

definition gate_new :: "nat \<Rightarrow> 'ip conn_gate" where
  "gate_new max_conns = \<lparr>cg_permits = max_conns, cg_per_ip = Map.empty\<rparr>"

text \<open>
  The permit is taken first; where the counter refuses, it is dropped again on return, and the
  entry \<open>or_insert(0)\<close> made stays.
\<close>

definition try_admit :: "'ip \<Rightarrow> 'ip conn_gate \<Rightarrow> 'ip conn_guard option \<times> 'ip conn_gate" where
  "try_admit ip g =
     (if cg_permits g = 0 then (None, g)
      else
        (let entry = (case cg_per_ip g ip of None \<Rightarrow> 0 | Some c \<Rightarrow> c);
             m = (cg_per_ip g)(ip \<mapsto> entry) in
         if PER_IP_CONN_CAP \<le> entry then (None, g\<lparr>cg_per_ip := m\<rparr>)
         else (Some \<lparr>guard_ip = ip\<rparr>,
               g\<lparr>cg_permits := cg_permits g - 1, cg_per_ip := m(ip \<mapsto> entry + 1)\<rparr>)))"

definition observed_for :: "'ip \<Rightarrow> 'ip conn_gate \<Rightarrow> u32" where
  "observed_for ip g = (case cg_per_ip g ip of None \<Rightarrow> 0 | Some c \<Rightarrow> c)"

text \<open>The body of \<open>Drop\<close>, then the drop of the permit field.\<close>

definition drop_guard :: "'ip conn_guard \<Rightarrow> 'ip conn_gate \<Rightarrow> 'ip conn_gate" where
  "drop_guard gd g =
     (let m = (case cg_per_ip g (guard_ip gd) of
                 None \<Rightarrow> cg_per_ip g
               | Some c \<Rightarrow>
                   (let c' = (if c = 0 then 0 else c - 1) in
                    if c' = 0 then (cg_per_ip g)(guard_ip gd := None)
                    else (cg_per_ip g)(guard_ip gd \<mapsto> c'))) in
      g\<lparr>cg_per_ip := m, cg_permits := cg_permits g + 1\<rparr>)"

subsection \<open>The accept loop\<close>

text \<open>
  \<open>conn\<close> names a socket. The loop holds no table of its connections: \<open>ls_live\<close> lists the
  guards that the spawned tasks own. A task ends when its client loop returns or its TLS
  handshake fails. An accept error ends the loop; the running tasks go on.
\<close>

datatype ('conn, 'ip) listener_event =
    Accept 'conn 'ip
  | AcceptError
  | TaskEnds 'conn

datatype 'conn listener_effect =
    SpawnTask 'conn
  | WriteAndShutdown 'conn bytes

record ('conn, 'ip) listener =
  ls_gate :: "'ip conn_gate"
  ls_live :: "('conn \<times> 'ip conn_guard) list"
  ls_open :: bool

definition listener_start :: "nat \<Rightarrow> ('conn, 'ip) listener" where
  "listener_start max_conns = \<lparr>ls_gate = gate_new max_conns, ls_live = [], ls_open = True\<rparr>"

definition listener_step ::
  "('conn, 'ip) listener_event \<Rightarrow> ('conn, 'ip) listener
     \<Rightarrow> 'conn listener_effect list \<times> ('conn, 'ip) listener" where
  "listener_step ev l =
     (case ev of
        Accept c ip \<Rightarrow>
          if \<not> ls_open l then ([], l)
          else
            (case try_admit ip (ls_gate l) of
               (Some gd, g) \<Rightarrow> ([SpawnTask c], l\<lparr>ls_gate := g, ls_live := (c, gd) # ls_live l\<rparr>)
             | (None, g) \<Rightarrow> ([WriteAndShutdown c BUSY_REPLY], l\<lparr>ls_gate := g\<rparr>))
      | AcceptError \<Rightarrow> ([], l\<lparr>ls_open := False\<rparr>)
      | TaskEnds c \<Rightarrow>
          (case map_of (ls_live l) c of
             None \<Rightarrow> ([], l)
           | Some gd \<Rightarrow> ([], l\<lparr>ls_gate := drop_guard gd (ls_gate l),
                             ls_live := remove1 (c, gd) (ls_live l)\<rparr>)))"

fun listener_run ::
  "('conn, 'ip) listener_event list \<Rightarrow> ('conn, 'ip) listener
     \<Rightarrow> 'conn listener_effect list \<times> ('conn, 'ip) listener" where
  "listener_run [] l = ([], l)"
| "listener_run (ev # evs) l =
     (case listener_step ev l of
        (ef, l1) \<Rightarrow> (case listener_run evs l1 of (ef', l2) \<Rightarrow> (ef @ ef', l2)))"

subsection \<open>The account the gate keeps\<close>

text \<open>
  \<open>gate_accounts limit ips g\<close>: the gate was made with \<open>limit\<close> permits and the addresses of the
  live guards are \<open>ips\<close>. A permit is taken for each, an address is in the table exactly when
  it has a guard, and then with the number of its guards, which the cap bounds.
\<close>

definition gate_accounts :: "nat \<Rightarrow> 'ip list \<Rightarrow> 'ip conn_gate \<Rightarrow> bool" where
  "gate_accounts limit ips g \<longleftrightarrow>
     cg_permits g + length ips = limit
     \<and> (\<forall>ip. cg_per_ip g ip =
           (if count_list ips ip = 0 then None else Some (of_nat (count_list ips ip)))
         \<and> count_list ips ip \<le> unat PER_IP_CONN_CAP)"

lemma gate_accounts_new [gate_simps]: "gate_accounts limit [] (gate_new limit)"
  by (simp add: gate_accounts_def gate_new_def)

lemma gate_accounts_mset:
  "gate_accounts limit ips g \<Longrightarrow> mset ips' = mset ips \<Longrightarrow> gate_accounts limit ips' g"
  unfolding gate_accounts_def by (metis count_mset mset_eq_length mset_eq_setD)

lemma of_nat_unat_id: "of_nat (unat w) = (w :: 'a::len word)"
  by simp

lemma cap_word: "n \<le> unat PER_IP_CONN_CAP \<Longrightarrow> unat (of_nat n :: u32) = n"
  by (simp add: PER_IP_CONN_CAP_def unsigned_of_nat take_bit_nat_eq_self)

lemma observed_count:
  "gate_accounts limit ips g \<Longrightarrow> unat (observed_for ip g) = count_list ips ip"
  by (auto simp: gate_accounts_def observed_for_def cap_word count_list_0_iff)

text \<open>A gate that accounts for \<open>ips\<close> admits exactly when both caps leave room.\<close>

lemma try_admit_iff:
  assumes "gate_accounts limit ips g"
  shows "fst (try_admit ip g) \<noteq> None \<longleftrightarrow>
    length ips < limit \<and> count_list ips ip < unat PER_IP_CONN_CAP"
  using assms observed_count [OF assms, of ip]
  by (auto simp: try_admit_def Let_def gate_accounts_def observed_for_def word_le_nat_alt)

lemma try_admit_Some:
  assumes "gate_accounts limit ips g" "try_admit ip g = (Some gd, g')"
  shows "guard_ip gd = ip" "gate_accounts limit (ip # ips) g'"
proof -
  let ?n = "count_list ips ip"
  have n: "?n < unat PER_IP_CONN_CAP" "length ips < limit"
    using try_admit_iff [OF assms(1), of ip] assms(2) by auto
  have g': "guard_ip gd = ip" "cg_permits g' = cg_permits g - 1" "0 < cg_permits g"
    "cg_per_ip g' = (cg_per_ip g)(ip \<mapsto> observed_for ip g + 1)"
    using assms(2) by (auto simp: try_admit_def Let_def observed_for_def split: if_splits)
  have "observed_for ip g = of_nat ?n"
    using observed_count [OF assms(1), of ip] by (metis of_nat_unat_id)
  then have "observed_for ip g + 1 = of_nat (Suc ?n)"
    by (simp add: add.commute)
  then show "gate_accounts limit (ip # ips) g'" and "guard_ip gd = ip"
    using g' n assms(1) by (auto simp: gate_accounts_def)
qed

lemma try_admit_None:
  assumes "gate_accounts limit ips g" "try_admit ip g = (None, g')"
  shows "g' = g"
proof (cases "cg_permits g = 0")
  case False
  then have "PER_IP_CONN_CAP \<le> observed_for ip g"
    and g': "g' = g\<lparr>cg_per_ip := (cg_per_ip g)(ip \<mapsto> observed_for ip g)\<rparr>"
    using assms(2) by (auto simp: try_admit_def Let_def observed_for_def split: if_splits)
  then have "cg_per_ip g ip = Some (observed_for ip g)"
    by (auto simp: observed_for_def PER_IP_CONN_CAP_def split: option.splits)
  then show ?thesis by (simp add: g' fun_upd_idem)
qed (use assms in \<open>simp add: try_admit_def\<close>)

lemma drop_guard_accounts:
  assumes "gate_accounts limit ips g" "guard_ip gd \<in> set ips"
  shows "gate_accounts limit (remove1 (guard_ip gd) ips) (drop_guard gd g)"
proof -
  let ?ip = "guard_ip gd"
  obtain m where m: "count_list ips ?ip = Suc m"
    using assms(2) by (metis count_list_0_iff not0_implies_Suc)
  have le: "Suc m \<le> unat PER_IP_CONN_CAP"
    using assms(1) m unfolding gate_accounts_def by metis
  have c: "cg_per_ip g ?ip = Some (of_nat (Suc m))"
    using assms(1) m by (simp add: gate_accounts_def)
  have nz: "(of_nat (Suc m) :: u32) \<noteq> 0" "(of_nat m :: u32) = 0 \<longleftrightarrow> m = 0"
    using cap_word [OF le] cap_word [of m] le by force+
  have dg: "cg_permits (drop_guard gd g) = cg_permits g + 1"
    "cg_per_ip (drop_guard gd g) = (cg_per_ip g)(?ip := if m = 0 then None else Some (of_nat m))"
    using c nz by (auto simp: drop_guard_def Let_def)
  have "count_list (remove1 ?ip ips) ip = (if ip = ?ip then m else count_list ips ip)" for ip
    using m by (simp add: count_mset [symmetric])
  moreover have "Suc (length (remove1 ?ip ips)) = length ips"
    using assms(2) length_pos_if_in_set [OF assms(2)] by (simp add: length_remove1)
  ultimately show ?thesis
    using assms(1) dg le m by (auto simp: gate_accounts_def)
qed

text \<open>What is admitted and dropped again leaves no trace.\<close>

lemma drop_after_admit:
  assumes "gate_accounts limit ips g" "try_admit ip g = (Some gd, g')"
  shows "drop_guard gd g' = g"
proof -
  note a = try_admit_Some [OF assms]
  have "gate_accounts limit ips (drop_guard gd g')"
    using drop_guard_accounts [OF a(2), of gd] a(1) by simp
  then show ?thesis
    using assms(1) by (intro conn_gate.equality ext) (auto simp: gate_accounts_def)
qed

subsection \<open>Every history of the listener\<close>

definition live_ips :: "('conn, 'ip) listener \<Rightarrow> 'ip list" where
  "live_ips l = map (guard_ip \<circ> snd) (ls_live l)"

definition listener_ok :: "nat \<Rightarrow> ('conn, 'ip) listener \<Rightarrow> bool" where
  "listener_ok limit l \<longleftrightarrow> gate_accounts limit (live_ips l) (ls_gate l)"

lemma listener_start_ok [gate_simps]: "listener_ok limit (listener_start limit)"
  by (simp add: listener_ok_def listener_start_def live_ips_def gate_simps)

lemma live_ips_remove:
  assumes "(c, gd) \<in> set (ls_live l)"
  shows "mset (map (guard_ip \<circ> snd) (remove1 (c, gd) (ls_live l)))
    = mset (remove1 (guard_ip gd) (live_ips l))"
  using assms by (simp add: live_ips_def image_mset_Diff)

lemma listener_step_ok:
  assumes "listener_ok limit l"
  shows "listener_ok limit (snd (listener_step ev l))"
proof (cases ev)
  case (Accept c ip)
  then show ?thesis
    using assms try_admit_Some [of limit "live_ips l" "ls_gate l" ip]
      try_admit_None [of limit "live_ips l" "ls_gate l" ip]
    by (auto simp: listener_step_def listener_ok_def live_ips_def split: prod.splits option.splits)
next
  case (TaskEnds c)
  show ?thesis
  proof (cases "map_of (ls_live l) c")
    case (Some gd)
    then have mem: "(c, gd) \<in> set (ls_live l)" by (rule map_of_SomeD)
    then have "guard_ip gd \<in> set (live_ips l)" by (force simp: live_ips_def)
    then have "gate_accounts limit (remove1 (guard_ip gd) (live_ips l)) (drop_guard gd (ls_gate l))"
      using assms by (simp add: drop_guard_accounts listener_ok_def)
    then show ?thesis
      using Some TaskEnds gate_accounts_mset live_ips_remove [OF mem]
      by (fastforce simp: listener_step_def listener_ok_def live_ips_def)
  qed (use assms TaskEnds in \<open>simp add: listener_step_def\<close>)
qed (use assms in \<open>simp_all add: listener_step_def listener_ok_def live_ips_def\<close>)

lemma listener_run_ok: "listener_ok limit l \<Longrightarrow> listener_ok limit (snd (listener_run evs l))"
proof (induction evs arbitrary: l)
  case (Cons ev evs)
  from listener_step_ok [OF Cons.prems, of ev] show ?case
    by (auto split: prod.splits dest: Cons.IH)
qed simp

lemma listener_accept:
  assumes "listener_ok limit l" "ls_open l"
  shows "fst (listener_step (Accept c ip) l) =
    (if length (ls_live l) < limit \<and> count_list (live_ips l) ip < unat PER_IP_CONN_CAP
     then [SpawnTask c] else [WriteAndShutdown c BUSY_REPLY])"
  using try_admit_iff [of limit "live_ips l" "ls_gate l" ip] assms
  by (auto simp: listener_step_def listener_ok_def live_ips_def split: prod.splits option.splits)

text \<open>
  C20: after any history of accepted, refused and finished connections, free permits plus live
  connections are the 512 of the node, each address has exactly as many live connections as its
  counter says and at most 32, addresses without a connection have left the table; the next
  connection is served exactly when both caps leave room and refused with the busy reply
  otherwise, and when every task has ended the gate is as new.
\<close>

theorem gate_keeps_account:
  fixes evs :: "('conn, 'ip) listener_event list"
  assumes "l = snd (listener_run evs (listener_start MAX_CLIENT_CONNS))"
  shows "cg_permits (ls_gate l) + length (ls_live l) = 512
    \<and> unat (observed_for ip (ls_gate l)) = count_list (live_ips l) ip
    \<and> count_list (live_ips l) ip \<le> 32
    \<and> dom (cg_per_ip (ls_gate l)) = set (live_ips l)
    \<and> (ls_open l \<longrightarrow> fst (listener_step (Accept c ip) l) =
        (if length (ls_live l) < 512 \<and> count_list (live_ips l) ip < 32
         then [SpawnTask c] else [WriteAndShutdown c BUSY_REPLY]))
    \<and> (ls_live l = [] \<longrightarrow> ls_gate l = gate_new MAX_CLIENT_CONNS)"
proof -
  have ok: "listener_ok MAX_CLIENT_CONNS l"
    unfolding assms by (intro listener_run_ok gate_simps)
  then have acc: "gate_accounts 512 (live_ips l) (ls_gate l)"
    by (simp add: listener_ok_def MAX_CLIENT_CONNS_def)
  have dom: "dom (cg_per_ip (ls_gate l)) = set (live_ips l)"
    using acc by (auto simp: gate_accounts_def dom_def count_list_0_iff split: if_splits)
  have new: "ls_gate l = gate_new MAX_CLIENT_CONNS" if "ls_live l = []"
    using acc that dom
    by (intro conn_gate.equality) (simp_all add: gate_accounts_def live_ips_def gate_new_def
        MAX_CLIENT_CONNS_def)
  have cap: "unat PER_IP_CONN_CAP = 32"
    by (simp add: PER_IP_CONN_CAP_def)
  show ?thesis
    using acc dom new observed_count [OF acc, of ip] listener_accept [OF ok, of c ip] cap
    by (simp add: gate_accounts_def live_ips_def MAX_CLIENT_CONNS_def)
qed

theorem gate_keeps_account_witness:
  "let l = snd (listener_run [Accept 1 7, Accept 2 8, Accept 3 7, TaskEnds 2, TaskEnds (9 :: nat)]
             (listener_start MAX_CLIENT_CONNS)) in
   cg_permits (ls_gate l) + length (ls_live l) = 512
   \<and> unat (observed_for 7 (ls_gate l)) = count_list (live_ips l) (7 :: nat)
   \<and> live_ips l = [7, 7]"
proof -
  let ?evs = "[Accept 1 7, Accept 2 8, Accept 3 7, TaskEnds 2, TaskEnds 9] :: (nat, nat) listener_event list"
  let ?l = "snd (listener_run ?evs (listener_start MAX_CLIENT_CONNS))"
  have "live_ips ?l = [7, 7]"
    by code_simp
  then show ?thesis
    using gate_keeps_account [of ?l ?evs 7] by (simp add: Let_def)
qed

end
