(* ===== verification/Client_Loop.thy ===== *)
theory Client_Loop
  imports Replica Reply_Reader
begin

section \<open>Serving one client connection\<close>

text \<open>
  \<open>client_loop\<close> of \<open>src/crates/trains-valkey/src/proxy.rs\<close>: bytes are fed to the decoder, every
  complete command is answered at once, reads from the local store, writes by the driver, in the
  order they arrive. The world of a connection, its store, driver and socket, is a state \<open>'w\<close>
  with the operations the loop calls; it may change between any two calls. A write whose answer
  never comes leaves the loop waiting for ever (\<open>Blocked\<close>): the source has no timeout there.
\<close>

named_theorems client_simps \<open>one turn of the connection loop\<close>

definition READ_CHUNK :: nat where
  "READ_CHUNK = 8 * 1024"

datatype driver_answer =
    DriverUnavailable  \<comment> \<open>the command channel is closed\<close>
  | RequestDropped  \<comment> \<open>the driver dropped the oneshot sender\<close>
  | Answered reply
  | NoAnswer

record 'w client_world =
  cw_query :: "command \<Rightarrow> 'w \<Rightarrow> reply \<times> 'w"
  cw_submit :: "bytes list \<Rightarrow> 'w \<Rightarrow> driver_answer \<times> 'w"
  cw_send :: "bytes \<Rightarrow> 'w \<Rightarrow> bool \<times> 'w"

definition answer_command :: "'w client_world \<Rightarrow> command \<Rightarrow> 'w \<Rightarrow> reply option \<times> 'w" where
  "answer_command W cmd w =
     (case classify (cmd_name cmd) of
        Read \<Rightarrow> (case cw_query W cmd w of (r, w') \<Rightarrow> (Some r, w'))
      | Unsupported \<Rightarrow> (Some (unknown_command (cmd_name cmd)), w)
      | _ \<Rightarrow>
          (case cw_submit W (cmd_argv cmd) w of
             (DriverUnavailable, w') \<Rightarrow> (Some (reply_error ''ERR replication driver unavailable''), w')
           | (RequestDropped, w') \<Rightarrow> (Some (reply_error ''ERR replication request dropped''), w')
           | (Answered r, w') \<Rightarrow> (Some r, w')
           | (NoAnswer, w') \<Rightarrow> (None, w')))"

definition protocol_error_reply :: "bytes \<Rightarrow> reply" where
  "protocol_error_reply m = reply_error (''ERR Protocol error: '' @ ''protocol error: '' @ m)"

text \<open>
  How a turn ends: the buffer holds no whole command and the loop reads on, the connection is
  closed, the task panicked, or it waits for an answer that does not come.
\<close>

datatype loop_exit =
    NeedMore resp_decoder
  | Closed
  | Panicked
  | Blocked

function client_drain ::
  "'w client_world \<Rightarrow> resp_decoder \<Rightarrow> 'w \<Rightarrow> bytes list \<times> loop_exit \<times> 'w" where
  "client_drain W d w =
     (case next_command d of
        (Inr None, d') \<Rightarrow> ([], NeedMore d', w)
      | (Inl CapacityPanic, d') \<Rightarrow> ([], Panicked, w)
      | (Inl (Protocol m), d') \<Rightarrow>
          (let bs = to_bytes (protocol_error_reply m) in
           case cw_send W bs w of (_, w1) \<Rightarrow> ([bs], Closed, w1))
      | (Inr (Some argv), d') \<Rightarrow>
          (case parse argv of
             None \<Rightarrow> client_drain W d' w
           | Some cmd \<Rightarrow>
               (case answer_command W cmd w of
                  (None, w1) \<Rightarrow> ([], Blocked, w1)
                | (Some r, w1) \<Rightarrow>
                    (case cw_send W (to_bytes r) w1 of
                       (False, w2) \<Rightarrow> ([to_bytes r], Closed, w2)
                     | (True, w2) \<Rightarrow>
                         (case client_drain W d' w2 of
                            (sent, x, w3) \<Rightarrow> (to_bytes r # sent, x, w3))))))"
  by pat_completeness auto
termination client_drain
  by (relation "measure (\<lambda>(W, d, w). length (buf d))") (auto dest: next_command_shorter)

declare client_drain.simps [simp del]

text \<open>
  What \<open>read\<close> returns: some bytes of the stream, none at its end, or an error. The loop is run
  on the reads so far; \<open>NeedMore\<close> is the state it waits in for the next one.
\<close>

datatype client_read = Data bytes | ReadError

fun client_loop ::
  "'w client_world \<Rightarrow> client_read list \<Rightarrow> resp_decoder \<Rightarrow> 'w \<Rightarrow> bytes list \<times> loop_exit \<times> 'w" where
  "client_loop W [] d w = ([], NeedMore d, w)"
| "client_loop W (ReadError # rs) d w = ([], Closed, w)"
| "client_loop W (Data bs # rs) d w =
     (if bs = [] then ([], Closed, w)
      else
        (case client_drain W (feed bs d) w of
           (sent, NeedMore d1, w1) \<Rightarrow>
             (case client_loop W rs d1 w1 of (sent', x, w2) \<Rightarrow> (sent @ sent', x, w2))
         | (sent, x, w1) \<Rightarrow> (sent, x, w1)))"

subsection \<open>Specification: the commands of the stream, answered one after the other\<close>

fun serve_commands ::
  "'w client_world \<Rightarrow> bytes list list \<Rightarrow> 'w \<Rightarrow> reply list \<times> loop_exit option \<times> 'w" where
  "serve_commands W [] w = ([], None, w)"
| "serve_commands W (argv # cs) w =
     (case parse argv of
        None \<Rightarrow> serve_commands W cs w
      | Some cmd \<Rightarrow>
          (case answer_command W cmd w of
             (None, w1) \<Rightarrow> ([], Some Blocked, w1)
           | (Some r, w1) \<Rightarrow>
               (case cw_send W (to_bytes r) w1 of
                  (False, w2) \<Rightarrow> ([r], Some Closed, w2)
                | (True, w2) \<Rightarrow>
                    (case serve_commands W cs w2 of (rs, x, w3) \<Rightarrow> (r # rs, x, w3)))))"

text \<open>What follows the last whole command: a protocol error is answered and ends the connection.\<close>

definition after_commands ::
  "'w client_world \<Rightarrow> resp_error option \<Rightarrow> resp_decoder \<Rightarrow> 'w \<Rightarrow> bytes list \<times> loop_exit \<times> 'w" where
  "after_commands W e d w =
     (case e of
        None \<Rightarrow> ([], NeedMore d, w)
      | Some CapacityPanic \<Rightarrow> ([], Panicked, w)
      | Some (Protocol m) \<Rightarrow>
          (let bs = to_bytes (protocol_error_reply m) in ([bs], Closed, snd (cw_send W bs w))))"

fun serve_decoded ::
  "'w client_world \<Rightarrow> (bytes list list \<times> resp_error option) \<times> resp_decoder \<Rightarrow> 'w
     \<Rightarrow> bytes list \<times> loop_exit \<times> 'w" where
  "serve_decoded W ((cs, e), d) w =
     (case serve_commands W cs w of
        (rs, Some x, w1) \<Rightarrow> (map to_bytes rs, x, w1)
      | (rs, None, w1) \<Rightarrow>
          (case after_commands W e d w1 of
             (sent, x, w2) \<Rightarrow> (map to_bytes rs @ sent, x, w2)))"

lemma serve_commands_append [client_simps]:
  "serve_commands W (cs @ cs') w =
     (case serve_commands W cs w of
        (rs, Some x, w1) \<Rightarrow> (rs, Some x, w1)
      | (rs, None, w1) \<Rightarrow> (case serve_commands W cs' w1 of (rs', x, w2) \<Rightarrow> (rs @ rs', x, w2)))"
  by (induction cs arbitrary: w) (auto split: option.splits prod.splits bool.splits)

lemma serve_commands_exit:
  "serve_commands W cs w = (rs, Some x, w') \<Longrightarrow> x = Closed \<or> x = Blocked"
  by (induction cs arbitrary: w rs) (auto split: option.splits prod.splits bool.splits)

text \<open>The inner loop answers what the decoder yields.\<close>

lemma client_drain_serves: "client_drain W d w = serve_decoded W (drain d) w"
proof (induction W d w rule: client_drain.induct)
  case (1 W d w)
  obtain x d' where n: "next_command d = (x, d')" by fastforce
  consider (err) e where "x = Inl e" | (more) "x = Inr None" | (cmd) argv where "x = Inr (Some argv)"
    by (metis obj_sumE option.exhaust)
  then show ?case
  proof cases
    case err
    then show ?thesis
      using n by (cases e) (simp_all add: client_drain.simps [of W d] drain.simps [of d]
          after_commands_def Let_def split: prod.splits)
  next
    case more
    then show ?thesis
      using n by (simp add: client_drain.simps [of W d] drain.simps [of d]
          after_commands_def)
  next
    case cmd
    obtain cs e d2 where dr: "drain d' = ((cs, e), d2)" by (metis prod.exhaust)
    then have dd: "drain d = ((argv # cs, e), d2)"
      using n cmd by (simp add: drain.simps [of d])
    show ?thesis
    proof (cases "parse argv")
      case None
      then have "client_drain W d' w = serve_decoded W (drain d') w"
        using "1.IH"(1) [OF n [symmetric] cmd refl] by simp
      then show ?thesis
        using n cmd None dr dd by (simp add: client_drain.simps [of W d])
    next
      case (Some c)
      obtain ans w1 where a: "answer_command W c w = (ans, w1)" by fastforce
      show ?thesis
      proof (cases ans)
        case None
        then show ?thesis
          using n cmd Some a dd by (simp add: client_drain.simps [of W d])
      next
        case (Some r)
        obtain b w2 where s: "cw_send W (to_bytes r) w1 = (b, w2)" by fastforce
        show ?thesis
        proof (cases b)
          case True
          then have "client_drain W d' w2 = serve_decoded W (drain d') w2"
            using "1.IH"(2) [OF n [symmetric] cmd refl \<open>parse argv = _\<close> a [symmetric] Some s [symmetric]]
            by simp
          then show ?thesis
            using n cmd \<open>parse argv = _\<close> a s True Some dr dd
            by (simp add: client_drain.simps [of W d]
                split: prod.splits option.splits)
        next
          case False
          then show ?thesis
            using n cmd \<open>parse argv = _\<close> a s Some dd
            by (simp add: client_drain.simps [of W d])
        qed
      qed
    qed
  qed
qed

text \<open>Feeding more bytes to a connection that needs them continues where it stopped.\<close>

lemma serve_decoded_feed:
  "serve_decoded W (drain (feed c d)) w =
     (case serve_decoded W (drain d) w of
        (sent, NeedMore d1, w1) \<Rightarrow>
          (case serve_decoded W (drain (feed c d1)) w1 of (sent', x, w2) \<Rightarrow> (sent @ sent', x, w2))
      | (sent, Closed, w1) \<Rightarrow> (sent, Closed, w1)
      | (sent, Panicked, w1) \<Rightarrow> (sent, Panicked, w1)
      | (sent, Blocked, w1) \<Rightarrow> (sent, Blocked, w1))"
proof -
  obtain cs e d1 where dr: "drain d = ((cs, e), d1)" by (metis prod.exhaust)
  obtain rs x w1 where sv: "serve_commands W cs w = (rs, x, w1)" by (metis prod.exhaust)
  show ?thesis
  proof (cases x)
    case (Some y)
    moreover have "y = Closed \<or> y = Blocked"
      using serve_commands_exit sv Some by metis
    ultimately show ?thesis
      using drain_append [OF dr, of c] sv
      by (auto simp: dr client_simps split: option.splits prod.splits)
  next
    case None
    show ?thesis
    proof (cases e)
      case (Some err)
      then show ?thesis
        using drain_append [OF dr, of c] sv None
        by (cases err) (auto simp: dr after_commands_def Let_def)
    next
      case none: None
      then show ?thesis
        using drain_append [OF dr, of c] sv None
        by (auto simp: dr client_simps after_commands_def
            split: option.splits prod.splits)
    qed
  qed
qed

lemma serve_decoded_NeedMore:
  assumes "serve_decoded W (drain d) w = (sent, NeedMore d1, w1)"
  shows "drain d1 = (([], None), d1)"
proof -
  obtain cs e d2 where dr: "drain d = ((cs, e), d2)" by (metis prod.exhaust)
  then have "e = None \<and> d1 = d2"
    using assms serve_commands_exit [of W cs w]
    by (auto simp: after_commands_def Let_def
        split: prod.splits option.splits resp_error.splits)
  then show ?thesis using dr drain_idle by blast
qed

lemma client_loop_serves:
  assumes "drain d = (([], None), d)" "[] \<notin> set chunks"
  shows "client_loop W (map Data chunks) d w = serve_decoded W (drain (feed (concat chunks) d)) w"
  using assms
proof (induction chunks arbitrary: d w)
  case Nil
  then show ?case by (simp add: feed_def after_commands_def)
next
  case (Cons c cs)
  obtain sent x w1 where s: "serve_decoded W (drain (feed c d)) w = (sent, x, w1)"
    by (metis prod.exhaust)
  have "client_loop W (map Data cs) d1 w1 = serve_decoded W (drain (feed (concat cs) d1)) w1"
    if "x = NeedMore d1" for d1
    using Cons.IH [of d1 w1] Cons.prems(2) that
      serve_decoded_NeedMore [of W "feed c d" w sent d1 w1] s by simp
  then show ?case
    using Cons.prems s serve_decoded_feed [of W "concat cs" "feed c d" w]
    by (cases x) (auto simp: client_drain_serves feed_feed)
qed

text \<open>A connection that ends has answered what came before.\<close>

lemma client_loop_append:
  "client_loop W (rs @ rs') d w =
     (case client_loop W rs d w of
        (sent, NeedMore d1, w1) \<Rightarrow>
          (case client_loop W rs' d1 w1 of (sent', x, w2) \<Rightarrow> (sent @ sent', x, w2))
      | (sent, x, w1) \<Rightarrow> (sent, x, w1))"
  by (induction W rs d w rule: client_loop.induct) (auto split: prod.splits loop_exit.splits)

subsection \<open>Requests and their answers\<close>

text \<open>\<open>conversation W w es w'\<close>: the requests of \<open>es\<close> are answered in turn by its replies.\<close>

inductive conversation ::
  "'w client_world \<Rightarrow> 'w \<Rightarrow> (bytes list \<times> reply) list \<Rightarrow> 'w \<Rightarrow> bool" for W where
  conv_end: "conversation W w [] w"
| conv_turn: "parse argv = Some cmd \<Longrightarrow> answer_command W cmd w = (Some r, w1) \<Longrightarrow>
    cw_send W (to_bytes r) w1 = (True, w2) \<Longrightarrow> conversation W w2 es w3 \<Longrightarrow>
    conversation W w ((argv, r) # es) w3"

inductive_simps conversation_simps [client_simps]:
  "conversation W w [] w'" "conversation W w (e # es) w'"

lemma answer_command_Some:
  assumes "\<And>argv w. fst (cw_submit W argv w) \<noteq> NoAnswer"
  shows "\<exists>r w'. answer_command W cmd w = (Some r, w')"
  using assms [of "cmd_argv cmd" w]
  by (auto simp: answer_command_def split: prod.splits cmd_class.splits driver_answer.splits)

lemma serve_commands_conversation:
  assumes "\<And>argv w. fst (cw_submit W argv w) \<noteq> NoAnswer" "\<And>bs w. fst (cw_send W bs w)"
    and "[] \<notin> set reqs"
  shows "\<exists>rs w'. serve_commands W reqs w = (rs, None, w') \<and> length rs = length reqs
    \<and> conversation W w (zip reqs rs) w'"
  using assms(3)
proof (induction reqs arbitrary: w)
  case (Cons argv reqs)
  then obtain cmd where cmd: "parse argv = Some cmd"
    using parse_eq_None [of argv] by (cases "parse argv") auto
  obtain r w1 where a: "answer_command W cmd w = (Some r, w1)"
    using answer_command_Some [OF assms(1)] by blast
  obtain w2 where s: "cw_send W (to_bytes r) w1 = (True, w2)"
    using assms(2) [of "to_bytes r" w1] by (metis prod.collapse)
  from Cons.IH [of w2] Cons.prems obtain rs w3 where
    "serve_commands W reqs w2 = (rs, None, w3)" "length rs = length reqs"
    "conversation W w2 (zip reqs rs) w3"
    by auto
  then show ?case
    using cmd a s by (auto intro!: exI [of _ "r # rs"] conv_turn)
qed (simp add: conv_end)

subsection \<open>Claims\<close>

text \<open>
  C26: a connection serves any byte stream, well formed or not, the way it would serve it in one
  piece: its commands are answered one by one in the order of the stream, each reply written
  before the next command is looked at, a protocol error gets one error reply after the answers
  to everything before it and closes the connection, and nothing is sent after that.
\<close>

theorem client_serves_stream:
  assumes "[] \<notin> set chunks"
  shows "client_loop W (map Data chunks) decoder_new w =
    serve_decoded W (drain (feed (concat chunks) decoder_new)) w"
proof (rule client_loop_serves [OF _ assms])
  show "drain decoder_new = (([], None), decoder_new)"
    using drain_requests [of "[]"] by (simp add: decoder_new_def)
qed

definition demo_world :: "mem_store client_world" where
  "demo_world =
     \<lparr>cw_query = (\<lambda>cmd s. (st_query (ref_mem_ops (0, 0)) cmd s, s)),
      cw_submit = (\<lambda>argv s.
        case parse argv of
          None \<Rightarrow> (RequestDropped, s)
        | Some cmd \<Rightarrow> (case st_apply (ref_mem_ops (0, 0)) cmd s of (r, s') \<Rightarrow> (Answered r, s'))),
      cw_send = (\<lambda>bs s. (True, s))\<rparr>"

theorem client_serves_stream_witness:
  "client_loop demo_world (map Data [''PI'', ''NG'' @ crlf @ ''*x'', crlf @ ''PING'']) decoder_new mem_new =
     serve_decoded demo_world
       (drain (feed (concat [''PI'', ''NG'' @ crlf @ ''*x'', crlf @ ''PING'']) decoder_new)) mem_new
   \<and> client_loop demo_world (map Data [''PI'', ''NG'' @ crlf @ ''*x'', crlf @ ''PING'']) decoder_new mem_new =
     ([''+PONG'' @ crlf,
       ''-ERR Protocol error: protocol error: bad multibulk header'' @ crlf], Closed, mem_new)"
proof
  show "client_loop demo_world (map Data [''PI'', ''NG'' @ crlf @ ''*x'', crlf @ ''PING'']) decoder_new mem_new =
     serve_decoded demo_world
       (drain (feed (concat [''PI'', ''NG'' @ crlf @ ''*x'', crlf @ ''PING'']) decoder_new)) mem_new"
    by (rule client_serves_stream) code_simp
qed code_simp

text \<open>
  C19: as long as the driver answers and the socket takes the replies, a pipeline of requests gets
  exactly one reply each, in order, however the network cuts it; each request is answered in the
  world its predecessor's answer left; and where no reply text holds a line end the client reads
  back exactly those replies, so the n-th reply it reads belongs to its n-th request.
\<close>

theorem client_answers_in_order:
  assumes "\<And>argv w. fst (cw_submit W argv w) \<noteq> NoAnswer" "\<And>bs w. fst (cw_send W bs w)"
    and "list_all request_fits reqs" "[] \<notin> set reqs"
    and "concat chunks = concat (map encode_request reqs)" "[] \<notin> set chunks"
  shows "\<exists>rs w'. client_loop W (map Data chunks) decoder_new w =
        (map to_bytes rs, NeedMore decoder_new, w')
    \<and> length rs = length reqs \<and> conversation W w (zip reqs rs) w'
    \<and> (list_all reply_clean rs \<longrightarrow>
        read_items (length reqs) (concat (map to_bytes rs)) = (Inr rs, []))"
proof -
  have idle: "drain decoder_new = (([], None), decoder_new)"
    using drain_requests [of "[]"] by (simp add: decoder_new_def)
  have dr: "drain (feed (concat chunks) decoder_new) = ((reqs, None), decoder_new)"
    using drain_requests [OF assms(3)] by (simp add: feed_def decoder_new_def assms(5))
  obtain rs w' where s: "serve_commands W reqs w = (rs, None, w')" "length rs = length reqs"
    "conversation W w (zip reqs rs) w'"
    using serve_commands_conversation [OF assms(1,2,4)] by blast
  have "read_items (length reqs) (concat (map to_bytes rs) @ []) = (Inr rs, [])"
    if "list_all reply_clean rs"
    unfolding s(2) [symmetric]
    using that by (intro read_items_concat read_reply_to_bytes) (auto simp: list_all_iff)
  then show ?thesis
    using client_loop_serves [OF idle assms(6), of W w] s
    by (auto simp: dr after_commands_def)
qed

theorem client_answers_in_order_witness:
  "\<exists>rs w'. client_loop demo_world
        (map Data [''*3'', crlf @ ''$3'' @ crlf @ ''SET'' @ crlf @ ''$1'' @ crlf @ ''k'' @ crlf
           @ ''$1'' @ crlf @ ''v'' @ crlf @ ''*2'' @ crlf, ''$3'' @ crlf @ ''GET'' @ crlf @ ''$1''
           @ crlf @ ''k'' @ crlf]) decoder_new mem_new =
        (map to_bytes rs, NeedMore decoder_new, w')
    \<and> rs = [reply_ok, Bulk ''v'']"
proof -
  let ?reqs = "[[''SET'', ''k'', ''v''], [''GET'', ''k'']]"
  let ?chunks = "[''*3'', crlf @ ''$3'' @ crlf @ ''SET'' @ crlf @ ''$1'' @ crlf @ ''k'' @ crlf
      @ ''$1'' @ crlf @ ''v'' @ crlf @ ''*2'' @ crlf, ''$3'' @ crlf @ ''GET'' @ crlf @ ''$1''
      @ crlf @ ''k'' @ crlf]"
  have live: "fst (cw_submit demo_world argv w) \<noteq> NoAnswer" "fst (cw_send demo_world bs w)"
    for argv w bs
    by (auto simp: demo_world_def split: option.splits prod.splits)
  have fits: "list_all request_fits ?reqs" "[] \<notin> set ?reqs"
    "concat ?chunks = concat (map encode_request ?reqs)" "[] \<notin> set ?chunks"
    by code_simp+
  from client_answers_in_order [OF live fits, of mem_new] obtain rs w' where
    run: "client_loop demo_world (map Data ?chunks) decoder_new mem_new
      = (map to_bytes rs, NeedMore decoder_new, w')"
    and conv: "conversation demo_world mem_new (zip ?reqs rs) w'" and len: "length rs = 2"
    by auto
  obtain r1 r2 where rs: "rs = [r1, r2]"
    using len by (auto simp: numeral_2_eq_2 length_Suc_conv)
  let ?c1 = "\<lparr>cmd_name = ''SET'', cmd_argv = [''SET'', ''k'', ''v'']\<rparr>"
  let ?c2 = "\<lparr>cmd_name = ''GET'', cmd_argv = [''GET'', ''k'']\<rparr>"
  let ?s = "\<lparr>data = [(''k'', Str ''v'')], ttl = []\<rparr>"
  have c: "parse [''SET'', ''k'', ''v''] = Some ?c1" "parse [''GET'', ''k''] = Some ?c2"
    "answer_command demo_world ?c1 mem_new = (Some reply_ok, ?s)"
    "answer_command demo_world ?c2 ?s = (Some (Bulk ''v''), ?s)"
    by code_simp+
  have send: "cw_send demo_world bs w = (b, w2) \<longleftrightarrow> b \<and> w2 = w" for bs w b w2
    by (auto simp: demo_world_def)
  have "r1 = reply_ok \<and> r2 = Bulk ''v''"
    using conv by (auto simp: rs client_simps send c)
  then show ?thesis using run rs by blast
qed

end
