(* ===== verification/Backend.thy ===== *)
theory Backend
  imports Store Reply_Reader "HOL-Library.Monad_Syntax"
begin

section \<open>The real-engine backend\<close>

text \<open>
  \<open>src/crates/trains-valkey/src/backend.rs\<close>: a store that forwards every command to a local
  engine over a blocking RESP connection. The engine is not part of the program: \<open>lk_write\<close> says
  what becomes of a written request, an I/O error or the bytes the engine will send in reply,
  with \<open>'e\<close> the engine and its socket. A backend is that state and the bytes still to be read
  from the connection. A panic of the reply reader and a loop that never ends are \<open>None\<close>.
\<close>

named_theorems backend_simps \<open>round trips over a link that keeps its laws\<close>

datatype stream_kind = Tcp | Uds

record 'e engine_link =
  lk_write :: "bytes \<Rightarrow> 'e \<Rightarrow> (io_error + bytes) \<times> 'e"
  lk_connect :: "stream_kind \<Rightarrow> bytes \<Rightarrow> io_error + 'e"

record 'e redis_backend =
  rb_engine :: 'e
  rb_incoming :: bytes

definition from_stream :: "'e \<Rightarrow> 'e redis_backend" where
  "from_stream e = \<lparr>rb_engine = e, rb_incoming = []\<rparr>"

fun io_message :: "io_error \<Rightarrow> bytes" where
  "io_message (IoError k m) = m"
| "io_message IoPanic = []"

text \<open>One round trip. An I/O failure is an error reply; the connection is kept.\<close>

definition backend_command ::
  "'e engine_link \<Rightarrow> bytes list \<Rightarrow> 'e redis_backend \<Rightarrow> (reply \<times> 'e redis_backend) option" where
  "backend_command L argv b =
     (case lk_write L (encode_request argv) (rb_engine b) of
        (Inl e, s) \<Rightarrow>
          Some (reply_error (''ERR backend write failed: '' @ io_message e), b\<lparr>rb_engine := s\<rparr>)
      | (Inr sent, s) \<Rightarrow>
          (case read_reply (rb_incoming b @ sent) of
             (Inr r, rest) \<Rightarrow> Some (r, \<lparr>rb_engine = s, rb_incoming = rest\<rparr>)
           | (Inl IoPanic, rest) \<Rightarrow> None
           | (Inl e, rest) \<Rightarrow>
               Some (reply_error (''ERR backend read failed: '' @ io_message e),
                     \<lparr>rb_engine = s, rb_incoming = rest\<rparr>)))"

text \<open>\<open>apply\<close> and \<open>query\<close> of the trait: the same round trip, with the command's own arguments.\<close>

definition backend_apply ::
  "'e engine_link \<Rightarrow> command \<Rightarrow> 'e redis_backend \<Rightarrow> (reply \<times> 'e redis_backend) option" where
  "backend_apply L cmd b = backend_command L (cmd_argv cmd) b"

definition backend_query ::
  "'e engine_link \<Rightarrow> command \<Rightarrow> 'e redis_backend \<Rightarrow> (reply \<times> 'e redis_backend) option" where
  "backend_query L cmd b = backend_command L (cmd_argv cmd) b"

subsection \<open>Connecting\<close>

definition authed ::
  "'e engine_link \<Rightarrow> bytes option \<Rightarrow> 'e redis_backend \<Rightarrow> (io_error + 'e redis_backend) option" where
  "authed L password b =
     (case password of
        None \<Rightarrow> Some (Inr b)
      | Some pw \<Rightarrow>
          do {
            (r, b1) \<leftarrow> backend_command L [''AUTH'', pw] b;
            Some (case r of Error e \<Rightarrow> Inl (IoError PermissionDenied e) | _ \<Rightarrow> Inr b1)
          })"

definition connect :: "'e engine_link \<Rightarrow> bytes \<Rightarrow> io_error + 'e redis_backend" where
  "connect L addr = map_sum id from_stream (lk_connect L Tcp addr)"

definition connect_uds :: "'e engine_link \<Rightarrow> bytes \<Rightarrow> io_error + 'e redis_backend" where
  "connect_uds L path = map_sum id from_stream (lk_connect L Uds path)"

definition connect_auth ::
  "'e engine_link \<Rightarrow> bytes \<Rightarrow> bytes option \<Rightarrow> (io_error + 'e redis_backend) option" where
  "connect_auth L addr password =
     (case connect L addr of Inl e \<Rightarrow> Some (Inl e) | Inr b \<Rightarrow> authed L password b)"

definition connect_uds_auth ::
  "'e engine_link \<Rightarrow> bytes \<Rightarrow> bytes option \<Rightarrow> (io_error + 'e redis_backend) option" where
  "connect_uds_auth L path password =
     (case connect_uds L path of Inl e \<Rightarrow> Some (Inl e) | Inr b \<Rightarrow> authed L password b)"

subsection \<open>Snapshots\<close>

type_synonym snapshot_entries = "(bytes \<times> int \<times> bytes) list"

text \<open>The next cursor and the keys of a page, or nothing where the loop breaks off.\<close>

definition scan_page :: "reply \<Rightarrow> (bytes \<times> reply list) option" where
  "scan_page r =
     (case r of
        Array [Bulk cursor, ks] \<Rightarrow> Some (cursor, (case ks of Array keys \<Rightarrow> keys | _ \<Rightarrow> []))
      | _ \<Rightarrow> None)"

fun dump_keys ::
  "'e engine_link \<Rightarrow> reply list \<Rightarrow> snapshot_entries \<Rightarrow> 'e redis_backend
     \<Rightarrow> (snapshot_entries \<times> 'e redis_backend) option" where
  "dump_keys L [] entries b = Some (entries, b)"
| "dump_keys L (Bulk k # ks) entries b =
     do {
       (r, b1) \<leftarrow> backend_command L [''DUMP'', k] b;
       (case r of
          Bulk dump \<Rightarrow>
            do {
              (p, b2) \<leftarrow> backend_command L [''PTTL'', k] b1;
              dump_keys L ks (entries @ [(k, (case p of Integer n \<Rightarrow> n | _ \<Rightarrow> - 1), dump)]) b2
            }
        | _ \<Rightarrow> dump_keys L ks entries b1)
     }"
| "dump_keys L (_ # ks) entries b = dump_keys L ks entries b"

partial_function (option) scan_loop ::
  "'e engine_link \<Rightarrow> bytes \<Rightarrow> snapshot_entries \<Rightarrow> 'e redis_backend
     \<Rightarrow> (snapshot_entries \<times> 'e redis_backend) option" where
  "scan_loop L cursor entries b =
     do {
       (r, b1) \<leftarrow> backend_command L [''SCAN'', cursor, ''COUNT'', ''512''] b;
       (case scan_page r of
          None \<Rightarrow> Some (entries, b1)
        | Some (next_cursor, keys) \<Rightarrow>
            do {
              (entries1, b2) \<leftarrow> dump_keys L keys entries b1;
              if next_cursor = ''0'' then Some (entries1, b2)
              else scan_loop L next_cursor entries1 b2
            })
     }"

text \<open>The codec of the entries is \<open>bincode\<close>'s: two arguments, as for the in-memory store.\<close>

definition backend_export ::
  "'e engine_link \<Rightarrow> (snapshot_entries \<Rightarrow> bytes) \<Rightarrow> 'e redis_backend
     \<Rightarrow> (bytes \<times> 'e redis_backend) option" where
  "backend_export L enc b =
     do {
       (entries, b1) \<leftarrow> scan_loop L ''0'' [] b;
       Some (enc entries, b1)
     }"

text \<open>The replies to \<open>FLUSHDB\<close> and \<open>RESTORE\<close> are not looked at.\<close>

fun restore_entries ::
  "'e engine_link \<Rightarrow> snapshot_entries \<Rightarrow> 'e redis_backend \<Rightarrow> 'e redis_backend option" where
  "restore_entries L [] b = Some b"
| "restore_entries L ((k, t, dump) # es) b =
     do {
       (_, b1) \<leftarrow> backend_command L
          [''RESTORE'', k, show_int (if t < 0 then 0 else t), dump, ''REPLACE''] b;
       restore_entries L es b1
     }"

definition backend_import ::
  "'e engine_link \<Rightarrow> (bytes \<Rightarrow> snapshot_entries option) \<Rightarrow> bytes \<Rightarrow> 'e redis_backend
     \<Rightarrow> ((snapshot_error + unit) \<times> 'e redis_backend) option" where
  "backend_import L dec bs b =
     (case dec bs of
        None \<Rightarrow> Some (Inl Decode, b)
      | Some entries \<Rightarrow>
          do {
            (_, b1) \<leftarrow> backend_command L [''FLUSHDB''] b;
            b2 \<leftarrow> restore_entries L entries b1;
            Some (Inr (), b2)
          })"

subsection \<open>A connection in step with its engine\<close>

text \<open>
  \<open>speaks L ex\<close>: the engine answers every request a frame can hold with the encoding of one
  clean reply, that of \<open>ex\<close>. Then a connection with nothing unread returns exactly that reply,
  and stays in step.
\<close>

definition speaks :: "'e engine_link \<Rightarrow> (bytes list \<Rightarrow> 'e \<Rightarrow> reply \<times> 'e) \<Rightarrow> bool" where
  "speaks L ex \<longleftrightarrow>
     (\<forall>argv e. request_fits argv \<longrightarrow>
        lk_write L (encode_request argv) e = (Inr (to_bytes (fst (ex argv e))), snd (ex argv e))
        \<and> reply_clean (fst (ex argv e)))"

lemma speaksD:
  assumes "speaks L ex" "request_fits argv"
  shows "lk_write L (encode_request argv) e = (Inr (to_bytes (fst (ex argv e))), snd (ex argv e))"
    and "reply_clean (fst (ex argv e))"
  using assms unfolding speaks_def by blast+

lemma backend_command_speaks [backend_simps]:
  assumes "speaks L ex" "request_fits argv"
  shows "backend_command L argv (from_stream e) = Some (fst (ex argv e), from_stream (snd (ex argv e)))"
proof -
  have "read_reply (to_bytes (fst (ex argv e)) @ []) = (Inr (fst (ex argv e)), [])"
    by (intro read_reply_to_bytes speaksD [OF assms])
  then show ?thesis
    using speaksD(1) [OF assms, of e] by (simp add: backend_command_def from_stream_def)
qed

text \<open>Short requests whose arguments fit a frame.\<close>

definition arg_fits :: "bytes \<Rightarrow> bool" where
  "arg_fits a \<longleftrightarrow> i64_ok (int (length a))"

lemma request_fits_short [backend_simps]:
  "length argv \<le> 8 \<Longrightarrow> request_fits argv \<longleftrightarrow> list_all arg_fits argv"
  by (simp add: request_fits_def arg_fits_def [abs_def] argv_capacity_ok_def isize_max_def)

lemma arg_fits_small [backend_simps]: "length a \<le> 64 \<Longrightarrow> arg_fits a"
  by (simp add: arg_fits_def i64_ok_def i64_min_def i64_max_def)

lemma bulk_clean_fits [backend_simps]: "reply_clean (Bulk b) \<Longrightarrow> arg_fits b"
  using capacity_i64(1) [of "int (length b)"] by (simp add: arg_fits_def)

lemma length_show_nat: "0 < n \<Longrightarrow> length (show_nat n) \<le> n"
proof (induction n rule: show_nat.induct)
  case (1 n)
  show ?case
  proof (cases "n < 10")
    case False
    then have "length (show_nat (n div 10)) \<le> n div 10"
      using "1.IH" by simp
    then show ?thesis
      using False by (subst show_nat.simps) simp
  qed (use 1 in \<open>simp add: show_nat.simps\<close>)
qed

lemma show_int_fits [backend_simps]:
  assumes "0 \<le> t" "i64_ok t"
  shows "arg_fits (show_int t)"
proof (cases "t = 0")
  case True
  then show ?thesis by (simp add: show_int_def show_nat.simps arg_fits_small)
next
  case False
  then have "length (show_int t) \<le> nat t"
    using length_show_nat [of "nat t"] assms(1) by (simp add: show_int_def)
  then show ?thesis
    using assms by (auto simp: arg_fits_def i64_ok_def i64_min_def)
qed

end
