(* ===== verification/Backend_Claims.thy ===== *)
theory Backend_Claims
  imports Backend Core_Interface
begin

section \<open>Claims about the real-engine backend\<close>

text \<open>
  A snapshot taken from one engine and imported into another, for every engine that answers
  \<open>SCAN\<close>, \<open>DUMP\<close>, \<open>PTTL\<close>, \<open>FLUSHDB\<close> and \<open>RESTORE\<close> as documented. \<open>ksp\<close> is the keyspace of an
  engine: the value of a key and its remaining life in milliseconds, if it has one.
\<close>

type_synonym 'v keyspace = "bytes \<rightharpoonup> 'v \<times> int option"

text \<open>
  A \<open>SCAN\<close> iteration of an engine at rest: pages of keys, each with the cursor of the next, to
  the cursor 0. A key may appear more than once.
\<close>

inductive scan_pages ::
  "(bytes list \<Rightarrow> 'e \<Rightarrow> reply \<times> 'e) \<Rightarrow> 'e \<Rightarrow> bytes \<Rightarrow> bytes list \<Rightarrow> bool" for ex e where
  scan_last: "ex [''SCAN'', c, ''COUNT'', ''512''] e = (Array [Bulk ''0'', Array (map Bulk ks)], e)
    \<Longrightarrow> scan_pages ex e c ks"
| scan_more: "ex [''SCAN'', c, ''COUNT'', ''512''] e = (Array [Bulk c', Array (map Bulk ks)], e)
    \<Longrightarrow> c' \<noteq> ''0'' \<Longrightarrow> scan_pages ex e c' ks' \<Longrightarrow> scan_pages ex e c (ks @ ks')"

definition pttl_reply :: "int option \<Rightarrow> int" where
  "pttl_reply t = (case t of None \<Rightarrow> - 1 | Some n \<Rightarrow> n)"

definition entry_of_key :: "('v \<Rightarrow> bytes) \<Rightarrow> 'v keyspace \<Rightarrow> bytes \<Rightarrow> bytes \<times> int \<times> bytes" where
  "entry_of_key blob m k = (case the (m k) of (v, t) \<Rightarrow> (k, pttl_reply t, blob v))"

text \<open>What a restored key is: a remaining life of 0 (or below) becomes none at all.\<close>

definition restored :: "'v \<times> int option \<Rightarrow> 'v \<times> int option" where
  "restored e = (fst e, case snd e of Some n \<Rightarrow> if n \<le> 0 then None else Some n | None \<Rightarrow> None)"

lemma dump_keys_run:
  assumes "speaks L ex" "\<And>k. k \<in> set ks \<Longrightarrow> k \<in> dom m \<and> arg_fits k"
    and "\<And>k v t. m k = Some (v, t) \<Longrightarrow>
      ex [''DUMP'', k] e = (Bulk (blob v), e) \<and> ex [''PTTL'', k] e = (Integer (pttl_reply t), e)"
  shows "dump_keys L (map Bulk ks) entries (from_stream e)
    = Some (entries @ map (entry_of_key blob m) ks, from_stream e)"
  using assms(2)
proof (induction ks arbitrary: entries)
  case (Cons k ks)
  from Cons.prems [of k] obtain v t where k: "m k = Some (v, t)" "arg_fits k"
    by auto
  show ?case
    using Cons assms(3) [OF k(1)] k(2)
    by (simp add: backend_command_speaks [OF assms(1)] entry_of_key_def k(1) request_fits_short
        arg_fits_small)
qed simp

lemma scan_fits: "arg_fits c \<Longrightarrow> request_fits [''SCAN'', c, ''COUNT'', ''512'']"
  by (simp add: request_fits_short arg_fits_small)

lemma scan_reply_fits:
  assumes "speaks L ex" "arg_fits c"
    and "ex [''SCAN'', c, ''COUNT'', ''512''] e = (Array [Bulk c', Array (map Bulk ks)], e)"
  shows "arg_fits c'" "\<And>k. k \<in> set ks \<Longrightarrow> arg_fits k"
  using speaksD(2) [OF assms(1) scan_fits [OF assms(2)], of e] assms(3)
  by (auto simp: list_all_iff intro: bulk_clean_fits)

lemma scan_pages_fit:
  assumes "speaks L ex" "scan_pages ex e c ks" "arg_fits c" "k \<in> set ks"
  shows "arg_fits k"
  using assms(2-4) by induction (auto dest: scan_reply_fits [OF assms(1)])

lemma scan_loop_run:
  assumes "speaks L ex" "scan_pages ex e c ks" "arg_fits c" "set ks \<subseteq> dom m"
    and "\<And>k v t. m k = Some (v, t) \<Longrightarrow>
      ex [''DUMP'', k] e = (Bulk (blob v), e) \<and> ex [''PTTL'', k] e = (Integer (pttl_reply t), e)"
  shows "scan_loop L c entries (from_stream e)
    = Some (entries @ map (entry_of_key blob m) ks, from_stream e)"
  using assms(2-4)
proof (induction arbitrary: entries rule: scan_pages.induct)
  case (scan_last c ks)
  have "k \<in> dom m \<and> arg_fits k" if "k \<in> set ks" for k
    using scan_reply_fits(2) [OF assms(1) scan_last(2,1)] scan_last(3) that by auto
  from dump_keys_run [OF assms(1) this assms(5), where entries = entries] scan_last show ?case
    by (subst scan_loop.simps)
      (simp add: backend_command_speaks [OF assms(1) scan_fits] scan_page_def del: dump_keys.simps)
next
  case (scan_more c c' ks ks')
  note fits = scan_reply_fits [OF assms(1) scan_more.prems(1) scan_more.hyps(1)]
  have "k \<in> dom m \<and> arg_fits k" if "k \<in> set ks" for k
    using fits(2) scan_more.prems(2) that by auto
  from dump_keys_run [OF assms(1) this assms(5), where entries = entries] scan_more fits(1) show ?case
    by (subst scan_loop.simps)
      (simp add: backend_command_speaks [OF assms(1) scan_fits] scan_page_def del: dump_keys.simps)
qed

lemma restore_entries_run:
  assumes "speaks L ex" "\<And>k. k \<in> set ks \<Longrightarrow> k \<in> dom m \<and> arg_fits k"
    and "\<And>k v t. m k = Some (v, t) \<Longrightarrow> i64_ok (pttl_reply t) \<and> arg_fits (blob v)"
    and "\<And>s k v t. k \<in> dom m \<Longrightarrow> 0 \<le> t \<Longrightarrow> i64_ok t \<Longrightarrow>
      ksp (snd (ex [''RESTORE'', k, show_int t, blob v, ''REPLACE''] s))
        = (ksp s)(k \<mapsto> (v, if t = 0 then None else Some t))"
  shows "\<exists>s'. restore_entries L (map (entry_of_key blob m) ks) (from_stream s) = Some (from_stream s')
    \<and> ksp s' = (\<lambda>k. if k \<in> set ks then map_option restored (m k) else ksp s k)"
  using assms(2)
proof (induction ks arbitrary: s)
  case (Cons k ks)
  from Cons.prems [of k] obtain v t where k: "m k = Some (v, t)" "arg_fits k"
    by auto
  define t' where "t' = (if pttl_reply t < 0 then 0 else pttl_reply t)"
  let ?cmd = "[''RESTORE'', k, show_int t', blob v, ''REPLACE'']"
  let ?s = "snd (ex ?cmd s)"
  have t': "0 \<le> t'" "i64_ok t'"
    using assms(3) [OF k(1)] by (simp_all add: t'_def i64_ok_def i64_min_def i64_max_def)
  then have "ksp ?s = (ksp s)(k \<mapsto> (v, if t' = 0 then None else Some t'))"
    using k by (intro assms(4)) auto
  also have "(v, if t' = 0 then None else Some t') = restored (v, t)"
    by (simp add: restored_def pttl_reply_def t'_def split: option.splits)
  finally have set_k: "ksp ?s = (ksp s)(k \<mapsto> restored (v, t))" .
  have "request_fits ?cmd"
    using k(2) t' assms(3) [OF k(1)] by (simp add: request_fits_short arg_fits_small show_int_fits)
  then have step: "restore_entries L (map (entry_of_key blob m) (k # ks)) (from_stream s)
      = restore_entries L (map (entry_of_key blob m) ks) (from_stream ?s)"
    by (simp add: entry_of_key_def k(1) backend_command_speaks [OF assms(1)] t'_def [symmetric])
  from Cons.IH [of ?s] Cons.prems obtain s' where
    "restore_entries L (map (entry_of_key blob m) ks) (from_stream ?s) = Some (from_stream s')"
    "ksp s' = (\<lambda>k'. if k' \<in> set ks then map_option restored (m k') else ksp ?s k')"
    by auto
  then show ?case
    using k(1) set_k unfolding step by (intro exI [of _ s']) (auto simp: fun_eq_iff)
qed auto

text \<open>
  C27: between engines at rest that keep their documented behaviour a snapshot ends, imports, and
  carries the whole keyspace, however SCAN pages it and whatever the importing engine held before:
  every key has its value again and its remaining life, except that a life of 0 milliseconds left
  comes back as none, so such a key no longer expires.
\<close>

theorem backend_snapshot_roundtrip:
  assumes "speaks L ex" "speaks L' ex" "\<And>es. dec (enc es) = Some es"
    and "scan_pages ex e ''0'' ks" "set ks = dom (ksp e)"
    and "\<And>k v t. ksp e k = Some (v, t) \<Longrightarrow>
      ex [''DUMP'', k] e = (Bulk (blob v), e) \<and> ex [''PTTL'', k] e = (Integer (pttl_reply t), e)"
    and "\<And>s. ksp (snd (ex [''FLUSHDB''] s)) = Map.empty"
    and "\<And>s k v t. k \<in> dom (ksp e) \<Longrightarrow> 0 \<le> t \<Longrightarrow> i64_ok t \<Longrightarrow>
      ksp (snd (ex [''RESTORE'', k, show_int t, blob v, ''REPLACE''] s))
        = (ksp s)(k \<mapsto> (v, if t = 0 then None else Some t))"
  shows "\<exists>bs s'. backend_export L enc (from_stream e) = Some (bs, from_stream e)
    \<and> backend_import L' dec bs (from_stream s) = Some (Inr (), from_stream s')
    \<and> ksp s' = (\<lambda>k. map_option restored (ksp e k))"
proof -
  let ?es = "map (entry_of_key blob (ksp e)) ks"
  have zero: "arg_fits ''0''" by (simp add: arg_fits_small)
  have sub: "set ks \<subseteq> dom (ksp e)" using assms(5) by simp
  have exp: "backend_export L enc (from_stream e) = Some (enc ?es, from_stream e)"
    using scan_loop_run [OF assms(1,4) zero sub assms(6), where entries = "[]"]
    by (simp add: backend_export_def)
  have keys: "k \<in> dom (ksp e) \<and> arg_fits k" if "k \<in> set ks" for k
    using scan_pages_fit [OF assms(1,4) zero that] that sub by auto
  have range: "i64_ok (pttl_reply t) \<and> arg_fits (blob v)" if "ksp e k = Some (v, t)" for k v t
  proof -
    have "request_fits [''DUMP'', k]" "request_fits [''PTTL'', k]"
      using keys [of k] assms(5) that by (auto simp: request_fits_short arg_fits_small)
    from this [THEN speaksD(2) [OF assms(1)], of e] assms(6) [OF that] show ?thesis
      by (auto intro: bulk_clean_fits)
  qed
  have flush: "request_fits [''FLUSHDB'']"
    by (simp add: request_fits_short arg_fits_small)
  have "\<exists>s'. restore_entries L' ?es (from_stream (snd (ex [''FLUSHDB''] s))) = Some (from_stream s')
      \<and> ksp s' = (\<lambda>k. if k \<in> set ks then map_option restored (ksp e k)
          else ksp (snd (ex [''FLUSHDB''] s)) k)"
    by (rule restore_entries_run [OF assms(2)]) (use keys range assms(8) in blast)+
  then obtain s' where
    "restore_entries L' ?es (from_stream (snd (ex [''FLUSHDB''] s))) = Some (from_stream s')"
    and ksp: "ksp s' = (\<lambda>k. if k \<in> set ks then map_option restored (ksp e k)
      else ksp (snd (ex [''FLUSHDB''] s)) k)"
    by blast
  then have "backend_import L' dec (enc ?es) (from_stream s) = Some (Inr (), from_stream s')"
    by (simp add: backend_import_def assms(3) backend_command_speaks [OF assms(2) flush])
  moreover have "ksp s' = (\<lambda>k. map_option restored (ksp e k))"
  proof (rule ext)
    show "ksp s' k = map_option restored (ksp e k)" for k
      by (cases "ksp e k") (auto simp: ksp assms(5,7))
  qed
  ultimately show ?thesis using exp by blast
qed

text \<open>An engine of two keys, which pages one of them twice.\<close>

definition demo_blob :: "bool \<Rightarrow> bytes" where
  "demo_blob v = (if v then ''t'' else ''f'')"

definition demo_engine :: "bytes list \<Rightarrow> bool keyspace \<Rightarrow> reply \<times> bool keyspace" where
  "demo_engine argv s =
     (case argv of
        [c] \<Rightarrow> (reply_ok, if c = ''FLUSHDB'' then Map.empty else s)
      | [c, k] \<Rightarrow>
          (case s k of
             None \<Rightarrow> (NilReply, s)
           | Some (v, t) \<Rightarrow>
               if c = ''DUMP'' then (Bulk (demo_blob v), s)
               else if i64_ok (pttl_reply t) then (Integer (pttl_reply t), s) else (NilReply, s))
      | [c, cursor, _, _] \<Rightarrow>
          (if cursor = ''0'' then (Array [Bulk ''7'', Array (map Bulk [''a''])], s)
           else (Array [Bulk ''0'', Array (map Bulk [''b'', ''a''])], s))
      | [c, k, t, dump, _] \<Rightarrow>
          (case parse_i64 t of
             None \<Rightarrow> (NilReply, s)
           | Some n \<Rightarrow> (reply_ok, s(k \<mapsto> (dump = ''t'', if n = 0 then None else Some n))))
      | _ \<Rightarrow> (NilReply, s))"

definition demo_link :: "bool keyspace engine_link" where
  "demo_link =
     \<lparr>lk_write = (\<lambda>req s.
        case next_command (feed req decoder_new) of
          (Inr (Some argv), _) \<Rightarrow>
            (Inr (to_bytes (fst (demo_engine argv s))), snd (demo_engine argv s))
        | _ \<Rightarrow> (Inr [], s)),
      lk_connect = (\<lambda>k a. Inr Map.empty)\<rparr>"

lemma demo_engine_clean: "reply_clean (fst (demo_engine argv s))"
proof -
  have small: "payload_capacity_ok (int (length (demo_blob v)))" "items_capacity_ok 2" for v
    by (simp_all add: payload_capacity_ok_def items_capacity_ok_def isize_max_def demo_blob_def)
  have "reply_clean (Array [Bulk ''7'', Array (map Bulk [''a''])])"
    "reply_clean (Array [Bulk ''0'', Array (map Bulk [''b'', ''a''])])" "reply_clean reply_ok"
    by code_simp+
  then show ?thesis
    using small by (auto simp: demo_engine_def split: list.splits option.splits)
qed

lemma demo_speaks: "speaks demo_link demo_engine"
proof -
  have "next_command (feed (encode_request argv) decoder_new) = (Inr (Some argv), decoder_new)"
    if "request_fits argv" for argv
    using next_command_request [OF that, of "[]"] by (simp add: feed_def decoder_new_def)
  then show ?thesis
    by (simp add: speaks_def demo_link_def demo_engine_clean)
qed

abbreviation entries_codec :: "snapshot_entries codec" where
  "entries_codec \<equiv> c_list (c_pair c_bytes (c_pair c_int c_bytes))"

theorem backend_snapshot_roundtrip_witness:
  "let e = [''a'' \<mapsto> (True, Some 5), ''b'' \<mapsto> (False, Some 0)] in
   \<exists>bs s'. backend_export demo_link (cput entries_codec) (from_stream e) = Some (bs, from_stream e)
     \<and> backend_import demo_link (decode_whole entries_codec) bs (from_stream [''c'' \<mapsto> (True, None)])
       = Some (Inr (), from_stream s')
     \<and> s' = [''a'' \<mapsto> (True, Some 5), ''b'' \<mapsto> (False, None)]"
proof -
  let ?e = "[''a'' \<mapsto> (True, Some 5), ''b'' \<mapsto> (False, Some 0)] :: bool keyspace"
  have codec: "decode_whole entries_codec (cput entries_codec es) = Some es" for es
    by (intro decode_whole_put codec_rules)
  have "scan_pages demo_engine ?e ''7'' [''b'', ''a'']"
    by (rule scan_last) (simp add: demo_engine_def)
  then have "scan_pages demo_engine ?e ''0'' ([''a''] @ [''b'', ''a''])"
    by (rule scan_more [rotated 2]) (simp_all add: demo_engine_def)
  then have scan: "scan_pages demo_engine ?e ''0'' [''a'', ''b'', ''a'']" by simp
  have keys: "set [''a'', ''b'', ''a''] = dom (id ?e)" by auto
  have dump: "demo_engine [''DUMP'', k] ?e = (Bulk (demo_blob v), ?e)
      \<and> demo_engine [''PTTL'', k] ?e = (Integer (pttl_reply t), ?e)" if "id ?e k = Some (v, t)" for k v t
    using that by (auto simp: demo_engine_def pttl_reply_def i64_ok_def i64_min_def i64_max_def
        split: if_splits)
  have flush: "id (snd (demo_engine [''FLUSHDB''] s)) = Map.empty" for s
    by (simp add: demo_engine_def)
  have restore: "id (snd (demo_engine [''RESTORE'', k, show_int t, demo_blob v, ''REPLACE''] s))
      = (id s)(k \<mapsto> (v, if t = 0 then None else Some t))"
    if "k \<in> dom (id ?e)" "0 \<le> t" "i64_ok t" for s k v t
    using that(3) by (simp add: demo_engine_def std_simps demo_blob_def)
  have "\<exists>bs s'. backend_export demo_link (cput entries_codec) (from_stream ?e) = Some (bs, from_stream ?e)
     \<and> backend_import demo_link (decode_whole entries_codec) bs (from_stream [''c'' \<mapsto> (True, None)])
       = Some (Inr (), from_stream s')
     \<and> id s' = (\<lambda>k. map_option restored (id ?e k))"
    by (rule backend_snapshot_roundtrip [where ksp = id and blob = demo_blob and ex = demo_engine,
          OF demo_speaks demo_speaks codec scan keys])
      (use dump flush restore in blast)+
  moreover have "map_option restored (?e k) = [''a'' \<mapsto> (True, Some 5), ''b'' \<mapsto> (False, None)] k" for k
    by (simp add: restored_def)
  then have "(\<lambda>k. map_option restored (id ?e k)) = [''a'' \<mapsto> (True, Some 5), ''b'' \<mapsto> (False, None)]"
    by auto
  ultimately show ?thesis by (simp only: Let_def id_apply)
qed

end
