(* ===== verification/Chaos.thy ===== *)
theory Chaos
  imports Backend Command
begin

section \<open>The chaos workload and its verifier\<close>

text \<open>
  \<open>src/crates/trains-valkey/src/chaos.rs\<close> and \<open>drive_load\<close> of \<open>bin/chaos.rs\<close>: a stream of \<open>SET\<close>s of which only
  those answered \<open>+OK\<close> are recorded, and the check that the survivors still hold every recorded
  one. The proxy the load runs against is the network state \<open>'n\<close> with its two socket operations;
  replies are read with \<open>read_reply\<close>, whose panic is the error \<open>IoPanic\<close>. The engines the verifier
  queries are those of \<open>Backend\<close>. \<open>serde_json\<close> is two functions.
\<close>

named_theorems chaos_simps \<open>runs of the verifier against engines at rest\<close>

record acked_writes =
  aw_entries :: "(bytes \<times> bytes) list"

definition acked_new :: acked_writes where
  "acked_new = \<lparr>aw_entries = []\<rparr>"

definition acked_len :: "acked_writes \<Rightarrow> nat" where
  "acked_len a = length (aw_entries a)"

definition acked_is_empty :: "acked_writes \<Rightarrow> bool" where
  "acked_is_empty a \<longleftrightarrow> aw_entries a = []"

definition acked_extend :: "acked_writes \<Rightarrow> acked_writes \<Rightarrow> acked_writes" where
  "acked_extend a other = \<lparr>aw_entries = aw_entries a @ aw_entries other\<rparr>"

subsection \<open>The acked set as JSON\<close>

lemma utf8_next_length: "(ok, n) = utf8_next bs \<Longrightarrow> 0 < n"
  using snd_utf8_next_pos [of bs] by (metis snd_conv)

text \<open>The message of \<open>FromUtf8Error\<close>, from the index reached.\<close>

function utf8_error :: "nat \<Rightarrow> bytes \<Rightarrow> bytes" where
  "utf8_error i bs =
     (if bs = [] then []
      else
        (case utf8_next bs of
           (True, n) \<Rightarrow> utf8_error (i + n) (drop n bs)
         | (False, n) \<Rightarrow>
             if n = length bs \<and> 194 \<le> code (hd bs) \<and> code (hd bs) < 245
             then ''incomplete utf-8 byte sequence from index '' @ show_nat i
             else ''invalid utf-8 sequence of '' @ show_nat n @ '' bytes from index '' @ show_nat i))"
  by pat_completeness auto
termination utf8_error
  by (relation "measure (\<lambda>(i, bs). length bs)") (auto dest: utf8_next_length)

declare utf8_error.simps [simp del]

definition invalid_data :: "bytes \<Rightarrow> io_error" where
  "invalid_data m = IoError InvalidData m"

fun utf8_pairs :: "(bytes \<times> bytes) list \<Rightarrow> io_error + (bytes \<times> bytes) list" where
  "utf8_pairs [] = Inr []"
| "utf8_pairs ((k, v) # es) =
     (if \<not> utf8_valid k then Inl (invalid_data (''non-utf8 key: '' @ utf8_error 0 k))
      else if \<not> utf8_valid v then Inl (invalid_data (''non-utf8 val: '' @ utf8_error 0 v))
      else (case utf8_pairs es of Inl e \<Rightarrow> Inl e | Inr view \<Rightarrow> Inr ((k, v) # view)))"

definition write_json :: "((bytes \<times> bytes) list \<Rightarrow> bytes + bytes) \<Rightarrow> acked_writes \<Rightarrow> io_error + bytes" where
  "write_json to_json a =
     (case utf8_pairs (aw_entries a) of
        Inl e \<Rightarrow> Inl e
      | Inr view \<Rightarrow>
          (case to_json view of
             Inl m \<Rightarrow> Inl (invalid_data m)
           | Inr s \<Rightarrow> Inr (s @ [LF])))"

definition read_json :: "(bytes \<Rightarrow> bytes + (bytes \<times> bytes) list) \<Rightarrow> bytes \<Rightarrow> io_error + acked_writes" where
  "read_json from_json bs =
     (if \<not> utf8_valid bs then Inl (invalid_data ''stream did not contain valid UTF-8'')
      else
        (case from_json bs of
           Inl m \<Rightarrow> Inl (invalid_data m)
         | Inr view \<Rightarrow> Inr \<lparr>aw_entries = view\<rparr>))"

lemma utf8_pairs_valid:
  "list_all (\<lambda>(k, v). utf8_valid k \<and> utf8_valid v) es \<Longrightarrow> utf8_pairs es = Inr es"
  by (induction es) auto

lemma utf8_pairs_Inr:
  "utf8_pairs es = Inr view \<Longrightarrow> view = es \<and> list_all (\<lambda>(k, v). utf8_valid k \<and> utf8_valid v) es"
  by (induction es arbitrary: view) (auto split: if_splits sum.splits)

text \<open>What is written is read back, if the JSON library inverts itself (a final newline is blank).\<close>

lemma acked_json_roundtrip:
  assumes "\<And>v s. to_json v = Inr s \<Longrightarrow> utf8_valid (s @ [LF]) \<and> from_json (s @ [LF]) = Inr v"
    and "write_json to_json a = Inr bs"
  shows "read_json from_json bs = Inr a"
  using assms(2) utf8_pairs_Inr [of "aw_entries a"]
  by (cases a) (auto simp: write_json_def read_json_def assms(1) split: sum.splits)

subsection \<open>The load\<close>

text \<open>
  The socket: opening it (with its deadline), and one request with what it brings. \<open>ld_send\<close> is an
  error if writing or flushing fails or a read fails before the reply is whole, which is where the
  deadline strikes; otherwise it is the bytes that arrive for the reader up to the end of the reply or
  of the stream. A connection is the network and the bytes its \<open>BufReader\<close> holds unread.
\<close>

record 'n load_net =
  ld_open :: "'n \<Rightarrow> (io_error + unit) \<times> 'n"
  ld_send :: "bytes \<Rightarrow> 'n \<Rightarrow> (io_error + bytes) \<times> 'n"

definition load_connect :: "'n load_net \<Rightarrow> 'n \<Rightarrow> (io_error + bytes) \<times> 'n" where
  "load_connect N net = (case ld_open N net of (res, net1) \<Rightarrow> (map_sum id (\<lambda>_. []) res, net1))"

text \<open>\<open>Inr True\<close> is an \<open>+OK\<close>, \<open>Inr False\<close> any other reply.\<close>

definition set_and_read ::
  "'n load_net \<Rightarrow> bytes \<Rightarrow> bytes \<Rightarrow> 'n \<Rightarrow> (io_error + bool) \<times> bytes \<times> 'n" where
  "set_and_read N req unread net =
     (case ld_send N req net of
        (Inl e, net1) \<Rightarrow> (Inl e, unread, net1)
      | (Inr arrived, net1) \<Rightarrow>
          (case read_reply (unread @ arrived) of
             (Inl e, rest) \<Rightarrow> (Inl e, rest, net1)
           | (Inr r, rest) \<Rightarrow> (Inr (r = Simple ''OK''), rest, net1)))"

definition is_abandon :: "io_error \<Rightarrow> bool" where
  "is_abandon e \<longleftrightarrow> io_error_kind e \<in>
     {WouldBlock, TimedOut, UnexpectedEof, ConnectionReset, BrokenPipe, ConnectionAborted}"

definition load_entry :: "bytes \<Rightarrow> nat \<Rightarrow> bytes \<times> bytes" where
  "load_entry prefix i = (prefix @ show_nat i, ''v'' @ show_nat i)"

definition load_request :: "bytes \<times> bytes \<Rightarrow> bytes" where
  "load_request e = encode_request [''SET'', fst e, snd e]"

text \<open>A write that is abandoned gets a new connection for the next one.\<close>

fun load_writes ::
  "'n load_net \<Rightarrow> bytes \<Rightarrow> nat list \<Rightarrow> acked_writes \<Rightarrow> nat \<Rightarrow> bytes \<Rightarrow> 'n
     \<Rightarrow> (io_error + acked_writes) \<times> nat \<times> 'n" where
  "load_writes N prefix [] acked abandoned unread net = (Inr acked, abandoned, net)"
| "load_writes N prefix (i # is) acked abandoned unread net =
     (case set_and_read N (load_request (load_entry prefix i)) unread net of
        (Inr True, unread1, net1) \<Rightarrow>
          load_writes N prefix is \<lparr>aw_entries = aw_entries acked @ [load_entry prefix i]\<rparr> abandoned
            unread1 net1
      | (Inr False, unread1, net1) \<Rightarrow> load_writes N prefix is acked abandoned unread1 net1
      | (Inl e, unread1, net1) \<Rightarrow>
          if is_abandon e then
            (case load_connect N net1 of
               (Inl e', net2) \<Rightarrow> (Inl e', abandoned + 1, net2)
             | (Inr unread2, net2) \<Rightarrow> load_writes N prefix is acked (abandoned + 1) unread2 net2)
          else (Inl e, abandoned, net1))"

definition run_load ::
  "'n load_net \<Rightarrow> bytes \<Rightarrow> nat \<Rightarrow> nat \<Rightarrow> 'n \<Rightarrow> (io_error + acked_writes) \<times> 'n" where
  "run_load N prefix lo hi net =
     (case load_connect N net of
        (Inl e, net1) \<Rightarrow> (Inl e, net1)
      | (Inr unread, net1) \<Rightarrow>
          (case load_writes N prefix [lo..<hi] acked_new 0 unread net1 of (res, _, net2) \<Rightarrow> (res, net2)))"

text \<open>The two phases; \<open>hold\<close> is what the pause between them does to the network.\<close>

definition drive_load ::
  "'n load_net \<Rightarrow> bytes \<Rightarrow> nat \<Rightarrow> ('n \<Rightarrow> 'n) \<Rightarrow> 'n \<Rightarrow> (io_error + acked_writes) \<times> 'n" where
  "drive_load N prefix count hold net =
     (let half = count div 2 in
      case run_load N prefix 0 half net of
        (Inl e, net1) \<Rightarrow> (Inl e, net1)
      | (Inr acked, net1) \<Rightarrow>
          (case run_load N prefix half count (hold net1) of
             (Inl e, net2) \<Rightarrow> (Inl e, net2)
           | (Inr phase2, net2) \<Rightarrow> (Inr (acked_extend acked phase2), net2)))"

subsection \<open>The verifier\<close>

record verify_report =
  vr_engines :: nat
  vr_acked_total :: nat
  vr_acked_loss :: "bytes list"
  vr_dbsizes :: "int list"
  vr_converged :: bool

definition report_ok :: "verify_report \<Rightarrow> bool" where
  "report_ok r \<longleftrightarrow> vr_acked_loss r = [] \<and> vr_converged r"

definition get_command :: "bytes \<Rightarrow> command" where
  "get_command k = \<lparr>cmd_name = ''GET'', cmd_argv = [''GET'', k]\<rparr>"

definition dbsize_command :: command where
  "dbsize_command = \<lparr>cmd_name = ''DBSIZE'', cmd_argv = [''DBSIZE'']\<rparr>"

fun connect_all ::
  "'e engine_link \<Rightarrow> bytes option \<Rightarrow> bytes list \<Rightarrow> (io_error + 'e redis_backend list) option" where
  "connect_all L pw [] = Some (Inr [])"
| "connect_all L pw (a # as) =
     do {
       r \<leftarrow> connect_auth L a pw;
       (case r of
          Inl e \<Rightarrow> Some (Inl e)
        | Inr b \<Rightarrow>
            do {
              rs \<leftarrow> connect_all L pw as;
              Some (map_sum id (\<lambda>bs. b # bs) rs)
            })
     }"

text \<open>\<open>all\<close> stops at the first engine that does not hold the value.\<close>

fun present_everywhere ::
  "'e engine_link \<Rightarrow> command \<Rightarrow> bytes \<Rightarrow> 'e redis_backend list \<Rightarrow> (bool \<times> 'e redis_backend list) option" where
  "present_everywhere L cmd v [] = Some (True, [])"
| "present_everywhere L cmd v (b # bs) =
     do {
       (r, b1) \<leftarrow> backend_query L cmd b;
       if r = Bulk v then
         do {
           (ok, bs1) \<leftarrow> present_everywhere L cmd v bs;
           Some (ok, b1 # bs1)
         }
       else Some (False, b1 # bs)
     }"

fun find_losses ::
  "'e engine_link \<Rightarrow> (bytes \<times> bytes) list \<Rightarrow> 'e redis_backend list
     \<Rightarrow> (bytes list \<times> 'e redis_backend list) option" where
  "find_losses L [] bs = Some ([], bs)"
| "find_losses L ((k, v) # es) bs =
     do {
       (ok, bs1) \<leftarrow> present_everywhere L (get_command k) v bs;
       (loss, bs2) \<leftarrow> find_losses L es bs1;
       Some (if ok then loss else from_utf8_lossy k # loss, bs2)
     }"

definition dbsize_of :: "reply \<Rightarrow> int" where
  "dbsize_of r = (case r of Integer n \<Rightarrow> n | _ \<Rightarrow> - 1)"

fun query_dbsizes :: "'e engine_link \<Rightarrow> 'e redis_backend list \<Rightarrow> int list option" where
  "query_dbsizes L [] = Some []"
| "query_dbsizes L (b # bs) =
     do {
       (r, _) \<leftarrow> backend_query L dbsize_command b;
       ns \<leftarrow> query_dbsizes L bs;
       Some (dbsize_of r # ns)
     }"

fun windows_equal :: "int list \<Rightarrow> bool" where
  "windows_equal (a # b # r) \<longleftrightarrow> a = b \<and> windows_equal (b # r)"
| "windows_equal _ \<longleftrightarrow> True"

definition verify ::
  "'e engine_link \<Rightarrow> bytes list \<Rightarrow> bytes option \<Rightarrow> acked_writes \<Rightarrow> (io_error + verify_report) option" where
  "verify L engines pw acked =
     do {
       conns \<leftarrow> connect_all L pw engines;
       (case conns of
          Inl e \<Rightarrow> Some (Inl e)
        | Inr bs \<Rightarrow>
            do {
              (loss, bs1) \<leftarrow> find_losses L (aw_entries acked) bs;
              ns \<leftarrow> query_dbsizes L bs1;
              Some (Inr \<lparr>vr_engines = length engines, vr_acked_total = length (aw_entries acked),
                         vr_acked_loss = loss, vr_dbsizes = ns, vr_converged = windows_equal ns\<rparr>)
            })
     }"

record partial_report =
  pr_engine_label :: bytes
  pr_acked_total :: nat
  pr_missing_keys :: "bytes list"
  pr_dbsize :: int

fun find_missing ::
  "'e engine_link \<Rightarrow> (bytes \<times> bytes) list \<Rightarrow> 'e redis_backend \<Rightarrow> (bytes list \<times> 'e redis_backend) option" where
  "find_missing L [] b = Some ([], b)"
| "find_missing L ((k, v) # es) b =
     do {
       (r, b1) \<leftarrow> backend_query L (get_command k) b;
       (missing, b2) \<leftarrow> find_missing L es b1;
       Some (if r \<noteq> Bulk v then from_utf8_lossy k # missing else missing, b2)
     }"

definition verify_one ::
  "'e engine_link \<Rightarrow> bytes \<Rightarrow> bytes option \<Rightarrow> bytes \<Rightarrow> acked_writes
     \<Rightarrow> (io_error + partial_report) option" where
  "verify_one L engine pw label acked =
     do {
       conn \<leftarrow> connect_auth L engine pw;
       (case conn of
          Inl e \<Rightarrow> Some (Inl e)
        | Inr b \<Rightarrow>
            do {
              (missing, b1) \<leftarrow> find_missing L (aw_entries acked) b;
              (r, _) \<leftarrow> backend_query L dbsize_command b1;
              Some (Inr \<lparr>pr_engine_label = label, pr_acked_total = length (aw_entries acked),
                         pr_missing_keys = missing, pr_dbsize = dbsize_of r\<rparr>)
            })
     }"

end
