(* ===== verification/Chaos_Claims.thy ===== *)
theory Chaos_Claims
  imports Chaos
begin

section \<open>Claims about the chaos verifier\<close>

text \<open>
  The single-process verifier and the one that runs on each survivor agree, and both decide
  exactly the property they are named for. The engines are at rest: \<open>GET\<close> and \<open>DBSIZE\<close> leave them
  as they are. The load records a write only after its own \<open>+OK\<close>.
\<close>

subsection \<open>The load records what was answered\<close>

text \<open>
  What the load does to a proxy, written out: one after the other the \<open>SET\<close>s of the numbers \<open>is\<close>
  are sent; \<open>oks\<close> are those after whose sending the next reply on the connection was \<open>+OK\<close>. A write
  that fails with a kind that means a late or lost reply is followed by a new connection, on which
  nothing is left to read.
\<close>

definition set_bytes :: "bytes \<Rightarrow> nat \<Rightarrow> bytes" where
  "set_bytes prefix i = encode_request [''SET'', prefix @ show_nat i, ''v'' @ show_nat i]"

definition gives_up :: "'n load_net \<Rightarrow> bytes \<Rightarrow> bytes \<Rightarrow> 'n \<Rightarrow> 'n \<Rightarrow> bool" where
  "gives_up N req unread net net' \<longleftrightarrow>
     (\<exists>kind m. kind \<in> {WouldBlock, TimedOut, UnexpectedEof, ConnectionReset, BrokenPipe, ConnectionAborted}
        \<and> (ld_send N req net = (Inl (IoError kind m), net')
           \<or> (\<exists>arrived rest. ld_send N req net = (Inr arrived, net')
                \<and> read_reply (unread @ arrived) = (Inl (IoError kind m), rest))))"

inductive load_run ::
  "'n load_net \<Rightarrow> bytes \<Rightarrow> nat list \<Rightarrow> nat list \<Rightarrow> bytes \<Rightarrow> 'n \<Rightarrow> 'n \<Rightarrow> bool" for N prefix where
  load_end: "load_run N prefix [] [] unread net net"
| load_ok: "ld_send N (set_bytes prefix i) net = (Inr arrived, net1) \<Longrightarrow>
    read_reply (unread @ arrived) = (Inr (Simple ''OK''), rest) \<Longrightarrow>
    load_run N prefix is oks rest net1 net2 \<Longrightarrow> load_run N prefix (i # is) (i # oks) unread net net2"
| load_other: "ld_send N (set_bytes prefix i) net = (Inr arrived, net1) \<Longrightarrow>
    read_reply (unread @ arrived) = (Inr r, rest) \<Longrightarrow> r \<noteq> Simple ''OK'' \<Longrightarrow>
    load_run N prefix is oks rest net1 net2 \<Longrightarrow> load_run N prefix (i # is) oks unread net net2"
| load_abandon: "gives_up N (set_bytes prefix i) unread net net1 \<Longrightarrow> ld_open N net1 = (Inr (), net2) \<Longrightarrow>
    load_run N prefix is oks [] net2 net3 \<Longrightarrow> load_run N prefix (i # is) oks unread net net3"

inductive_simps load_run_simps:
  "load_run N prefix [] oks unread net net'" "load_run N prefix (i # is) oks unread net net'"

lemma load_request_bytes: "load_request (load_entry prefix i) = set_bytes prefix i"
  by (simp add: load_request_def load_entry_def set_bytes_def)

lemma load_connect_Inr: "load_connect N net = (Inr unread, net') \<longleftrightarrow> unread = [] \<and> ld_open N net = (Inr (), net')"
  by (cases "ld_open N net"; cases "fst (ld_open N net)") (auto simp: load_connect_def)

lemma set_and_read_gives_up:
  assumes "set_and_read N req unread net = (Inl e, unread', net')" "is_abandon e"
  shows "gives_up N req unread net net'"
proof -
  obtain kind m where "e = IoError kind m"
    "kind \<in> {WouldBlock, TimedOut, UnexpectedEof, ConnectionReset, BrokenPipe, ConnectionAborted}"
    using assms(2) by (cases e) (auto simp: is_abandon_def)
  with assms(1) show ?thesis
    by (fastforce simp: gives_up_def set_and_read_def split: prod.splits sum.splits)
qed

lemma set_and_read_reads:
  assumes "set_and_read N req unread net = (Inr b, rest, net')"
  shows "\<exists>arrived r. ld_send N req net = (Inr arrived, net')
    \<and> read_reply (unread @ arrived) = (Inr r, rest) \<and> b = (r = Simple ''OK'')"
  using assms by (auto simp: set_and_read_def split: prod.splits sum.splits)

lemma load_writes_run:
  "load_writes N prefix is acked ab unread net = (Inr res, ab', net') \<Longrightarrow>
     \<exists>oks. load_run N prefix is oks unread net net'
       \<and> aw_entries res = aw_entries acked @ map (load_entry prefix) oks"
proof (induction N prefix "is" acked ab unread net rule: load_writes.induct)
  case (2 N prefix i "is" acked ab unread net)
  obtain r rest net1 where s: "set_and_read N (set_bytes prefix i) unread net = (r, rest, net1)"
    using prod_cases3 by blast
  note IH = "2.IH" [unfolded load_request_bytes, OF s [symmetric]]
  show ?case
  proof (cases r)
    case (Inl e)
    then have ab: "is_abandon e" and "\<exists>unread2 net2. load_connect N net1 = (Inr unread2, net2)"
      using "2.prems" s by (auto simp: load_request_bytes split: if_splits prod.splits sum.splits)
    then obtain net2 where c: "load_connect N net1 = (Inr [], net2)" "ld_open N net1 = (Inr (), net2)"
      by (auto simp: load_connect_Inr)
    have "load_writes N prefix is acked (ab + 1) [] net2 = (Inr res, ab', net')"
      using "2.prems" s Inl ab c by (simp add: load_request_bytes)
    from IH(1) [OF Inl refl ab c(1) [symmetric] refl this] obtain oks where
      "load_run N prefix is oks [] net2 net'"
      "aw_entries res = aw_entries acked @ map (load_entry prefix) oks" by blast
    with load_abandon [OF set_and_read_gives_up [OF s [unfolded Inl] ab] c(2)] show ?thesis by blast
  next
    case (Inr b)
    from set_and_read_reads [OF s [unfolded Inr]] obtain arrived reply where
      reply: "ld_send N (set_bytes prefix i) net = (Inr arrived, net1)"
        "read_reply (unread @ arrived) = (Inr reply, rest)" "b = (reply = Simple ''OK'')"
      by blast
    show ?thesis
    proof (cases "b = True")
      case True
      then obtain oks where "load_run N prefix is oks rest net1 net'"
        "aw_entries res = (aw_entries acked @ [load_entry prefix i]) @ map (load_entry prefix) oks"
        using IH(2) [OF Inr True refl] "2.prems" s Inr by (auto simp: load_request_bytes)
      then show ?thesis
        using load_ok [OF reply(1)] reply(2,3) True by (intro exI [of _ "i # oks"]) simp
    next
      case False
      then have "b = False" by simp
      then show ?thesis
        using IH(3) [OF Inr \<open>b = False\<close> refl] "2.prems" s Inr load_other [OF reply(1,2)] reply(3)
        by (auto simp: load_request_bytes)
    qed
  qed
qed (auto intro: load_end)

lemma load_run_oks:
  "load_run N prefix is oks unread net net' \<Longrightarrow> set oks \<subseteq> set is \<and> (distinct is \<longrightarrow> distinct oks)"
  by (induction rule: load_run.induct) auto

lemma show_nat_inj: "show_nat m = show_nat n \<Longrightarrow> m = n"
  by (metis digits_value_show_nat option.inject)

subsection \<open>Verifying engines at rest\<close>

definition at_rest :: "(bytes list \<Rightarrow> 'e \<Rightarrow> reply \<times> 'e) \<Rightarrow> 'e \<Rightarrow> bool" where
  "at_rest ex e \<longleftrightarrow> (\<forall>k. snd (ex [''GET'', k] e) = e) \<and> snd (ex [''DBSIZE''] e) = e"

definition holds :: "(bytes list \<Rightarrow> 'e \<Rightarrow> reply \<times> 'e) \<Rightarrow> 'e \<Rightarrow> bytes \<times> bytes \<Rightarrow> bool" where
  "holds ex e entry \<longleftrightarrow> fst (ex [''GET'', fst entry] e) = Bulk (snd entry)"

lemma query_get [chaos_simps]:
  assumes "speaks L ex" "at_rest ex e" "arg_fits k"
  shows "backend_query L (get_command k) (from_stream e) = Some (fst (ex [''GET'', k] e), from_stream e)"
  using assms backend_command_speaks [OF assms(1), of "[''GET'', k]" e]
  by (simp add: backend_query_def get_command_def at_rest_def request_fits_short arg_fits_small)

lemma query_dbsize [chaos_simps]:
  assumes "speaks L ex" "at_rest ex e"
  shows "backend_query L dbsize_command (from_stream e) = Some (fst (ex [''DBSIZE''] e), from_stream e)"
  using assms backend_command_speaks [OF assms(1), of "[''DBSIZE'']" e]
  by (simp add: backend_query_def dbsize_command_def at_rest_def request_fits_short arg_fits_small)

lemma present_everywhere_run:
  assumes "speaks L ex" "list_all (at_rest ex) es" "arg_fits k"
  shows "present_everywhere L (get_command k) v (map from_stream es)
    = Some (list_all (\<lambda>e. holds ex e (k, v)) es, map from_stream es)"
  using assms(2)
  by (induction es) (simp_all add: query_get [OF assms(1) _ assms(3)] holds_def)

lemma find_losses_run:
  assumes "speaks L ex" "list_all (at_rest ex) es" "list_all (arg_fits \<circ> fst) entries"
  shows "find_losses L entries (map from_stream es)
    = Some (map (from_utf8_lossy \<circ> fst) (filter (\<lambda>w. \<not> list_all (\<lambda>e. holds ex e w) es) entries),
            map from_stream es)"
  using assms(3)
proof (induction entries)
  case (Cons w entries)
  then show ?case
    by (cases w) (simp add: present_everywhere_run [OF assms(1,2)])
qed simp

lemma query_dbsizes_run:
  assumes "speaks L ex" "list_all (at_rest ex) es"
  shows "query_dbsizes L (map from_stream es) = Some (map (\<lambda>e. dbsize_of (fst (ex [''DBSIZE''] e))) es)"
  using assms(2) by (induction es) (simp_all add: query_dbsize [OF assms(1)])

lemma find_missing_run:
  assumes "speaks L ex" "at_rest ex e" "list_all (arg_fits \<circ> fst) entries"
  shows "find_missing L entries (from_stream e)
    = Some (map (from_utf8_lossy \<circ> fst) (filter (\<lambda>w. \<not> holds ex e w) entries), from_stream e)"
  using assms(3)
proof (induction entries)
  case (Cons w entries)
  then show ?case
    by (cases w) (simp add: query_get [OF assms(1,2)] holds_def)
qed simp

lemma connect_all_run:
  "(\<And>a. a \<in> set as \<Longrightarrow> connect_auth L a pw = Some (Inr (from_stream (eng a)))) \<Longrightarrow>
     connect_all L pw as = Some (Inr (map (from_stream \<circ> eng) as))"
  by (induction "as") simp_all

lemma windows_equal_iff: "windows_equal ns \<longleftrightarrow> (\<exists>n. \<forall>x\<in>set ns. x = n)"
proof (induction ns rule: windows_equal.induct)
  case (1 a b r)
  then show ?case by auto
qed auto

text \<open>
  C30: against survivors at rest the verifier always reports, and its report is right: it passes
  exactly when every survivor returns the acknowledged value for every acknowledged key and all
  report the same size; and running the check on each survivor and joining the partial reports
  gives the same verdict, sizes and totals as the single process that queries them all, although
  that one stops asking about a key at the first survivor that lost it.
\<close>

theorem split_verification_agrees:
  assumes "speaks L ex" "list_all (arg_fits \<circ> fst) (aw_entries acked)"
    and "\<And>a. a \<in> set engines \<Longrightarrow>
      connect_auth L a pw = Some (Inr (from_stream (eng a))) \<and> at_rest ex (eng a)"
  shows "\<exists>rep parts. verify L engines pw acked = Some (Inr rep)
    \<and> list_all2 (\<lambda>a p. verify_one L a pw a acked = Some (Inr p)) engines parts
    \<and> (report_ok rep \<longleftrightarrow>
        (\<forall>w\<in>set (aw_entries acked). \<forall>a\<in>set engines. fst (ex [''GET'', fst w] (eng a)) = Bulk (snd w))
        \<and> (\<exists>n. \<forall>a\<in>set engines. dbsize_of (fst (ex [''DBSIZE''] (eng a))) = n))
    \<and> (report_ok rep \<longleftrightarrow>
        (\<forall>p\<in>set parts. pr_missing_keys p = []) \<and> windows_equal (map pr_dbsize parts))
    \<and> vr_dbsizes rep = map pr_dbsize parts
    \<and> set (vr_acked_loss rep) = (\<Union>p\<in>set parts. set (pr_missing_keys p))
    \<and> (\<forall>p\<in>set parts. pr_acked_total p = vr_acked_total rep)"
proof -
  let ?ws = "aw_entries acked"
  let ?es = "map eng engines"
  let ?miss = "\<lambda>e. map (from_utf8_lossy \<circ> fst) (filter (\<lambda>w. \<not> holds ex e w) ?ws)"
  let ?size = "\<lambda>e. dbsize_of (fst (ex [''DBSIZE''] e))"
  let ?part = "\<lambda>a. \<lparr>pr_engine_label = a, pr_acked_total = length ?ws,
    pr_missing_keys = ?miss (eng a), pr_dbsize = ?size (eng a)\<rparr>"
  let ?rep = "\<lparr>vr_engines = length engines, vr_acked_total = length ?ws,
    vr_acked_loss = map (from_utf8_lossy \<circ> fst) (filter (\<lambda>w. \<not> list_all (\<lambda>e. holds ex e w) ?es) ?ws),
    vr_dbsizes = map ?size ?es, vr_converged = windows_equal (map ?size ?es)\<rparr>"
  have rest: "list_all (at_rest ex) ?es"
    using assms(3) by (simp add: list_all_iff)
  have conn: "connect_all L pw engines = Some (Inr (map from_stream ?es))"
    using connect_all_run [of engines L pw eng] assms(3) by simp
  have v: "verify L engines pw acked = Some (Inr ?rep)"
    using find_losses_run [OF assms(1) rest assms(2)] query_dbsizes_run [OF assms(1) rest]
    by (simp add: verify_def conn)
  have one: "verify_one L a pw a acked = Some (Inr (?part a))" if "a \<in> set engines" for a
    using assms(3) [OF that] find_missing_run [OF assms(1) _ assms(2), of "eng a"]
    by (simp add: verify_one_def query_dbsize [OF assms(1)])
  have parts: "list_all2 (\<lambda>a p. verify_one L a pw a acked = Some (Inr p)) engines (map ?part engines)"
    using one by (simp add: list_all2_map2 list_all2_same)
  have ok: "report_ok ?rep \<longleftrightarrow>
      (\<forall>w\<in>set ?ws. \<forall>a\<in>set engines. fst (ex [''GET'', fst w] (eng a)) = Bulk (snd w))
      \<and> (\<exists>n. \<forall>a\<in>set engines. ?size (eng a) = n)"
    by (simp add: report_ok_def filter_empty_conv list_all_iff holds_def windows_equal_iff)
  have "report_ok ?rep \<longleftrightarrow>
      (\<forall>p\<in>set (map ?part engines). pr_missing_keys p = []) \<and> windows_equal (map pr_dbsize (map ?part engines))"
    unfolding ok by (auto simp: filter_empty_conv holds_def windows_equal_iff)
  moreover have "set (vr_acked_loss ?rep) = (\<Union>p\<in>set (map ?part engines). set (pr_missing_keys p))"
    by (auto simp: list_all_iff)
  ultimately show ?thesis
    using v parts ok by (intro exI [of _ ?rep] exI [of _ "map ?part engines"]) (simp add: comp_def)
qed

lemma drive_load_runs:
  assumes "drive_load N prefix count hold net = (Inr acked, net')"
  shows "\<exists>oks1 oks2 n1 n2 n3.
    ld_open N net = (Inr (), n1) \<and> load_run N prefix [0..<count div 2] oks1 [] n1 n2
    \<and> ld_open N (hold n2) = (Inr (), n3) \<and> load_run N prefix [count div 2..<count] oks2 [] n3 net'
    \<and> aw_entries acked = map (\<lambda>i. (prefix @ show_nat i, ''v'' @ show_nat i)) (oks1 @ oks2)
    \<and> distinct (map fst (aw_entries acked)) \<and> set (oks1 @ oks2) \<subseteq> {..<count}"
proof -
  obtain acked1 n2 acked2 where
    r1: "run_load N prefix 0 (count div 2) net = (Inr acked1, n2)" and
    r2: "run_load N prefix (count div 2) count (hold n2) = (Inr acked2, net')" and
    acked: "acked = acked_extend acked1 acked2"
    using assms by (auto simp: drive_load_def Let_def split: prod.splits sum.splits)
  have phase: "\<exists>oks n1. ld_open N m = (Inr (), n1) \<and> load_run N prefix [lo..<hi] oks [] n1 m'
      \<and> aw_entries a = map (load_entry prefix) oks"
    if load: "run_load N prefix lo hi m = (Inr a, m')" for lo hi m a m'
  proof -
    obtain unread n1 where c1: "load_connect N m = (Inr unread, n1)"
      using load by (cases "load_connect N m"; cases "fst (load_connect N m)") (auto simp: run_load_def)
    then obtain ab where c: "load_connect N m = (Inr unread, n1)"
      "load_writes N prefix [lo..<hi] acked_new 0 unread n1 = (Inr a, ab, m')"
      using load by (auto simp: run_load_def split: prod.splits)
    with load_writes_run [OF c(2)] show ?thesis
      by (auto simp: load_connect_Inr acked_new_def)
  qed
  from phase [OF r1] obtain oks1 n1 where
    p1: "ld_open N net = (Inr (), n1)" "load_run N prefix [0..<count div 2] oks1 [] n1 n2"
      "aw_entries acked1 = map (load_entry prefix) oks1"
    by blast
  from phase [OF r2] obtain oks2 n3 where
    p2: "ld_open N (hold n2) = (Inr (), n3)" "load_run N prefix [count div 2..<count] oks2 [] n3 net'"
      "aw_entries acked2 = map (load_entry prefix) oks2"
    by blast
  have oks: "distinct oks1" "set oks1 \<subseteq> {0..<count div 2}" "distinct oks2"
    "set oks2 \<subseteq> {count div 2..<count}"
    using load_run_oks [OF p1(2)] load_run_oks [OF p2(2)] by auto
  then have "distinct (oks1 @ oks2)" "set (oks1 @ oks2) \<subseteq> {..<count}"
    by fastforce+
  moreover have "inj (\<lambda>i. fst (load_entry prefix i))"
    by (rule injI) (auto simp: load_entry_def dest: show_nat_inj)
  ultimately have "distinct (map (\<lambda>i. fst (load_entry prefix i)) (oks1 @ oks2))"
    by (simp only: distinct_map inj_on_def inj_def) blast
  then show ?thesis
    using p1 p2 \<open>set (oks1 @ oks2) \<subseteq> _\<close>
    by (intro exI [of _ oks1] exI [of _ oks2] exI [of _ n1] exI [of _ n2] exI [of _ n3])
      (simp add: acked acked_extend_def load_entry_def comp_def)
qed

text \<open>
  C33: the acknowledged set holds a write only if that write itself was answered \<open>+OK\<close>: over both
  phases it is, in order, exactly the writes after whose sending the next reply on the connection
  was \<open>+OK\<close>; a write whose reply is late or lost is given up and the next one is sent on a new
  connection, so that a late reply is never taken for the next one's; no key is recorded twice, so a
  later value never hides a lost one.
\<close>

theorem load_records_acked:
  assumes "drive_load N prefix count hold net = (Inr acked, net')"
  shows "\<exists>oks1 oks2 n1 n2 n3.
    ld_open N net = (Inr (), n1) \<and> load_run N prefix [0..<count div 2] oks1 [] n1 n2
    \<and> ld_open N (hold n2) = (Inr (), n3) \<and> load_run N prefix [count div 2..<count] oks2 [] n3 net'
    \<and> aw_entries acked = map (\<lambda>i. (prefix @ show_nat i, ''v'' @ show_nat i)) (oks1 @ oks2)
    \<and> distinct (map fst (aw_entries acked)) \<and> set (oks1 @ oks2) \<subseteq> {..<count}"
  using assms by (rule drive_load_runs)

text \<open>A proxy that is often too late.\<close>

definition flaky_net :: "nat load_net" where
  "flaky_net =
     \<lparr>ld_open = (\<lambda>n. (Inr (), n + 1)),
      ld_send = (\<lambda>req n.
        (if n mod 3 = 0 then Inr (to_bytes reply_ok) else Inl (IoError TimedOut []), n + 1))\<rparr>"

theorem load_records_acked_witness:
  "\<exists>acked net'. drive_load flaky_net ''k'' 5 id 0 = (Inr acked, net')
     \<and> aw_entries acked = [(''k1'', ''v1''), (''k4'', ''v4'')]
     \<and> distinct (map fst (aw_entries acked))"
proof -
  have run: "drive_load flaky_net ''k'' 5 id 0
      = (Inr \<lparr>aw_entries = [(''k1'', ''v1''), (''k4'', ''v4'')]\<rparr>, 10)"
    by code_simp
  from load_records_acked [OF run] show ?thesis
    using run by auto
qed

subsection \<open>A lost write is found\<close>

definition demo_holder :: "bytes list \<Rightarrow> bool \<Rightarrow> reply \<times> bool" where
  "demo_holder argv e =
     (if argv = [''GET'', ''k0''] \<and> e then Bulk ''v0''
      else if argv = [''DBSIZE''] then Integer 1 else NilReply, e)"

text \<open>An engine at an address holds the key unless the address is \<open>lost\<close>.\<close>

definition holder_link :: "bool engine_link" where
  "holder_link =
     \<lparr>lk_write = (\<lambda>req e.
        case next_command (feed req decoder_new) of
          (Inr (Some argv), _) \<Rightarrow> (Inr (to_bytes (fst (demo_holder argv e))), e)
        | _ \<Rightarrow> (Inr [], e)),
      lk_connect = (\<lambda>k a. Inr (a \<noteq> ''lost''))\<rparr>"

lemma holder_speaks: "speaks holder_link demo_holder"
proof -
  have next_req: "next_command (feed (encode_request argv) decoder_new) = (Inr (Some argv), decoder_new)"
    if "request_fits argv" for argv
    using next_command_request [OF that, of "[]"] by (simp add: feed_def decoder_new_def)
  have "reply_clean (Bulk ''v0'')" "reply_clean (Integer 1)"
    by code_simp+
  then show ?thesis
    using next_req by (simp add: speaks_def holder_link_def demo_holder_def)
qed

theorem split_verification_agrees_witness:
  "\<exists>rep parts. verify holder_link [''one'', ''lost''] None \<lparr>aw_entries = [(''k0'', ''v0'')]\<rparr> = Some (Inr rep)
     \<and> list_all2 (\<lambda>a p. verify_one holder_link a None a \<lparr>aw_entries = [(''k0'', ''v0'')]\<rparr> = Some (Inr p))
         [''one'', ''lost''] parts
     \<and> \<not> report_ok rep"
proof -
  let ?acked = "\<lparr>aw_entries = [(''k0'', ''v0'')]\<rparr>"
  have fits: "list_all (arg_fits \<circ> fst) (aw_entries ?acked)"
    by (simp add: arg_fits_small)
  have conn: "connect_auth holder_link a None = Some (Inr (from_stream (a \<noteq> ''lost'')))
      \<and> at_rest demo_holder (a \<noteq> ''lost'')" for a
    by (simp add: connect_auth_def connect_def holder_link_def authed_def at_rest_def demo_holder_def)
  have "fst (demo_holder [''GET'', ''k0''] (''lost'' \<noteq> ''lost'')) \<noteq> Bulk ''v0''"
    by (simp add: demo_holder_def)
  then show ?thesis
    using split_verification_agrees [OF holder_speaks fits conn, of "[''one'', ''lost'']"]
    by fastforce
qed

end
