(* ===== verification/Chaos_Main.thy ===== *)
theory Chaos_Main
  imports Chaos_Claims
begin

section \<open>The chaos binary\<close>

text \<open>
  \<open>src/crates/trains-valkey/src/bin/chaos.rs\<close> from its parsed command line to its exit code and the
  files it leaves. The split pipeline, a load on one host and a local check on each survivor, decides
  what the load promised.
\<close>

subsection \<open>The command line\<close>

datatype chaos_mode = FullMode | LoadMode | VerifyLocalMode

record chaos_cli =
  ch_mode :: chaos_mode
  ch_mode_given :: bool
  ch_resp :: "bytes option"
  ch_count :: nat
  ch_hold_secs :: nat
  ch_abandon_secs :: nat
  ch_prefix :: bytes
  ch_acked_out :: "bytes option"
  ch_engines :: "bytes list"
  ch_acked_in :: "bytes option"
  ch_engine :: "bytes option"
  ch_label :: bytes
  ch_report_out :: "bytes option"
  ch_password :: "bytes option"

text \<open>
  The options that the grammar requires in each mode. The parser's condition looks at what was given
  on the command line, so a mode that is \<open>full\<close> by default requires nothing.
\<close>

definition required_given :: "chaos_cli \<Rightarrow> bool" where
  "required_given c =
     (if \<not> ch_mode_given c then True
      else case ch_mode c of
        FullMode \<Rightarrow> ch_resp c \<noteq> None
      | LoadMode \<Rightarrow> ch_resp c \<noteq> None \<and> ch_acked_out c \<noteq> None
      | VerifyLocalMode \<Rightarrow> ch_acked_in c \<noteq> None \<and> ch_engine c \<noteq> None \<and> ch_report_out c \<noteq> None)"

text \<open>
  What the binary runs on: the proxies by address and reply deadline in seconds, the pause, the
  engines, \<open>serde_json\<close>, and the disk. \<open>hw_write\<close> is what a file holds in the end of what a
  \<open>BufWriter\<close> was given that is dropped without a flush, and the error the writes reported; an
  error of the flush in the drop is not reported.
\<close>

record ('n, 'e) chaos_host =
  hw_net :: "bytes \<Rightarrow> nat option \<Rightarrow> 'n load_net"
  hw_sleep :: "nat \<Rightarrow> 'n \<Rightarrow> 'n"
  hw_link :: "'e engine_link"
  hw_to_json :: "(bytes \<times> bytes) list \<Rightarrow> bytes + bytes"
  hw_from_json :: "bytes \<Rightarrow> bytes + (bytes \<times> bytes) list"
  hw_report_json :: "partial_report \<Rightarrow> bytes"
  hw_create :: "bytes \<Rightarrow> bool"
  hw_write :: "bytes \<Rightarrow> bytes \<Rightarrow> io_error option \<times> bytes"

type_synonym files = "bytes \<Rightarrow> bytes option"

subsection \<open>The modes\<close>

definition abandon_of :: "chaos_cli \<Rightarrow> nat option" where
  "abandon_of c = (if ch_abandon_secs c > 0 then Some (ch_abandon_secs c) else None)"

text \<open>\<open>None\<close> is the error for the missing address.\<close>

definition cli_load ::
  "('n, 'e) chaos_host \<Rightarrow> chaos_cli \<Rightarrow> 'n \<Rightarrow> (io_error + acked_writes) option" where
  "cli_load H c net =
     (case ch_resp c of
        None \<Rightarrow> None
      | Some resp \<Rightarrow>
          Some (fst (drive_load (hw_net H resp (abandon_of c)) (ch_prefix c) (ch_count c)
            (hw_sleep H (ch_hold_secs c)) net)))"

text \<open>Exit codes; an error that \<open>main\<close> returns is exit code 1, and \<open>None\<close> is a panic.\<close>

definition run_full :: "('n, 'e) chaos_host \<Rightarrow> chaos_cli \<Rightarrow> 'n \<Rightarrow> nat option" where
  "run_full H c net =
     (case cli_load H c net of
        Some (Inr acked) \<Rightarrow>
          if ch_engines c = [] then Some 1
          else
            do {
              res \<leftarrow> verify (hw_link H) (ch_engines c) (ch_password c) acked;
              Some (case res of Inl e \<Rightarrow> 1 | Inr rep \<Rightarrow> if report_ok rep then 0 else 1)
            }
      | Some (Inl IoPanic) \<Rightarrow> None
      | _ \<Rightarrow> Some 1)"

definition run_load_phase ::
  "('n, 'e) chaos_host \<Rightarrow> chaos_cli \<Rightarrow> 'n \<Rightarrow> files \<Rightarrow> (nat \<times> files) option" where
  "run_load_phase H c net fs =
     (case (cli_load H c net, ch_acked_out c) of
        (Some (Inr acked), Some path) \<Rightarrow>
          if \<not> hw_create H path then Some (1, fs)
          else
            (case write_json (hw_to_json H) acked of
               Inl e \<Rightarrow> Some (1, fs(path \<mapsto> []))
             | Inr bs \<Rightarrow>
                 (case hw_write H path bs of
                    (Some e, held) \<Rightarrow> Some (1, fs(path \<mapsto> held))
                  | (None, held) \<Rightarrow> Some (0, fs(path \<mapsto> held))))
      | (Some (Inl IoPanic), _) \<Rightarrow> None
      | _ \<Rightarrow> Some (1, fs))"

definition run_verify_local ::
  "('n, 'e) chaos_host \<Rightarrow> chaos_cli \<Rightarrow> files \<Rightarrow> (nat \<times> files) option" where
  "run_verify_local H c fs =
     (case (ch_acked_in c, ch_engine c, ch_report_out c) of
        (Some acked_in, Some engine, Some report_out) \<Rightarrow>
          (case map_option (read_json (hw_from_json H)) (fs acked_in) of
             Some (Inr acked) \<Rightarrow>
               do {
                 res \<leftarrow> verify_one (hw_link H) engine (ch_password c) (ch_label c) acked;
                 Some
                   (case res of
                      Inl e \<Rightarrow> (1, fs)
                    | Inr p \<Rightarrow>
                        if \<not> hw_create H report_out then (1, fs)
                        else
                          (case hw_write H report_out (hw_report_json H p) of
                             (Some e, held) \<Rightarrow> (1, fs(report_out \<mapsto> held))
                           | (None, held) \<Rightarrow>
                               (if pr_missing_keys p \<noteq> [] then 2 else 0, fs(report_out \<mapsto> held))))
               }
           | _ \<Rightarrow> Some (1, fs))
      | _ \<Rightarrow> Some (1, fs))"

text \<open>A usage error of the argument parser is exit code 2.\<close>

definition chaos_main ::
  "('n, 'e) chaos_host \<Rightarrow> chaos_cli \<Rightarrow> 'n \<Rightarrow> files \<Rightarrow> (nat \<times> files) option" where
  "chaos_main H c net fs =
     (if \<not> required_given c then Some (2, fs)
      else
        (case ch_mode c of
           FullMode \<Rightarrow> map_option (\<lambda>code. (code, fs)) (run_full H c net)
         | LoadMode \<Rightarrow> run_load_phase H c net fs
         | VerifyLocalMode \<Rightarrow> run_verify_local H c fs))"

subsection \<open>The split pipeline\<close>

lemma load_main_passed:
  assumes "chaos_main H c net fs = Some (0, fs')" "ch_mode c = LoadMode" "ch_acked_out c = Some path"
  obtains resp acked net' bs held where "ch_resp c = Some resp"
    "drive_load (hw_net H resp (abandon_of c)) (ch_prefix c) (ch_count c) (hw_sleep H (ch_hold_secs c)) net
       = (Inr acked, net')"
    "write_json (hw_to_json H) acked = Inr bs" "hw_write H path bs = (None, held)" "fs' path = Some held"
proof -
  have phase: "run_load_phase H c net fs = Some (0, fs')"
    using assms(1,2) by (auto simp: chaos_main_def split: if_splits)
  then obtain resp where resp: "ch_resp c = Some resp"
    by (auto simp: run_load_phase_def cli_load_def split: option.splits)
  obtain res net' where load: "drive_load (hw_net H resp (abandon_of c)) (ch_prefix c) (ch_count c)
      (hw_sleep H (ch_hold_secs c)) net = (res, net')"
    by fastforce
  then show ?thesis
    using that [OF resp] phase
    by (auto simp: run_load_phase_def cli_load_def resp assms(3)
        split: sum.splits if_splits prod.splits option.splits io_error.splits)
qed

text \<open>The flush in the drop may lose what was written, and the load passes.\<close>

lemma unflushed_load_passes:
  assumes "ch_mode c = LoadMode" "ch_acked_out c = Some path" "cli_load H c net = Some (Inr acked)"
    and "hw_create H path" "write_json (hw_to_json H) acked = Inr bs" "hw_write H path bs = (None, held)"
  shows "chaos_main H c net fs = Some (0, fs(path \<mapsto> held))"
  using assms
  by (auto simp: chaos_main_def required_given_def run_load_phase_def cli_load_def split: option.splits)

text \<open>The check of one engine at rest.\<close>

lemma verify_one_run:
  assumes "speaks L ex" "at_rest ex e" "list_all (arg_fits \<circ> fst) (aw_entries acked)"
    and "connect_auth L a pw = Some (Inr (from_stream e))"
  shows "verify_one L a pw label acked = Some (Inr
    \<lparr>pr_engine_label = label, pr_acked_total = length (aw_entries acked),
     pr_missing_keys = map (from_utf8_lossy \<circ> fst) (filter (\<lambda>w. \<not> holds ex e w) (aw_entries acked)),
     pr_dbsize = dbsize_of (fst (ex [''DBSIZE''] e))\<rparr>)"
  using assms(4) find_missing_run [OF assms(1-3)]
  by (simp add: verify_one_def query_dbsize [OF assms(1,2)])

lemma verify_main_run:
  assumes "ch_mode c = VerifyLocalMode" "ch_acked_in c = Some acked_in" "ch_engine c = Some a"
    "ch_report_out c = Some report_out"
    and "fs acked_in = Some bs" "read_json (hw_from_json H) bs = Inr acked"
    and "speaks (hw_link H) ex" "at_rest ex e" "list_all (arg_fits \<circ> fst) (aw_entries acked)"
    and "connect_auth (hw_link H) a (ch_password c) = Some (Inr (from_stream e))"
    and "hw_create H report_out" "\<forall>p s. hw_write H p s = (None, s)"
  shows "\<exists>part. verify_one (hw_link H) a (ch_password c) (ch_label c) acked = Some (Inr part)
    \<and> chaos_main H c net fs
        = Some (if \<forall>w \<in> set (aw_entries acked). holds ex e w then 0 else 2,
                fs(report_out \<mapsto> hw_report_json H part))"
  using assms(1-6,11,12) verify_one_run [OF assms(7-10)]
  by (auto simp: chaos_main_def required_given_def run_verify_local_def filter_empty_conv)

text \<open>
  C29: the split pipeline decides what it is for. Provided the disks keep what is written and the
  JSON library inverts itself: when the load on one host exits with 0, the check on a survivor at
  rest that was handed its file exits with 0 exactly when that survivor still answers every write of
  both phases after whose sending the next reply was \<open>+OK\<close>, and with 2 otherwise, and its report is
  on the disk.
\<close>

theorem split_run_verdict:
  assumes "chaos_main H cl net fs = Some (0, fs1)" "ch_mode cl = LoadMode" "ch_acked_out cl = Some path"
    and "ch_mode cv = VerifyLocalMode" "ch_acked_in cv = Some acked_in" "ch_engine cv = Some a"
    "ch_report_out cv = Some report_out" "fs2 acked_in = fs1 path"
    and "\<And>v s. hw_to_json H v = Inr s \<Longrightarrow> utf8_valid (s @ [LF]) \<and> hw_from_json H' (s @ [LF]) = Inr v"
    and "\<forall>p s. hw_write H p s = (None, s)" "\<forall>p s. hw_write H' p s = (None, s)" "hw_create H' report_out"
    and "speaks (hw_link H') ex" "at_rest ex e"
    and "connect_auth (hw_link H') a (ch_password cv) = Some (Inr (from_stream e))"
    and "\<And>i. i < ch_count cl \<Longrightarrow> arg_fits (ch_prefix cl @ show_nat i)"
  shows "\<exists>resp oks1 oks2 n1 n2 n3 n4 part.
    ch_resp cl = Some resp
    \<and> (let N = hw_net H resp (abandon_of cl); half = ch_count cl div 2 in
         ld_open N net = (Inr (), n1) \<and> load_run N (ch_prefix cl) [0..<half] oks1 [] n1 n2
         \<and> ld_open N (hw_sleep H (ch_hold_secs cl) n2) = (Inr (), n3)
         \<and> load_run N (ch_prefix cl) [half..<ch_count cl] oks2 [] n3 n4)
    \<and> chaos_main H' cv net' fs2
        = Some (if \<forall>i \<in> set (oks1 @ oks2).
                     fst (ex [''GET'', ch_prefix cl @ show_nat i] e) = Bulk (''v'' @ show_nat i) then 0 else 2,
                fs2(report_out \<mapsto> hw_report_json H' part))"
proof -
  obtain resp acked n' bs held where load: "ch_resp cl = Some resp"
    "drive_load (hw_net H resp (abandon_of cl)) (ch_prefix cl) (ch_count cl) (hw_sleep H (ch_hold_secs cl)) net
       = (Inr acked, n')"
    "write_json (hw_to_json H) acked = Inr bs" "hw_write H path bs = (None, held)" "fs1 path = Some held"
    by (rule load_main_passed [OF assms(1-3)])
  let ?N = "hw_net H resp (abandon_of cl)"
  obtain oks1 oks2 n1 n2 n3 where runs:
    "ld_open ?N net = (Inr (), n1)" "load_run ?N (ch_prefix cl) [0..<ch_count cl div 2] oks1 [] n1 n2"
    "ld_open ?N (hw_sleep H (ch_hold_secs cl) n2) = (Inr (), n3)"
    "load_run ?N (ch_prefix cl) [ch_count cl div 2..<ch_count cl] oks2 [] n3 n'"
    and entries: "aw_entries acked = map (\<lambda>i. (ch_prefix cl @ show_nat i, ''v'' @ show_nat i)) (oks1 @ oks2)"
      "set (oks1 @ oks2) \<subseteq> {..<ch_count cl}"
    using drive_load_runs [OF load(2)] by blast
  have kept: "fs2 acked_in = Some bs"
    using load(4,5) assms(8,10) by simp
  have reads: "read_json (hw_from_json H') bs = Inr acked"
    by (rule acked_json_roundtrip [OF assms(9) load(3)])
  have fits: "list_all (arg_fits \<circ> fst) (aw_entries acked)"
    using entries(2) assms(16) by (auto simp: entries(1) list_all_iff)
  have held: "(\<forall>w \<in> set (aw_entries acked). holds ex e w) \<longleftrightarrow> (\<forall>i \<in> set (oks1 @ oks2).
      fst (ex [''GET'', ch_prefix cl @ show_nat i] e) = Bulk (''v'' @ show_nat i))"
    by (simp add: entries(1) holds_def ball_Un)
  show ?thesis
    using verify_main_run [where net = net' and fs = fs2 and acked_in = acked_in, OF assms(4-7) kept reads
        assms(13,14) fits assms(15,12,11)] load(1) runs unfolding held Let_def by blast
qed

text \<open>A load whose every write is answered, and a JSON of the two texts of each entry.\<close>

definition demo_host :: "(nat, bool) chaos_host" where
  "demo_host =
     \<lparr>hw_net = (\<lambda>a d. \<lparr>ld_open = (\<lambda>n. (Inr (), n)), ld_send = (\<lambda>req n. (Inr (to_bytes reply_ok), n + 1))\<rparr>),
      hw_sleep = (\<lambda>secs n. n), hw_link = holder_link,
      hw_to_json = (\<lambda>v. if v = [(''k0'', ''v0'')] then Inr ''k0v0'' else Inl ''other''),
      hw_from_json = (\<lambda>s. Inr [(''k0'', ''v0'')]), hw_report_json = (\<lambda>p. concat (pr_missing_keys p)),
      hw_create = (\<lambda>p. True), hw_write = (\<lambda>p s. (None, s))\<rparr>"

definition demo_line :: "chaos_mode \<Rightarrow> bytes \<Rightarrow> chaos_cli" where
  "demo_line mode engine =
     \<lparr>ch_mode = mode, ch_mode_given = True, ch_resp = Some ''proxy'', ch_count = 1, ch_hold_secs = 15, ch_abandon_secs = 5,
      ch_prefix = ''k'', ch_acked_out = Some ''acked'', ch_engines = [], ch_acked_in = Some ''acked'',
      ch_engine = Some engine, ch_label = ''node-?'', ch_report_out = Some ''report'', ch_password = None\<rparr>"

lemma demo_load:
  "chaos_main demo_host (demo_line LoadMode ''one'') 0 Map.empty = Some (0, [''acked'' \<mapsto> ''k0v0'' @ [LF]])"
proof -
  have "write_json (hw_to_json demo_host) \<lparr>aw_entries = [(''k0'', ''v0'')]\<rparr> = Inr (''k0v0'' @ [LF])"
    "cli_load demo_host (demo_line LoadMode ''one'') 0 = Some (Inr \<lparr>aw_entries = [(''k0'', ''v0'')]\<rparr>)"
    by code_simp+
  then show ?thesis
    by (intro unflushed_load_passes) (simp_all add: demo_line_def demo_host_def)
qed

theorem split_run_verdict_witness:
  "\<exists>fs. chaos_main demo_host (demo_line VerifyLocalMode ''lost'') 0 [''acked'' \<mapsto> ''k0v0'' @ [LF]] = Some (2, fs)"
proof -
  have json: "utf8_valid (s @ [LF]) \<and> hw_from_json demo_host (s @ [LF]) = Inr v"
    if "hw_to_json demo_host v = Inr s" for v s
  proof -
    have "s = ''k0v0''" "v = [(''k0'', ''v0'')]"
      using that by (simp_all add: demo_host_def split: if_splits)
    moreover have "utf8_valid (''k0v0'' @ [LF])" by code_simp
    ultimately show ?thesis by (simp add: demo_host_def)
  qed
  have conn: "connect_auth (hw_link demo_host) ''lost'' (ch_password (demo_line VerifyLocalMode ''lost''))
      = Some (Inr (from_stream False))"
    by (simp add: demo_line_def demo_host_def connect_auth_def connect_def holder_link_def authed_def)
  have zero: "show_nat 0 = ''0''" by code_simp
  have keys: "arg_fits (ch_prefix (demo_line LoadMode ''one'') @ show_nat i)"
    if "i < ch_count (demo_line LoadMode ''one'')" for i
    using that zero by (simp add: demo_line_def arg_fits_small)
  have rest: "at_rest demo_holder False"
    by (simp add: at_rest_def demo_holder_def)
  have host: "\<forall>p s. hw_write demo_host p s = (None, s)" "hw_create demo_host ''report''"
    "speaks (hw_link demo_host) demo_holder"
    using holder_speaks by (simp_all add: demo_host_def)
  have line: "ch_mode (demo_line m a) = m" "ch_acked_out (demo_line m a) = Some ''acked''"
    "ch_acked_in (demo_line m a) = Some ''acked''" "ch_engine (demo_line m a) = Some a"
    "ch_report_out (demo_line m a) = Some ''report''" for m a
    by (simp_all add: demo_line_def)
  have ok: "read_reply (to_bytes reply_ok) = (Inr (Simple ''OK''), [])"
    by code_simp
  have one: "oks1 = [] \<and> oks2 = [0]"
    if "load_run (hw_net demo_host a d) ''k'' [] oks1 [] n1 n2"
      "load_run (hw_net demo_host a d) ''k'' [0] oks2 [] n3 n4" for a d oks1 oks2 n1 n2 n3 n4
    using that by (auto simp: load_run_simps demo_host_def gives_up_def ok)
  have lost: "fst (demo_holder [''GET'', ''k'' @ show_nat 0] False) \<noteq> Bulk (''v'' @ show_nat 0)"
    by (simp add: demo_holder_def)
  have workload: "ch_prefix (demo_line m a) = ''k''" "ch_count (demo_line m a) = 1" for m a
    by (simp_all add: demo_line_def)
  obtain resp oks1 oks2 n1 n2 n3 n4 part where
    runs: "load_run (hw_net demo_host resp (abandon_of (demo_line LoadMode ''one''))) ''k'' [] oks1 [] n1 n2"
    "load_run (hw_net demo_host resp (abandon_of (demo_line LoadMode ''one''))) ''k'' [0] oks2 [] n3 n4"
    and main: "chaos_main demo_host (demo_line VerifyLocalMode ''lost'') 0 [''acked'' \<mapsto> ''k0v0'' @ [LF]]
      = Some (if \<forall>i \<in> set (oks1 @ oks2). fst (demo_holder [''GET'', ''k'' @ show_nat i] False)
                   = Bulk (''v'' @ show_nat i) then 0 else 2,
              [''acked'' \<mapsto> ''k0v0'' @ [LF]] (''report'' \<mapsto> hw_report_json demo_host part))"
    using split_run_verdict [where cv = "demo_line VerifyLocalMode ''lost''" and acked_in = "''acked''"
        and ?fs2.0 = "[''acked'' \<mapsto> ''k0v0'' @ [LF]]" and e = False and net' = "0 :: nat",
        OF demo_load line(1,2,1,3,4,5) refl json host(1,1,2,3) rest conn keys]
    unfolding workload Let_def by auto
  have "oks1 = []" "oks2 = [0]" using one [OF runs] by simp_all
  with main lost show ?thesis by auto
qed

end
