(* ===== verification/Config.thy ===== *)
theory Config
  imports Passive "HOL-Library.Multiset"
begin

section \<open>Configuration and start-up\<close>

text \<open>
  \<open>src/crates/trains-valkey/src/main.rs\<close> and the checks of \<open>run_proxy_node\<close> in \<open>proxy.rs\<close>: from
  the parsed command line to the settings of a node. Files, TLS identities, fingerprints and
  socket addresses are what \<open>config_ops\<close> makes of their texts; the command-line grammar itself is
  the argument parser's. Error values name the message the source builds.
\<close>

named_theorems config_simps \<open>parsing of well-formed settings\<close>

record ('i, 'fp, 'a) config_ops =
  load_identity :: "bytes \<Rightarrow> 'i option"
  fp_from_hex :: "bytes \<Rightarrow> 'fp option"
  addr_from_str :: "bytes \<Rightarrow> 'a option"
  read_to_string :: "bytes \<Rightarrow> bytes option"

datatype config_error =
    LoadingIdentity bytes
  | InvalidFingerprint
  | NotIdAddr bytes
  | PeerId bytes
  | PeerAddr bytes
  | NotContiguous nat nat
  | NoAllowedClient
  | InvalidAllowedClient
  | ReadingPasswordFile bytes
  | NoSocketPath
  | UnknownBackend bytes
  | BackendAddress bytes
  | RingLength nat nat

datatype delivery_mode = TotalOrder | UniformTotalOrder
datatype delivery_mode_arg = UtoArg | ToArg

definition mode_of_arg :: "delivery_mode_arg \<Rightarrow> delivery_mode" where
  "mode_of_arg m = (case m of UtoArg \<Rightarrow> UniformTotalOrder | ToArg \<Rightarrow> TotalOrder)"

record 'a cli =
  cli_id :: proc_id
  cli_listen :: 'a
  cli_successor :: 'a
  cli_resp_listen :: 'a
  cli_identity :: bytes
  cli_peer_fp :: bytes
  cli_issue_initial :: bool
  cli_delivery_mode :: delivery_mode_arg
  cli_peer_addr :: "bytes list"
  cli_client_identity :: "bytes option"
  cli_allowed_client_spki :: "bytes list"
  cli_no_client_tls :: bool
  cli_backend :: bytes
  cli_backend_password :: "bytes option"
  cli_backend_password_file :: "bytes option"
  cli_snapshot_listen :: "'a option"
  cli_rejoin_from :: "'a list"
  cli_rejoin_poll_ms :: u64
  cli_rejoin_promote :: bool

subsection \<open>Lists of texts\<close>

fun collect_results :: "('e + 'b) list \<Rightarrow> 'e + 'b list" where
  "collect_results [] = Inr []"
| "collect_results (x # xs) =
     (case x of Inl e \<Rightarrow> Inl e | Inr y \<Rightarrow> map_sum id (\<lambda>ys. y # ys) (collect_results xs))"

fun split_on :: "byte \<Rightarrow> bytes \<Rightarrow> bytes list" where
  "split_on sep [] = [[]]"
| "split_on sep (c # r) =
     (if c = sep then [] # split_on sep r
      else (case split_on sep r of [] \<Rightarrow> [[c]] | w # ws \<Rightarrow> (c # w) # ws))"

definition split_once :: "byte \<Rightarrow> bytes \<Rightarrow> (bytes \<times> bytes) option" where
  "split_once sep s =
     (if sep \<in> set s then
        Some (takeWhile (\<lambda>c. c \<noteq> sep) s, tl (dropWhile (\<lambda>c. c \<noteq> sep) s))
      else None)"

definition strip_prefix :: "bytes \<Rightarrow> bytes \<Rightarrow> bytes option" where
  "strip_prefix p s = (if take (length p) s = p then Some (drop (length p) s) else None)"

definition of_option :: "'e \<Rightarrow> 'b option \<Rightarrow> 'e + 'b" where
  "of_option e x = (case x of None \<Rightarrow> Inl e | Some y \<Rightarrow> Inr y)"

subsection \<open>The single settings\<close>

definition parse_fingerprints :: "('i, 'fp, 'a) config_ops \<Rightarrow> bytes \<Rightarrow> config_error + 'fp list" where
  "parse_fingerprints ops s =
     collect_results (map (\<lambda>t. of_option InvalidFingerprint (fp_from_hex ops t))
       (filter (\<lambda>t. t \<noteq> []) (map trim (split_on CHR '','' s))))"

definition parse_peer :: "('i, 'fp, 'a) config_ops \<Rightarrow> bytes \<Rightarrow> config_error + nat \<times> 'a" where
  "parse_peer ops e =
     (case split_once CHR ''='' e of
        None \<Rightarrow> Inl (NotIdAddr e)
      | Some (id_s, addr_s) \<Rightarrow>
          (case parse_usize (trim id_s) of
             None \<Rightarrow> Inl (PeerId e)
           | Some i \<Rightarrow>
               (case addr_from_str ops (trim addr_s) of
                  None \<Rightarrow> Inl (PeerAddr e)
                | Some a \<Rightarrow> Inr (i, a))))"

fun check_contiguous :: "nat \<Rightarrow> (nat \<times> 'a) list \<Rightarrow> config_error option" where
  "check_contiguous expected [] = None"
| "check_contiguous expected ((i, a) # ps) =
     (if i \<noteq> expected then Some (NotContiguous i expected) else check_contiguous (expected + 1) ps)"

definition parse_ring_addrs :: "('i, 'fp, 'a) config_ops \<Rightarrow> bytes list \<Rightarrow> config_error + 'a list" where
  "parse_ring_addrs ops entries =
     (if entries = [] then Inr []
      else
        (case collect_results (map (parse_peer ops) entries) of
           Inl e \<Rightarrow> Inl e
         | Inr pairs \<Rightarrow>
             (let sorted_pairs = sort_key fst pairs in
              case check_contiguous 0 sorted_pairs of
                Some e \<Rightarrow> Inl e
              | None \<Rightarrow> Inr (map snd sorted_pairs))))"

datatype 'a backend = MemBackend | RedisAddr 'a | RedisUds bytes

definition parse_backend :: "('i, 'fp, 'a) config_ops \<Rightarrow> bytes \<Rightarrow> config_error + 'a backend" where
  "parse_backend ops s =
     (if s = ''mem'' then Inr MemBackend
      else
        (case strip_prefix ''unix://'' s of
           Some path \<Rightarrow> if path = [] then Inl NoSocketPath else Inr (RedisUds path)
         | None \<Rightarrow>
             (case strip_prefix ''redis://'' s of
                None \<Rightarrow> Inl (UnknownBackend s)
              | Some addr \<Rightarrow>
                  map_sum id RedisAddr (of_option (BackendAddress addr) (addr_from_str ops addr)))))"

definition resolve_backend_password ::
  "('i, 'fp, 'a) config_ops \<Rightarrow> 'a cli \<Rightarrow> config_error + bytes option" where
  "resolve_backend_password ops c =
     (case cli_backend_password_file c of
        Some path \<Rightarrow>
          map_sum id (\<lambda>raw. Some (trim raw))
            (of_option (ReadingPasswordFile path) (read_to_string ops path))
      | None \<Rightarrow> Inr (cli_backend_password c))"

record ('i, 'fp) client_tls_config =
  ct_identity :: 'i
  ct_allowed :: "'fp list"

definition build_client_tls ::
  "('i, 'fp, 'a) config_ops \<Rightarrow> 'a cli \<Rightarrow> config_error + ('i, 'fp) client_tls_config option" where
  "build_client_tls ops c =
     (case cli_client_identity c of
        None \<Rightarrow> Inr None
      | Some path \<Rightarrow>
          (case load_identity ops path of
             None \<Rightarrow> Inl (LoadingIdentity path)
           | Some ident \<Rightarrow>
               if cli_allowed_client_spki c = [] then Inl NoAllowedClient
               else
                 map_sum id (\<lambda>fps. Some \<lparr>ct_identity = ident, ct_allowed = fps\<rparr>)
                   (collect_results (map (\<lambda>s. of_option InvalidAllowedClient (fp_from_hex ops (trim s)))
                     (cli_allowed_client_spki c)))))"

subsection \<open>The configuration of a node\<close>

record ('i, 'fp, 'a) ring_config =
  rc_identity :: 'i
  rc_listen_addr :: 'a
  rc_successor_addr :: 'a
  rc_pinned_peers :: "'fp list"

record ('i, 'fp, 'a) snapshot_server_cfg =
  ss_listen :: 'a
  ss_identity :: 'i
  ss_allowed_fetchers :: "'fp list"

record ('i, 'fp, 'a) rejoin_settings = "'a rejoin_cfg" +
  rj_fetch_identity :: 'i
  rj_survivor_fingerprints :: "'fp list"
  rj_poll_ms :: u64

record ('i, 'fp, 'a) proxy_config =
  pc_id :: proc_id
  pc_mode :: delivery_mode
  pc_issue_initial :: bool
  pc_resp_listen :: 'a
  pc_client_tls :: "('i, 'fp) client_tls_config option"
  pc_ring :: "('i, 'fp, 'a) ring_config"
  pc_ring_addrs :: "'a list"
  pc_snapshot_server :: "('i, 'fp, 'a) snapshot_server_cfg option"
  pc_rejoin :: "('i, 'fp, 'a) rejoin_settings option"

text \<open>\<open>main\<close> up to the choice of the backend, which also needs the password.\<close>

definition main_config ::
  "('i, 'fp, 'a) config_ops \<Rightarrow> 'a cli
     \<Rightarrow> config_error + ('i, 'fp, 'a) proxy_config \<times> bytes option \<times> 'a backend" where
  "main_config ops c =
     (case load_identity ops (cli_identity c) of
        None \<Rightarrow> Inl (LoadingIdentity (cli_identity c))
      | Some ident \<Rightarrow>
     (case parse_fingerprints ops (cli_peer_fp c) of
        Inl e \<Rightarrow> Inl e
      | Inr pinned \<Rightarrow>
     (case parse_ring_addrs ops (cli_peer_addr c) of
        Inl e \<Rightarrow> Inl e
      | Inr ring_addrs \<Rightarrow>
     (case build_client_tls ops c of
        Inl e \<Rightarrow> Inl e
      | Inr client_tls \<Rightarrow>
     (let cfg =
        \<lparr>pc_id = cli_id c, pc_mode = mode_of_arg (cli_delivery_mode c),
         pc_issue_initial = cli_issue_initial c, pc_resp_listen = cli_resp_listen c,
         pc_client_tls = client_tls,
         pc_ring = \<lparr>rc_identity = ident, rc_listen_addr = cli_listen c,
                    rc_successor_addr = cli_successor c, rc_pinned_peers = pinned\<rparr>,
         pc_ring_addrs = ring_addrs,
         pc_snapshot_server =
           map_option (\<lambda>l. \<lparr>ss_listen = l, ss_identity = ident, ss_allowed_fetchers = pinned\<rparr>)
             (cli_snapshot_listen c),
         pc_rejoin =
           (if cli_rejoin_from c = [] then None
            else Some \<lparr>rj_survivor_addrs = cli_rejoin_from c, rj_promote = cli_rejoin_promote c,
                       rj_fetch_identity = ident, rj_survivor_fingerprints = pinned,
                       rj_poll_ms = cli_rejoin_poll_ms c\<rparr>)\<rparr> in
      case resolve_backend_password ops c of
        Inl e \<Rightarrow> Inl e
      | Inr pw \<Rightarrow>
          (case parse_backend ops (cli_backend c) of
             Inl e \<Rightarrow> Inl e
           | Inr be \<Rightarrow> Inr (cfg, pw, be)))))))"

text \<open>
  What \<open>run_proxy_node\<close> starts: nothing when the topology has the wrong length, a standby, or a
  ring member with or without a state-transfer server. A standby serves no transfers, also when
  a server is configured.
\<close>

datatype ('i, 'fp, 'a) node_role =
    StandbyNode "('i, 'fp, 'a) rejoin_settings" "'a driver_cfg"
  | RingMember "'a driver_cfg" "('i, 'fp, 'a) snapshot_server_cfg option"

definition node_role_of ::
  "nat \<Rightarrow> ('i, 'fp, 'a) proxy_config \<Rightarrow> config_error + ('i, 'fp, 'a) node_role" where
  "node_role_of ring_size cfg =
     (if pc_ring_addrs cfg \<noteq> [] \<and> length (pc_ring_addrs cfg) \<noteq> ring_size
      then Inl (RingLength (length (pc_ring_addrs cfg)) ring_size)
      else
        (case pc_rejoin cfg of
           Some rejoin \<Rightarrow>
             Inr (StandbyNode rejoin
               \<lparr>cfg_id = pc_id cfg, cfg_issue_initial = False, cfg_ring_addrs = pc_ring_addrs cfg\<rparr>)
         | None \<Rightarrow>
             Inr (RingMember
               \<lparr>cfg_id = pc_id cfg, cfg_issue_initial = pc_issue_initial cfg,
                cfg_ring_addrs = pc_ring_addrs cfg\<rparr> (pc_snapshot_server cfg))))"

subsection \<open>The ring topology\<close>

lemma collect_results_Inr:
  "collect_results xs = Inr ys \<longleftrightarrow> xs = map Inr ys"
proof (induction xs arbitrary: ys)
  case (Cons x xs)
  show ?case
  proof (cases x)
    case (Inl e)
    then show ?thesis by (cases ys) auto
  next
    case (Inr y)
    show ?thesis
    proof (cases "collect_results xs")
      case (Inl e)
      then have "xs \<noteq> map Inr zs" for zs
        using Cons.IH [of zs] by simp
      then show ?thesis
        using Inr Inl by (cases ys) simp_all
    next
      case us: (Inr us)
      then have "xs = map Inr us"
        using Cons.IH [of us] by simp
      then show ?thesis
        using Inr us by (cases ys) (auto simp: inj_map_eq_map)
    qed
  qed
qed auto

lemma check_contiguous_None:
  "check_contiguous n ps = None \<longleftrightarrow> map fst ps = [n..<n + length ps]"
proof (induction n ps rule: check_contiguous.induct)
  case (2 n i a ps)
  then show ?case
    by (simp add: upt_conv_Cons del: upt_Suc)
qed simp

lemma sort_key_ids:
  "map fst (sort_key fst ps) = [0..<length ps] \<longleftrightarrow> mset (map fst ps) = mset [0..<length ps]"
proof
  assume "map fst (sort_key fst ps) = [0..<length ps]"
  then show "mset (map fst ps) = mset [0..<length ps]"
    by (metis mset_map mset_sort)
next
  assume "mset (map fst ps) = mset [0..<length ps]"
  then have "sort (map fst ps) = [0..<length ps]"
    by (metis mset_sort properties_for_sort sorted_upt)
  moreover have "sort (map fst ps) = map fst (sort_key fst ps)"
    by (metis mset_map mset_sort properties_for_sort sorted_sort_key)
  ultimately show "map fst (sort_key fst ps) = [0..<length ps]" by simp
qed

text \<open>Pairs whose ids are the numbers from 0, sorted by id, are the addresses by position.\<close>

lemma sorted_positions:
  fixes pairs :: "(nat \<times> 'a) list"
  assumes "map fst (sort_key fst pairs) = [0..<length pairs]"
  shows "addrs = map snd (sort_key fst pairs) \<longleftrightarrow>
    length addrs = length pairs \<and> (\<forall>(i, a) \<in> set pairs. addrs ! i = a)"
proof -
  let ?ps = "sort_key fst pairs"
  have at: "fst (?ps ! i) = i" if "i < length pairs" for i
    using arg_cong [OF assms, of "\<lambda>xs. xs ! i"] that by simp
  have "(\<forall>(i, a) \<in> set ?ps. addrs ! i = a) \<longleftrightarrow>
      (\<forall>j < length pairs. addrs ! fst (?ps ! j) = snd (?ps ! j))"
    using all_set_conv_all_nth [of ?ps "\<lambda>p. addrs ! fst p = snd p"]
    by (simp add: case_prod_beta)
  then have "(\<forall>(i, a) \<in> set pairs. addrs ! i = a) \<longleftrightarrow> (\<forall>i < length pairs. addrs ! i = snd (?ps ! i))"
    using at by simp
  then show ?thesis
    by (auto simp: list_eq_iff_nth_eq)
qed

lemma parse_ring_addrs_Inr:
  assumes "entries \<noteq> []"
  shows "parse_ring_addrs ops entries = Inr addrs \<longleftrightarrow>
    (\<exists>pairs. map (parse_peer ops) entries = map Inr pairs
      \<and> map fst (sort_key fst pairs) = [0..<length pairs] \<and> addrs = map snd (sort_key fst pairs))"
proof (cases "collect_results (map (parse_peer ops) entries)")
  case (Inl e)
  then show ?thesis
    using assms collect_results_Inr [of "map (parse_peer ops) entries"]
    by (auto simp: parse_ring_addrs_def)
next
  case (Inr pairs)
  then have "map (parse_peer ops) entries = map Inr pairs"
    by (simp add: collect_results_Inr)
  then have only: "map (parse_peer ops) entries = map Inr ps \<longleftrightarrow> ps = pairs" for ps
    by (simp only: inj_map_eq_map [OF inj_Inr]) (rule eq_commute)
  have check: "check_contiguous 0 (sort_key fst pairs) = None \<longleftrightarrow>
      map fst (sort_key fst pairs) = [0..<length pairs]"
    using check_contiguous_None [of 0 "sort_key fst pairs"] by simp
  have "parse_ring_addrs ops entries = Inr addrs \<longleftrightarrow>
      check_contiguous 0 (sort_key fst pairs) = None \<and> addrs = map snd (sort_key fst pairs)"
    using assms Inr by (auto simp: parse_ring_addrs_def Let_def split: option.splits)
  then show ?thesis
    unfolding only check by simp
qed

text \<open>
  C39: a topology is accepted exactly when every entry reads as an id and an address and the ids
  are the numbers below the number of entries, each once, in whatever order they were given; then
  the address at position i of the topology is the one given for node i. Anything else, a gap, a
  repeated id, a bad entry, is an error.
\<close>

theorem ring_addrs_indexed:
  "parse_ring_addrs ops entries = Inr addrs \<longleftrightarrow>
     (\<exists>pairs. map (parse_peer ops) entries = map Inr pairs
        \<and> mset (map fst pairs) = mset [0..<length entries]
        \<and> length addrs = length entries \<and> (\<forall>(i, a) \<in> set pairs. addrs ! i = a))"
proof (cases "entries = []")
  case True
  then show ?thesis by (auto simp: parse_ring_addrs_def)
next
  case False
  show ?thesis
    unfolding parse_ring_addrs_Inr [OF False]
  proof (rule ex_cong1, rule conj_cong [OF refl])
    fix pairs
    assume "map (parse_peer ops) entries = map Inr pairs"
    then have n: "length entries = length pairs"
      by (metis length_map)
    show "(map fst (sort_key fst pairs) = [0..<length pairs] \<and> addrs = map snd (sort_key fst pairs))
      \<longleftrightarrow> (mset (map fst pairs) = mset [0..<length entries]
        \<and> length addrs = length entries \<and> (\<forall>(i, a) \<in> set pairs. addrs ! i = a))"
      unfolding n sort_key_ids [symmetric] by (rule conj_cong [OF refl sorted_positions])
  qed
qed

text \<open>Settings for the witness: an address is its text, and every file holds a line.\<close>

definition text_ops :: "(bytes, bytes, bytes) config_ops" where
  "text_ops =
     \<lparr>load_identity = Some, fp_from_hex = Some, addr_from_str = (\<lambda>s. if s = [] then None else Some s),
      read_to_string = (\<lambda>p. Some (p @ [LF]))\<rparr>"

lemma demo_peers:
  "map (parse_peer text_ops) [''2=c'', ''0=a'', ''1=b'']
   = map Inr [(2, ''c''), (0, ''a''), (1, ''b'')]"
proof -
  have nums: "parse_usize ''0'' = Some 0" "parse_usize ''1'' = Some 1" "parse_usize ''2'' = Some 2"
    using parse_usize_show_nat [of 0] parse_usize_show_nat [of 1] parse_usize_show_nat [of 2]
    by (simp_all add: show_nat.simps digit_def)
  have texts: "trim ''0'' = ''0''" "trim ''1'' = ''1''" "trim ''2'' = ''2''"
    "trim ''a'' = ''a''" "trim ''b'' = ''b''" "trim ''c'' = ''c''"
    by code_simp+
  show ?thesis
    by (simp add: parse_peer_def split_once_def nums texts text_ops_def)
qed

theorem ring_addrs_indexed_witness:
  "parse_ring_addrs text_ops [''2=c'', ''0=a'', ''1=b''] = Inr [''a'', ''b'', ''c'']"
proof -
  have ids: "mset (map fst [(2, ''c''), (0, ''a''), (1, ''b'')])
      = mset [0..<length [''2=c'', ''0=a'', ''1=b'']]"
    by (simp add: upt_rec)
  show ?thesis
    by (rule ring_addrs_indexed [THEN iffD2])
      (use demo_peers ids in \<open>fastforce simp: numeral_2_eq_2\<close>)
qed

end
