(* ===== verification/Target.thy ===== *)
theory Target
  imports Driver_Laws
begin

section \<open>Where the driver's transport points\<close>

text \<open>
  The successor the driver counts on and the address its transport was last pointed at
  (\<open>retarget_successor\<close> in \<open>exclude\<close> and \<open>readmit\<close> of \<open>proxy.rs\<close>): over any run of handlers either
  neither changed, or the last address is the topology's for the successor.
\<close>

fun targets :: "('t, 'm, 'a, 'w) driver_effect list \<Rightarrow> 'a list" where
  "targets [] = []"
| "targets (Retarget a # ef) = a # targets ef"
| "targets (_ # ef) = targets ef"

lemma targets_append [simp]: "targets (ef @ ef') = targets ef @ targets ef'"
  by (induction ef rule: targets.induct) simp_all

definition aims ::
  "'a list \<Rightarrow> ('c, 'd, 'v, 'st, 'w) driver_state \<Rightarrow> ('t, 'm, 'a, 'w) driver_effect list
     \<Rightarrow> ('c, 'd, 'v, 'st, 'w) driver_state \<Rightarrow> bool" where
  "aims addrs st ef st' \<longleftrightarrow>
     (if targets ef = [] then d_succ st' = d_succ st
      else index_addr addrs (d_succ st') = Some (last (targets ef)))"

lemma aims_same [intro]: "targets ef = [] \<Longrightarrow> d_succ st' = d_succ st \<Longrightarrow> aims addrs st ef st'"
  by (simp add: aims_def)

lemma aims_trans: "aims addrs st ef st1 \<Longrightarrow> aims addrs st1 ef' st2 \<Longrightarrow> aims addrs st (ef @ ef') st2"
  by (auto simp: aims_def split: if_splits)

lemma aims_from: "aims addrs s ef st' \<Longrightarrow> d_succ s = d_succ st \<Longrightarrow> aims addrs st ef st'"
  by (simp add: aims_def)

subsection \<open>Handlers that leave the transport alone\<close>

lemma pump_op_targets: "pump_op E i op st = (ef, st') \<Longrightarrow> targets ef = []"
  by (auto simp: pump_op_def Let_def split: prod.splits bool.splits option.splits if_splits)

lemma pump_payloads_targets: "pump_payloads E i ps st = (ef, st') \<Longrightarrow> targets ef = []"
  by (induction ps arbitrary: st ef) (auto split: option.splits prod.splits dest: pump_op_targets)

lemma pump_outputs_targets: "pump_outputs E i outs st = (ef, vs, st') \<Longrightarrow> targets ef = []"
  by (induction outs arbitrary: st ef vs)
    (auto split: core_output.splits prod.splits dest: pump_payloads_targets)

lemma pump_outputs_quiet:
  "pump_outputs E i outs st = (ef, vs, st') \<Longrightarrow> targets ef = [] \<and> d_succ st' = d_succ st"
  using pump_outputs_targets pump_outputs_member by blast

lemma execute_targets: "execute E as i st = (ef, st') \<Longrightarrow> targets ef = []"
proof (induction as arbitrary: st ef)
  case (Cons a as)
  then show ?case
    by (cases a) (auto split: prod.splits if_splits dest: pump_outputs_targets)
qed simp

lemma write_request_targets:
  "handle_write_request E i argv tx st = (ef, st') \<Longrightarrow> targets ef = [] \<and> d_succ st' = d_succ st"
  by (auto simp: handle_write_request_def Let_def split: write_action.splits sum.splits prod.splits
      dest!: pump_outputs_quiet)

subsection \<open>Handlers that change the membership\<close>

lemma retarget_aims: "retarget i n addrs st = Some (ef, st') \<Longrightarrow> aims addrs st ef st'"
  by (auto simp: retarget_def bind_eq_Some_conv aims_def split: if_splits)

lemma exclude_aims: "exclude E v i n addrs st = Some (ef, st') \<Longrightarrow> aims addrs st ef st'"
  by (auto simp: exclude_def split: if_splits elim!: aims_from [OF retarget_aims])

lemma readmit_aims: "readmit E v i n addrs st = Some (ef, st') \<Longrightarrow> aims addrs st ef st'"
  by (auto simp: readmit_def split: if_splits elim!: aims_from [OF retarget_aims])

lemma execute_aims: "execute E as i st = (ef, st') \<Longrightarrow> aims addrs st ef st'"
  using execute_targets execute_member by (blast intro: aims_same)

lemma recovery_tail_aims:
  fixes ef :: "('t, 'm, 'a, 'w) driver_effect list"
  assumes "(case core_recovery_report (e_core E) (d_core st1) of (report, core') \<Rightarrow>
      (case g report of (acts, vc') \<Rightarrow>
        (case execute E acts i (st1\<lparr>d_core := core', d_vc := vc'\<rparr>) of
           (ef', st2) \<Rightarrow> Some (ef1 @ ef', st2)))) = Some (ef, st')"
    and "aims addrs st ef1 st1"
  shows "aims addrs st ef st'"
proof -
  obtain report core' where r: "core_recovery_report (e_core E) (d_core st1) = (report, core')"
    by fastforce
  obtain acts vc' where g: "g report = (acts, vc')" by fastforce
  obtain ef2 :: "('t, 'm, 'a, 'w) driver_effect list" and st2 where
    x: "execute E acts i (st1\<lparr>d_core := core', d_vc := vc'\<rparr>) = (ef2, st2)" by fastforce
  have "aims addrs st1 ef2 st2"
    by (rule aims_from [OF execute_aims [OF x]]) simp
  from aims_trans [OF assms(2) this] show ?thesis
    using assms(1) r g x by simp
qed

lemma crash_confirmed_aims:
  fixes ef :: "('t, 'm, 'a, 'w) driver_effect list"
  assumes "handle_crash_confirmed E confirmed i n addrs st = Some (ef, st')"
  shows "aims addrs st ef st'"
proof -
  obtain ef1 :: "('t, 'm, 'a, 'w) driver_effect list" and st1 where
    x: "exclude E (unat confirmed) i n addrs st = Some (ef1, st1)"
    using assms by (auto simp: handle_crash_confirmed_def bind_eq_Some_conv)
  show ?thesis
    by (rule recovery_tail_aims [OF _ exclude_aims [OF x]])
      (rule assms [unfolded handle_crash_confirmed_def x, simplified])
qed

lemma handle_vc_aims:
  fixes ef :: "('t, 'm, 'a, 'w) driver_effect list"
  assumes "handle_vc E msg i n addrs st = Some (ef, st')"
  shows "aims addrs st ef st'"
proof (cases "msg_rejoiner (e_vc E) msg")
  case (Some r)
  obtain ef1 :: "('t, 'm, 'a, 'w) driver_effect list" and st1 where
    x: "readmit E (unat r) i n addrs st = Some (ef1, st1)"
    using assms Some by (auto simp: handle_vc_def bind_eq_Some_conv)
  show ?thesis
    by (rule recovery_tail_aims [OF _ readmit_aims [OF x]])
      (rule assms [unfolded handle_vc_def Some option.case x bind.bind_lunit prod.case])
next
  case None
  show ?thesis
  proof (cases "msg_victim (e_vc E) msg")
    case (Some v)
    obtain ef1 :: "('t, 'm, 'a, 'w) driver_effect list" and st1 where
      x: "exclude E (unat v) i n addrs st = Some (ef1, st1)"
      using assms None Some by (auto simp: handle_vc_def bind_eq_Some_conv)
    show ?thesis
      by (rule recovery_tail_aims [OF _ exclude_aims [OF x]])
        (rule assms [unfolded handle_vc_def None Some option.case x bind.bind_lunit prod.case])
  qed (use assms None in \<open>auto simp: handle_vc_def\<close>)
qed

lemma process_hints_aims:
  fixes ef :: "('t, 'm, 'a, 'w) driver_effect list"
  shows "process_hints E vs i n rc addrs st = Some (ef, st') \<Longrightarrow> aims addrs st ef st'"
proof (induction vs arbitrary: st ef)
  case (Cons v vs)
  obtain c det' where h: "det_gap_hint (e_det E) v (d_detector st) = (c, det')" by fastforce
  show ?case
  proof (cases "det_is_confirmed (e_det E) v (d_detector st)")
    case False
    show ?thesis
    proof (cases c)
      case None
      with Cons.prems h False show ?thesis by (auto dest!: Cons.IH elim!: aims_from)
    next
      case (Some confirmed)
      let ?st = "st\<lparr>d_detector := det'\<rparr>"
      obtain ef1 :: "('t, 'm, 'a, 'w) driver_effect list" and st1 ef2 where
        one: "(if rc then handle_crash_confirmed E confirmed i n addrs ?st
               else Some ([], ?st\<lparr>d_core := core_confirm_crash (e_core E) confirmed (d_core st)\<rparr>))
              = Some (ef1, st1)"
        and rest: "process_hints E vs i n rc addrs st1 = Some (ef2, st')" "ef = ef1 @ ef2"
        using Cons.prems h False Some by (auto simp: bind_eq_Some_conv split: if_splits)
      have "aims addrs ?st ef1 st1"
        using one crash_confirmed_aims by (fastforce split: if_splits)
      from aims_trans [OF aims_from [OF this] Cons.IH [OF rest(1)]] rest(2) show ?thesis by simp
    qed
  qed (use Cons in simp)
qed auto

lemma core_turn_aims:
  assumes "core_turn E cfg inp st = Some (ef, st')"
  shows "aims (cfg_ring_addrs cfg) st ef st'"
  using assms
  by (auto simp: core_turn_def bind_eq_Some_conv split: prod.splits
      dest!: process_hints_aims pump_outputs_quiet intro!: aims_trans [OF aims_same] elim!: aims_from)

subsection \<open>The loop\<close>

lemma driver_step_aims:
  assumes "driver_step E cfg ev st = Some (ef, st', b)"
  shows "aims (cfg_ring_addrs cfg) st ef st'"
  using assms
  by (cases ev)
    (auto simp: driver_step_def Let_def split: if_splits option.splits prod.splits
      dest!: write_request_targets core_turn_aims handle_vc_aims crash_confirmed_aims elim!: aims_from)

lemma driver_run_aims:
  "driver_run E cfg evs st = Some (ef, st', b) \<Longrightarrow> aims (cfg_ring_addrs cfg) st ef st'"
proof (induction evs arbitrary: st ef)
  case (Cons ev evs)
  obtain ef1 st1 go where s: "driver_step E cfg ev st = Some (ef1, st1, go)"
    using Cons.prems by (auto split: option.splits)
  note one = driver_step_aims [OF s]
  show ?case
  proof (cases go)
    case True
    then obtain ef2 where "driver_run E cfg evs st1 = Some (ef2, st', b)" "ef = ef1 @ ef2"
      using Cons.prems s by (auto split: option.splits)
    then show ?thesis using aims_trans [OF one Cons.IH] by simp
  qed (use Cons.prems s one in simp)
qed auto

text \<open>
  Before the loop nothing is retargeted. A promoted driver counts on the nearest node its seed does
  not exclude, and its transport still points where the configuration said.
\<close>

lemma driver_init_targets: "driver_init E cfg core store promote = Some (ef, st) \<Longrightarrow> targets ef = []"
proof (cases promote)
  case (Some seed)
  moreover assume "driver_init E cfg core store promote = Some (ef, st)"
  ultimately obtain st1 where "request_readmission E (cfg_id cfg) st1 = (ef, st)"
    by (auto simp: driver_init_def bind_eq_Some_conv split: if_splits)
  then show ?thesis
    by (auto simp: request_readmission_def split: prod.splits dest: execute_targets)
qed (auto simp: driver_init_def Let_def split: if_splits prod.splits)

lemma promoted_not_retargeted:
  assumes "driver_init E cfg core store (Some seed) = Some (ef, st)"
  shows "targets ef = [] \<and> next_alive (unat (cfg_id cfg)) (ring_n E cfg) (d_dead st) = Some (d_succ st)"
proof -
  obtain st1 where s: "adopt_seed E cfg seed (driver_new E cfg core store) = Some st1"
    "request_readmission E (cfg_id cfg) st1 = (ef, st)"
    using assms by (auto simp: driver_init_def bind_eq_Some_conv split: if_splits)
  have "d_dead st = d_dead st1 \<and> d_succ st = d_succ st1"
    using s(2) by (auto simp: request_readmission_def split: prod.splits dest!: execute_member)
  moreover have "next_alive (unat (cfg_id cfg)) (ring_n E cfg) (d_dead st1) = Some (d_succ st1)"
    using s(1) by (auto simp: adopt_seed_def Let_def bind_eq_Some_conv)
  ultimately show ?thesis
    using driver_init_targets [OF assms] by simp
qed

end
