(* ===== verification/Node.thy ===== *)
theory Node
  imports Config Conn_Gate Backend Driver_Claims Target
begin

section \<open>A node from its command line to its tasks\<close>

text \<open>
  The start-up path: \<open>main\<close> of \<open>main.rs\<close> opens the engine and calls \<open>run_proxy_node\<close> of
  \<open>proxy.rs\<close>, which checks the topology, builds the client acceptor, binds the client port and
  starts the tasks. The host answers whether a TLS acceptor can be built, a port bound and the
  ring transport started. \<open>node_run\<close> is what the started tasks then do with the events they are
  given: a ring member runs the driver from a cold start, a standby runs the rejoin task.
\<close>

record ('i, 'fp, 'a) node_host =
  nh_acceptor :: "('i, 'fp) client_tls_config \<Rightarrow> bool"
  nh_bind :: "'a \<Rightarrow> 'a option"
  nh_transport :: "('i, 'fp, 'a) ring_config \<Rightarrow> bool"

datatype start_error =
    BadSettings config_error
  | BackendConnect io_error
  | ClientAcceptor
  | BindFailed
  | TransportFailed

record ('i, 'fp, 'a, 'conn, 'ip) proxy_node =
  pn_resp_addr :: 'a
  pn_tls :: bool
  pn_listener :: "('conn, 'ip) listener"
  pn_role :: "('i, 'fp, 'a) node_role"

text \<open>A standby starts no transport: it does so when it is promoted.\<close>

definition run_proxy_node ::
  "nat \<Rightarrow> ('i, 'fp, 'a) node_host \<Rightarrow> ('i, 'fp, 'a) proxy_config
     \<Rightarrow> start_error + ('i, 'fp, 'a, 'conn, 'ip) proxy_node" where
  "run_proxy_node ring_size H cfg =
     (case node_role_of ring_size cfg of
        Inl e \<Rightarrow> Inl (BadSettings e)
      | Inr role \<Rightarrow>
          if (case pc_client_tls cfg of Some c \<Rightarrow> \<not> nh_acceptor H c | None \<Rightarrow> False)
          then Inl ClientAcceptor
          else
            (case nh_bind H (pc_resp_listen cfg) of
               None \<Rightarrow> Inl BindFailed
             | Some resp_addr \<Rightarrow>
                 (let node = \<lparr>pn_resp_addr = resp_addr, pn_tls = (pc_client_tls cfg \<noteq> None),
                              pn_listener = listener_start MAX_CLIENT_CONNS, pn_role = role\<rparr> in
                  case role of
                    StandbyNode rejoin dcfg \<Rightarrow> Inr node
                  | RingMember dcfg server \<Rightarrow>
                      if nh_transport H (pc_ring cfg) then Inr node else Inl TransportFailed)))"

definition open_backend ::
  "'e engine_link \<Rightarrow> bytes backend \<Rightarrow> bytes option
     \<Rightarrow> (io_error + mem_store + 'e redis_backend) option" where
  "open_backend L be password =
     (case be of
        MemBackend \<Rightarrow> Some (Inr (Inl mem_new))
      | RedisAddr addr \<Rightarrow> map_option (map_sum id Inr) (connect_auth L addr password)
      | RedisUds path \<Rightarrow> map_option (map_sum id Inr) (connect_uds_auth L path password))"

definition main_start ::
  "('i, 'fp, bytes) config_ops \<Rightarrow> 'e engine_link \<Rightarrow> nat \<Rightarrow> ('i, 'fp, bytes) node_host \<Rightarrow> bytes cli
     \<Rightarrow> (start_error + ('i, 'fp, bytes, 'conn, 'ip) proxy_node \<times> (mem_store + 'e redis_backend)) option"
  where
  "main_start ops L ring_size H c =
     (case main_config ops c of
        Inl e \<Rightarrow> Some (Inl (BadSettings e))
      | Inr (cfg, password, be) \<Rightarrow>
          do {
            opened \<leftarrow> open_backend L be password;
            Some (case opened of
                    Inl e \<Rightarrow> Inl (BackendConnect e)
                  | Inr store \<Rightarrow>
                      map_sum id (\<lambda>node. (node, store)) (run_proxy_node ring_size H cfg))
          })"

definition node_run ::
  "('c, 't, 'p, 'r, 'q, 'd, 'v, 'm, 'st, 'f) env \<Rightarrow> ('a, 'n) fetcher \<Rightarrow> bool \<Rightarrow> 'c \<Rightarrow> 'st
     \<Rightarrow> ('i, 'fp, 'a, 'conn, 'ip) proxy_node \<Rightarrow> ('n, 'w) passive_event list
     \<Rightarrow> ('t, 'm, 'a, 'w) driver_event list
     \<Rightarrow> (('w \<times> reply) list \<times>
         (('t, 'm, 'a, 'w) driver_effect list, 'st standby, ('c, 'd, 'v, 'st, 'w) driver_state)
           rejoin_result) option" where
  "node_run E fetch spawn_ok core store node evs devs =
     (case pn_role node of
        StandbyNode rejoin dcfg \<Rightarrow>
          rejoin_task E dcfg fetch (rejoin_cfg.truncate rejoin) spawn_ok core store evs devs
      | RingMember dcfg server \<Rightarrow>
          do {
            (ef1, st) \<leftarrow> driver_init E dcfg core store None;
            (ef2, st', _) \<leftarrow> driver_run E dcfg devs st;
            Some ([], RanDriver (ef1 @ ef2) st')
          })"

subsection \<open>A configured node runs\<close>

text \<open>The driver settings that a node's role carries, whatever the role.\<close>

definition role_cfg :: "('i, 'fp, 'a) node_role \<Rightarrow> 'a driver_cfg" where
  "role_cfg role = (case role of StandbyNode rejoin dcfg \<Rightarrow> dcfg | RingMember dcfg server \<Rightarrow> dcfg)"

lemma node_role_of_Inr:
  assumes "node_role_of n cfg = Inr role"
  shows "cfg_id (role_cfg role) = pc_id cfg" "cfg_ring_addrs (role_cfg role) = pc_ring_addrs cfg"
    "pc_ring_addrs cfg = [] \<or> length (pc_ring_addrs cfg) = n"
  using assms by (auto simp: node_role_of_def role_cfg_def split: if_splits option.splits)

lemma run_proxy_node_Inr:
  "run_proxy_node n H cfg = Inr node \<Longrightarrow> node_role_of n cfg = Inr (pn_role node)"
  by (auto simp: run_proxy_node_def Let_def
      split: sum.splits if_splits option.splits node_role.splits)

lemma main_config_Inr:
  assumes "main_config ops c = Inr (cfg, password, be)"
  shows "pc_id cfg = cli_id c" "parse_ring_addrs ops (cli_peer_addr c) = Inr (pc_ring_addrs cfg)"
  using assms by (auto simp: main_config_def Let_def split: option.splits sum.splits)

lemma map_sum_Inr: "map_sum f g x = Inr y \<longleftrightarrow> (\<exists>z. x = Inr z \<and> y = g z)"
  by (cases x) auto

lemma main_start_Inr:
  assumes "main_start ops L n H c = Some (Inr (node, store))"
  obtains cfg password be where "main_config ops c = Inr (cfg, password, be)"
    "run_proxy_node n H cfg = Inr node"
proof -
  obtain cfg password be where cfg: "main_config ops c = Inr (cfg, password, be)"
    using assms by (auto simp: main_start_def split: sum.splits)
  moreover obtain opened where "open_backend L be password = Some opened"
    using assms cfg by (auto simp: main_start_def bind_eq_Some_conv)
  then have "run_proxy_node n H cfg = Inr node"
    using assms cfg
    by (auto simp: main_start_def map_sum_Inr split: sum.splits)
  ultimately show ?thesis by (rule that)
qed

text \<open>
  The transport follows the successor: where it was retargeted, it points at the address that the
  topology has for the successor; until then it points where the configuration says.
\<close>

definition points_at ::
  "'a list \<Rightarrow> ('t, 'm, 'a, 'w) driver_effect list \<Rightarrow> ('c, 'd, 'v, 'st, 'w) driver_state \<Rightarrow> bool" where
  "points_at addrs ef st \<longleftrightarrow> (targets ef \<noteq> [] \<longrightarrow> index_addr addrs (d_succ st) = Some (last (targets ef)))"

lemma driver_from_start:
  fixes E :: "('c, 't, 'p, 'r, 'q, 'd, 'v, 'm, 'st, 'f) env"
    and devs :: "('t, 'm, 'a, 'w) driver_event list"
  assumes "cfg_ok E dcfg"
  obtains ef1 :: "('t, 'm, 'a, 'w) driver_effect list"
    and st :: "('c, 'd, 'v, 'st, 'w) driver_state" and ef2 st' b
  where "driver_init E dcfg core store promote = Some (ef1, st)"
    "driver_run E dcfg devs st = Some (ef2, st', b)"
    "next_alive (unat (cfg_id dcfg)) (ring_n E dcfg) (d_dead st') = Some (d_succ st')"
    "points_at (cfg_ring_addrs dcfg) (ef1 @ ef2) st'"
proof -
  obtain ef1 :: "('t, 'm, 'a, 'w) driver_effect list" and st :: "('c, 'd, 'v, 'st, 'w) driver_state"
    where i: "driver_init E dcfg core store promote = Some (ef1, st)"
      "member_ok (cfg_id dcfg) (ring_n E dcfg) st"
    using driver_init_ok [OF assms, of core store promote] by (auto simp: safe_result_iff)
  moreover obtain ef2 st' b where r: "driver_run E dcfg devs st = Some (ef2, st', b)"
    "member_ok (cfg_id dcfg) (ring_n E dcfg) st'"
    using driver_run_ok [OF assms i(2), of devs] by (auto simp: step_result_def)
  moreover have "points_at (cfg_ring_addrs dcfg) (ef1 @ ef2) st'"
    using driver_init_targets [OF i(1)] driver_run_aims [OF r(1)]
    by (auto simp: points_at_def aims_def split: if_splits)
  ultimately show ?thesis
    using that by (simp add: member_ok_def)
qed


lemma rejoin_task_runs:
  fixes E :: "('c, 't, 'p, 'r, 'q, 'd, 'v, 'm, 'st, 'f) env"
    and devs :: "('t, 'm, 'b, 'w) driver_event list"
  assumes "cfg_ok E dcfg"
  shows "\<exists>ef res. rejoin_task E dcfg fetch cfg ok core store evs devs = Some (ef, res)
    \<and> (\<forall>ef' st. res = RanDriver ef' st \<longrightarrow>
         next_alive (unat (cfg_id dcfg)) (ring_n E dcfg) (d_dead st) = Some (d_succ st)
         \<and> points_at (cfg_ring_addrs dcfg) ef' st)"
proof -
  let ?dcfg = "dcfg\<lparr>cfg_issue_initial := False\<rparr>"
  have ok': "cfg_ok E ?dcfg" and same: "cfg_id ?dcfg = cfg_id dcfg" "ring_n E ?dcfg = ring_n E dcfg"
    using assms by (simp_all add: cfg_ok_def ring_n_def reconfig_def split: if_splits)
  obtain ef x p rest
    where up: "passive_catch_up (e_wire E) (e_store E) fetch cfg evs (passive_start store) = (ef, x, p, rest)"
    using prod_cases4 by blast
  obtain ef' x' p' rest' where again: "passive_catch_up (e_wire E) (e_store E) fetch
      (cfg\<lparr>rj_promote := False\<rparr>) rest (passive_start (fst (pv_app p))) = (ef', x', p', rest')"
    using prod_cases4 by blast
  show ?thesis
  proof (cases x)
    case (Promoted seed)
    obtain ef1 :: "('t, 'm, 'b, 'w) driver_effect list" and st ef2 st' b
      where "driver_init E ?dcfg core (fst (pv_app p)) (Some seed) = Some (ef1, st)"
        "driver_run E ?dcfg devs st = Some (ef2, st', b)"
        "next_alive (unat (cfg_id ?dcfg)) (ring_n E ?dcfg) (d_dead st') = Some (d_succ st')"
        "points_at (cfg_ring_addrs ?dcfg) (ef1 @ ef2) st'"
      by (rule driver_from_start [OF ok'])
    with up again Promoted show ?thesis
      by (cases ok) (simp_all add: rejoin_task_def same)
  qed (use up in \<open>simp_all add: rejoin_task_def\<close>)
qed


text \<open>The address that the topology given on the command line names for a ring position.\<close>

lemma ring_addrs_given:
  assumes "parse_ring_addrs ops entries = Inr addrs" "i < length addrs"
  shows "\<exists>e \<in> set entries. parse_peer ops e = Inr (i, addrs ! i)"
proof -
  obtain pairs where pairs: "collect_results (map (parse_peer ops) entries) = Inr pairs"
    "check_contiguous 0 (sort_key fst pairs) = None" "addrs = map snd (sort_key fst pairs)"
    using assms by (auto simp: parse_ring_addrs_def Let_def split: if_splits sum.splits option.splits)
  then have "map fst (sort_key fst pairs) = [0..<length pairs]"
    by (simp add: check_contiguous_None)
  moreover have i: "i < length (sort_key fst pairs)"
    using assms(2) pairs(3) by simp
  ultimately have "fst (sort_key fst pairs ! i) = i"
    by (metis length_sort nth_map nth_upt plus_nat.add_0)
  then have "sort_key fst pairs ! i = (i, addrs ! i)"
    using pairs(3) i by (simp add: prod_eq_iff)
  then have "(i, addrs ! i) \<in> set pairs"
    using nth_mem [OF i] by simp
  then have "Inr (i, addrs ! i) \<in> set (map (parse_peer ops) entries)"
    using pairs(1) by (auto simp: collect_results_Inr)
  then show ?thesis by auto
qed

lemma node_run_runs:
  fixes E :: "('c, 't, 'p, 'r, 'q, 'd, 'v, 'm, 'st, 'f) env"
    and devs :: "('t, 'm, 'a, 'w) driver_event list"
  assumes "cfg_ok E (role_cfg (pn_role node))"
  shows "\<exists>ef res. node_run E fetch ok core store node evs devs = Some (ef, res)
    \<and> (\<forall>ef' st. res = RanDriver ef' st \<longrightarrow>
         next_alive (unat (cfg_id (role_cfg (pn_role node)))) (ring_n E (role_cfg (pn_role node)))
           (d_dead st) = Some (d_succ st)
         \<and> points_at (cfg_ring_addrs (role_cfg (pn_role node))) ef' st)"
proof (cases "pn_role node")
  case (StandbyNode rejoin dcfg)
  then show ?thesis
    using assms rejoin_task_runs [of E dcfg fetch "rejoin_cfg.truncate rejoin" ok core store evs devs]
    by (simp add: node_run_def role_cfg_def)
next
  case (RingMember dcfg server)
  then have dcfg: "cfg_ok E dcfg"
    using assms by (simp add: role_cfg_def)
  obtain ef1 :: "('t, 'm, 'a, 'w) driver_effect list" and st ef2 st' b
    where "driver_init E dcfg core store None = Some (ef1, st)"
      "driver_run E dcfg devs st = Some (ef2, st', b)"
      "next_alive (unat (cfg_id dcfg)) (ring_n E dcfg) (d_dead st') = Some (d_succ st')"
      "points_at (cfg_ring_addrs dcfg) (ef1 @ ef2) st'"
    by (rule driver_from_start [OF dcfg])
  then show ?thesis
    by (simp add: node_run_def role_cfg_def RingMember)
qed

text \<open>
  C21: a node that starts from a command line whose id is a ring position runs: whatever the engine,
  the role, the survivors and the events, it neither hangs nor panics in a membership change; when
  it has come to run the driver its successor is the nearest node not excluded; and once the driver
  has retargeted its transport, the address it last pointed it at is the one that the command line
  names for that very successor. Of the address before the first retarget, which is the \<open>--successor\<close>
  of the command line, it says nothing: the code compares it with nothing.
\<close>

theorem started_node_runs:
  fixes E :: "('c, 't, 'p, 'r, 'q, 'd, 'v, 'm, 'st, 'f) env"
    and devs :: "('t, 'm, bytes, 'w) driver_event list"
  assumes started: "main_start ops L (e_ring_size E) H c = Some (Inr (node, be))"
    and id: "unat (cli_id c) < e_ring_size E"
  shows "\<exists>ef res. node_run E fetch ok core store node evs devs = Some (ef, res)
    \<and> (\<forall>ef' st. res = RanDriver ef' st \<longrightarrow>
         next_alive (unat (cli_id c)) (e_ring_size E) (d_dead st) = Some (d_succ st)
         \<and> (targets ef' \<noteq> [] \<longrightarrow>
              (\<exists>e \<in> set (cli_peer_addr c). parse_peer ops e = Inr (d_succ st, last (targets ef')))))"
proof -
  obtain cfg password b where cfg: "main_config ops c = Inr (cfg, password, b)"
    and run: "run_proxy_node (e_ring_size E) H cfg = Inr node"
    by (rule main_start_Inr [OF started])
  note conf = main_config_Inr [OF cfg] and role = node_role_of_Inr [OF run_proxy_node_Inr [OF run]]
  have n: "ring_n E (role_cfg (pn_role node)) = e_ring_size E"
    using role(2,3) by (auto simp: ring_n_def reconfig_def)
  have ok: "cfg_ok E (role_cfg (pn_role node))"
    using id role(1) conf(1) n by (simp add: cfg_ok_def)
  have named: "\<exists>e \<in> set (cli_peer_addr c). parse_peer ops e = Inr (d_succ st, last (targets ef'))"
    if "points_at (pc_ring_addrs cfg) ef' st" "targets ef' \<noteq> []"
    for ef' :: "('t, 'm, bytes, 'w) driver_effect list" and st :: "('c, 'd, 'v, 'st, 'w) driver_state"
    using that ring_addrs_given [OF conf(2), of "d_succ st"]
    by (auto simp: points_at_def index_addr_def split: if_splits)
  from node_run_runs [OF ok, of fetch ok core store evs devs] show ?thesis
    unfolding n role(1) conf(1) role(2) by (meson named)
qed


subsection \<open>Witness\<close>

definition demo_cli :: "bytes cli" where
  "demo_cli =
     \<lparr>cli_id = 1, cli_listen = ''b'', cli_successor = ''c'', cli_resp_listen = ''r'',
      cli_identity = ''id'', cli_peer_fp = ''f1,f2'', cli_issue_initial = False,
      cli_delivery_mode = ToArg, cli_peer_addr = [''2=c'', ''0=a'', ''1=b''],
      cli_client_identity = None, cli_allowed_client_spki = [], cli_no_client_tls = True,
      cli_backend = ''mem'', cli_backend_password = None, cli_backend_password_file = None,
      cli_snapshot_listen = None, cli_rejoin_from = [], cli_rejoin_poll_ms = 200,
      cli_rejoin_promote = False\<rparr>"

definition demo_host :: "(bytes, bytes, bytes) node_host" where
  "demo_host = \<lparr>nh_acceptor = (\<lambda>_. True), nh_bind = Some, nh_transport = (\<lambda>_. True)\<rparr>"

definition demo_node :: "(bytes, bytes, bytes, nat, nat) proxy_node" where
  "demo_node =
     \<lparr>pn_resp_addr = ''r'', pn_tls = False, pn_listener = listener_start MAX_CLIENT_CONNS,
      pn_role = RingMember \<lparr>cfg_id = 1, cfg_issue_initial = False,
                            cfg_ring_addrs = [''a'', ''b'', ''c'']\<rparr> None\<rparr>"

definition no_link :: "unit engine_link" where
  "no_link =
     \<lparr>lk_write = (\<lambda>bs e. (Inl (IoError OtherKind ''closed''), e)),
      lk_connect = (\<lambda>k addr. Inl (IoError OtherKind ''refused''))\<rparr>"

lemma demo_topology: "parse_ring_addrs text_ops [''2=c'', ''0=a'', ''1=b''] = Inr [''a'', ''b'', ''c'']"
proof -
  have "collect_results (map (parse_peer text_ops) [''2=c'', ''0=a'', ''1=b''])
      = Inr [(2, ''c''), (0, ''a''), (1, ''b'')]"
    unfolding demo_peers by simp
  then show ?thesis
    by (simp add: parse_ring_addrs_def)
qed

lemma demo_started:
  "main_start text_ops (L :: 'e engine_link) (e_ring_size demo_env) demo_host demo_cli
   = Some (Inr (demo_node, Inl mem_new))"
proof -
  have fps: "parse_fingerprints text_ops ''f1,f2'' = Inr [''f1'', ''f2'']"
    by code_simp
  have size: "e_ring_size demo_env = 3" and ident: "load_identity text_ops = Some"
    by (simp_all add: demo_env_def text_ops_def)
  show ?thesis
    by (simp add: main_start_def main_config_def demo_cli_def fps demo_topology size ident
        build_client_tls_def resolve_backend_password_def parse_backend_def open_backend_def
        run_proxy_node_def node_role_of_def demo_host_def demo_node_def mode_of_arg_def)
qed

theorem started_node_runs_witness:
  "\<exists>ef res. node_run demo_env (\<lambda>a x net. (None, net)) True (0 :: nat) mem_new demo_node
        ([] :: (unit, nat) passive_event list) [EvConfirmCrash 2, EvTick, EvUnreachable ''a'']
      = Some (ef, res :: ((bytes, nat, bytes, nat) driver_effect list, mem_store standby,
                          (nat, nat, nat, mem_store, nat) driver_state) rejoin_result)
     \<and> (\<forall>ef' st. res = RanDriver ef' st \<longrightarrow> next_alive 1 3 (d_dead st) = Some (d_succ st))"
proof -
  have size: "e_ring_size demo_env = 3" and id: "unat (cli_id demo_cli) = 1"
    by (simp_all add: demo_env_def demo_cli_def)
  have lt: "unat (cli_id demo_cli) < e_ring_size demo_env"
    using size id by simp
  show ?thesis
    using started_node_runs [where E = demo_env and ops = text_ops and L = no_link
        and H = demo_host and c = demo_cli and node = demo_node and be = "Inl mem_new"
        and fetch = "\<lambda>a x (net :: unit). (None, net)" and ok = True and core = 0 and store = mem_new
        and evs = "[] :: (unit, nat) passive_event list"
        and devs = "[EvConfirmCrash 2, EvTick, EvUnreachable ''a'']",
        OF demo_started lt]
    unfolding size id by blast
qed

end
