(* ===== verification/Handle.thy ===== *)
theory Handle
  imports Node
begin

section \<open>The handle of a running node\<close>

text \<open>
  \<open>ProxyHandle\<close> and \<open>DriverCtrl\<close> of \<open>proxy.rs\<close> and \<open>serve\<close> of \<open>main.rs\<close>: the tasks that
  \<open>run_proxy_node\<close> spawns, the control channel to the driver, and aborting the tasks. The tasks of
  client connections are not among them: the listener spawns those, and they outlive the node.
\<close>

datatype driver_ctrl = Crash | ConfirmCrash proc_id

definition CTRL_CHANNEL_CAP :: nat where
  "CTRL_CHANNEL_CAP = 8"

datatype node_task = ListenerTask | RejoinTask | TransferTask | DriverTask

text \<open>
  \<open>ph_ctrl\<close> is what the channel holds, \<open>ph_receiver\<close> whether its receiver lives, \<open>ph_tasks\<close> the
  tasks with whether they run. The task that owns the driver owns the receiver.
\<close>

record 'a proxy_handle =
  ph_resp_addr :: 'a
  ph_ctrl :: "driver_ctrl list"
  ph_receiver :: bool
  ph_tasks :: "(node_task \<times> bool) list"

definition node_tasks :: "('i, 'fp, 'a) node_role \<Rightarrow> node_task list" where
  "node_tasks role =
     (case role of
        StandbyNode rejoin dcfg \<Rightarrow> [ListenerTask, RejoinTask]
      | RingMember dcfg None \<Rightarrow> [ListenerTask, DriverTask]
      | RingMember dcfg (Some server) \<Rightarrow> [ListenerTask, TransferTask, DriverTask])"

definition handle_new :: "('i, 'fp, 'a, 'conn, 'ip) proxy_node \<Rightarrow> 'a proxy_handle" where
  "handle_new node =
     \<lparr>ph_resp_addr = pn_resp_addr node, ph_ctrl = [], ph_receiver = True,
      ph_tasks = map (\<lambda>t. (t, True)) (node_tasks (pn_role node))\<rparr>"

text \<open>A closed channel is not an error; \<open>None\<close>: the channel is full and the call waits.\<close>

definition send_ctrl :: "driver_ctrl \<Rightarrow> 'a proxy_handle \<Rightarrow> 'a proxy_handle option" where
  "send_ctrl c h =
     (if \<not> ph_receiver h then Some h
      else if length (ph_ctrl h) < CTRL_CHANNEL_CAP then Some (h\<lparr>ph_ctrl := ph_ctrl h @ [c]\<rparr>)
      else None)"

definition crash :: "'a proxy_handle \<Rightarrow> 'a proxy_handle option" where
  "crash h = send_ctrl Crash h"

definition confirm_crash :: "proc_id \<Rightarrow> 'a proxy_handle \<Rightarrow> 'a proxy_handle option" where
  "confirm_crash victim h = send_ctrl (ConfirmCrash victim) h"

definition abort_tasks :: "'a proxy_handle \<Rightarrow> 'a proxy_handle" where
  "abort_tasks h =
     h\<lparr>ph_tasks := map (\<lambda>(t, running). (t, False)) (ph_tasks h),
       ph_ctrl := [], ph_receiver := False\<rparr>"

definition drop_handle :: "'a proxy_handle \<Rightarrow> 'a proxy_handle" where
  "drop_handle h = abort_tasks h"

text \<open>\<open>shutdown\<close> takes the handle, so the handle is dropped when it returns.\<close>

definition shutdown :: "'a proxy_handle \<Rightarrow> 'a proxy_handle" where
  "shutdown h = drop_handle (abort_tasks h)"

text \<open>\<open>serve\<close> waits for the signal; \<open>None\<close>: it does not come.\<close>

definition serve :: "bool \<Rightarrow> 'a proxy_handle \<Rightarrow> 'a proxy_handle option" where
  "serve signal h = (if signal then Some (shutdown h) else None)"

text \<open>What the driver makes of a control message, and of all that the channel holds.\<close>

definition ctrl_event :: "driver_ctrl \<Rightarrow> ('t, 'm, 'a, 'w) driver_event" where
  "ctrl_event c = (case c of Crash \<Rightarrow> EvCrash | ConfirmCrash victim \<Rightarrow> EvConfirmCrash victim)"

definition ctrl_events :: "'a proxy_handle \<Rightarrow> ('t, 'm, 'b, 'w) driver_event list" where
  "ctrl_events h = map ctrl_event (ph_ctrl h)"

subsection \<open>What the calls do\<close>

lemma shutdown_once: "shutdown h = abort_tasks h"
  by (simp add: shutdown_def drop_handle_def abort_tasks_def comp_def split_def)

lemma nothing_runs_after: "serve signal h = Some h' \<Longrightarrow> (t, running) \<in> set (ph_tasks h') \<Longrightarrow> \<not> running"
  by (auto simp: serve_def shutdown_once abort_tasks_def split: if_splits)

lemma calls_after_shutdown:
  "serve signal h = Some h' \<Longrightarrow> crash h' = Some h' \<and> confirm_crash victim h' = Some h'"
  by (auto simp: serve_def shutdown_once abort_tasks_def crash_def confirm_crash_def send_ctrl_def
      split: if_splits)

text \<open>A driver that takes a crash stops there: what is in the channel behind it is not looked at.\<close>

lemma driver_stops_at_crash:
  assumes "driver_run E cfg evs st = Some (ef, st', go)"
  shows "driver_run E cfg (evs @ EvCrash # rest) st
    = Some (if go then ef @ [AbortRing] else ef, st', False)"
  using assms
proof (induction evs arbitrary: st ef)
  case (Cons ev evs)
  obtain ef1 st1 b where s: "driver_step E cfg ev st = Some (ef1, st1, b)"
    using Cons.prems by (auto split: option.splits)
  show ?case
  proof (cases b)
    case True
    obtain ef2 where "driver_run E cfg evs st1 = Some (ef2, st', go)" "ef = ef1 @ ef2"
      using Cons.prems s True by (auto split: option.splits)
    then show ?thesis using Cons.IH s True by simp
  qed (use Cons.prems s in auto)
qed (simp add: driver_step_def Let_def)

lemma crash_is_final:
  fixes evs rest :: "('t, 'm, 'a, 'w) driver_event list"
  assumes "crash h = Some h'" "ph_receiver h" "driver_run E cfg (evs @ ctrl_events h) st = Some (ef, st', True)"
  shows "driver_run E cfg (evs @ ctrl_events h' @ rest) st = Some (ef @ [AbortRing], st', False)"
proof -
  have "(ctrl_events h' :: ('t, 'm, 'a, 'w) driver_event list) = ctrl_events h @ [EvCrash]"
    using assms(1,2) by (auto simp: crash_def send_ctrl_def ctrl_events_def ctrl_event_def split: if_splits)
  then show ?thesis
    using driver_stops_at_crash [OF assms(3), of rest] by simp
qed

text \<open>
  A standby owns the receiver without reading it: a crash has no effect as long as it is not
  promoted, and the ninth call waits.
\<close>

lemma standby_ignores_ctrl:
  assumes "pn_role node = StandbyNode rejoin dcfg"
    and "node_run E fetch ok core store node evs devs = Some (out, StayedPassive p)"
  shows "node_run E fetch ok core store node evs (ctrl_events h @ devs) = Some (out, StayedPassive p)"
  using assms
  by (auto simp: node_run_def rejoin_task_def split: passive_exit.splits prod.splits option.splits if_splits)

fun call_crash :: "nat \<Rightarrow> 'a proxy_handle \<Rightarrow> 'a proxy_handle option" where
  "call_crash 0 h = Some h"
| "call_crash (Suc k) h = (case crash h of None \<Rightarrow> None | Some h' \<Rightarrow> call_crash k h')"

lemma call_crash_room:
  "ph_receiver h \<Longrightarrow> call_crash k h \<noteq> None \<longleftrightarrow> k + length (ph_ctrl h) \<le> CTRL_CHANNEL_CAP
     \<or> k = 0"
  by (induction k arbitrary: h) (auto simp: crash_def send_ctrl_def)

lemma ninth_crash_waits: "call_crash k (handle_new node) \<noteq> None \<longleftrightarrow> k \<le> 8"
  using call_crash_room [of "handle_new node" k] by (auto simp: handle_new_def CTRL_CHANNEL_CAP_def)

end
