(* ===== verification/Front.thy ===== *)
theory Front
  imports Driver_Laws "HOL-Library.Multiset" "HOL-Library.Sublist"
begin

section \<open>The clients of a driver over a whole run\<close>

text \<open>
  What a driver does for its clients, without rings, views and trains: it decides some requests
  at once, gives the others the next request id and files them as pending, and answers a pending
  one when the write with its id is delivered and applied. \<open>front_step\<close> is that machine, with the
  replicated state, the table of waiting clients and the request counter as its state. Every
  step of the driver of \<open>proxy.rs\<close>, whatever the event, is a run of it; its invariants give the
  account of all requests and the meaning of every answer.
\<close>

named_theorems front_simps \<open>what the acts of a run ask, answer and deliver\<close>

subsection \<open>The machine\<close>

record ('st, 'w) front =
  fr_app :: "'st app"
  fr_pend :: "(u64, 'w) btree_map"
  fr_next :: u64

datatype 'w front_act =
    Refused "bytes list" 'w reply
  | Issued "bytes list" 'w write_op
  | Delivered write_op "('w \<times> reply) list"

text \<open>A reply that needs no broadcast: an immediate one, or the failure to encode.\<close>

definition at_once ::
  "('c, 't, 'p, 'r, 'q, 'd, 'v, 'm, 'st, 'f) env \<Rightarrow> 'st \<Rightarrow> bytes list \<Rightarrow> reply \<Rightarrow> bool" where
  "at_once E store argv r \<longleftrightarrow>
     write_action (e_float E) (\<lambda>c. st_query (e_store E) c store) argv = AImmediate r
     \<or> (\<exists>e. r = reply_error (''ERR failed to encode write for replication: '' @ e))"

text \<open>The envelope that a request is broadcast in, resolved against the store it found.\<close>

definition broadcast_of ::
  "('c, 't, 'p, 'r, 'q, 'd, 'v, 'm, 'st, 'f) env \<Rightarrow> 'st \<Rightarrow> bytes list \<Rightarrow> proc_id \<Rightarrow> u64 \<Rightarrow> write_op \<Rightarrow> bool" where
  "broadcast_of E store argv i rid op \<longleftrightarrow>
     (\<exists>argv' rs. write_action (e_float E) (\<lambda>c. st_query (e_store E) c store) argv = ABroadcast argv' rs
        \<and> op = envelope i rid argv' rs)"

lemma broadcast_of_id [dest]: "broadcast_of E store argv i rid op \<Longrightarrow> op_id op = (i, rid)"
  by (auto simp: broadcast_of_def op_id_def)

inductive front_step ::
  "('c, 't, 'p, 'r, 'q, 'd, 'v, 'm, 'st, 'f) env \<Rightarrow> proc_id \<Rightarrow> ('st, 'w) front \<Rightarrow> 'w front_act
     \<Rightarrow> ('st, 'w) front \<Rightarrow> bool" for E i where
  refuse: "at_once E (fst (fr_app f)) argv r \<Longrightarrow> front_step E i f (Refused argv w r) f"
| issue: "broadcast_of E (fst (fr_app f)) argv i (fr_next f) op \<Longrightarrow> front_step E i f (Issued argv w op)
            (f\<lparr>fr_pend := bt_insert (fr_next f) w (fr_pend f), fr_next := fr_next f + 1\<rparr>)"
| silent: "apply_delivered_op_parts (e_store E) op st d l = (res, a) \<Longrightarrow> fr_app f = (st, d, l)
     \<Longrightarrow> res = None \<or> origin op \<noteq> i \<or> bt_get (fr_pend f) (request_id op) = None
     \<Longrightarrow> front_step E i f (Delivered op []) (f\<lparr>fr_app := a\<rparr>)"
| answer: "apply_delivered_op_parts (e_store E) op st d l = (Some r, a) \<Longrightarrow> fr_app f = (st, d, l)
     \<Longrightarrow> origin op = i \<Longrightarrow> bt_get (fr_pend f) (request_id op) = Some w
     \<Longrightarrow> front_step E i f (Delivered op [(w, r)])
          (f\<lparr>fr_app := a, fr_pend := bt_remove (request_id op) (fr_pend f)\<rparr>)"

inductive_cases front_step_cases:
  "front_step E i f (Refused argv w r) f'"
  "front_step E i f (Issued argv w op) f'"
  "front_step E i f (Delivered op ans) f'"

inductive front_run ::
  "('c, 't, 'p, 'r, 'q, 'd, 'v, 'm, 'st, 'f) env \<Rightarrow> proc_id \<Rightarrow> ('st, 'w) front \<Rightarrow> 'w front_act list
     \<Rightarrow> ('st, 'w) front \<Rightarrow> bool" for E i where
  stop: "front_run E i f [] f"
| more: "front_step E i f act f1 \<Longrightarrow> front_run E i f1 acts f2 \<Longrightarrow> front_run E i f (act # acts) f2"

inductive_simps front_run_Nil [front_simps]: "front_run E i f [] f'"
inductive_simps front_run_Cons [front_simps]: "front_run E i f (act # acts) f'"

lemma front_run_append [front_simps]:
  "front_run E i f (as @ bs) f' \<longleftrightarrow> (\<exists>f1. front_run E i f as f1 \<and> front_run E i f1 bs f')"
  by (induction as arbitrary: f) (auto simp: front_run_Nil front_run_Cons)

text \<open>The projections of a list of acts.\<close>

fun asked :: "'w front_act list \<Rightarrow> (bytes list \<times> 'w) list" where
  "asked [] = []"
| "asked (Refused argv w r # acts) = (argv, w) # asked acts"
| "asked (Issued argv w op # acts) = (argv, w) # asked acts"
| "asked (Delivered op ans # acts) = asked acts"

fun answered :: "'w front_act list \<Rightarrow> ('w \<times> reply) list" where
  "answered [] = []"
| "answered (Refused argv w r # acts) = (w, r) # answered acts"
| "answered (Issued argv w op # acts) = answered acts"
| "answered (Delivered op ans # acts) = ans @ answered acts"

fun ops_of :: "'w front_act list \<Rightarrow> write_op list" where
  "ops_of [] = []"
| "ops_of (Delivered op ans # acts) = op # ops_of acts"
| "ops_of (_ # acts) = ops_of acts"

lemma projections_append [front_simps]:
  "asked (as @ bs) = asked as @ asked bs" "answered (as @ bs) = answered as @ answered bs"
  "ops_of (as @ bs) = ops_of as @ ops_of bs"
  by (induction as rule: asked.induct) simp_all

subsection \<open>Its invariants\<close>

definition pend_ok :: "('st, 'w) front \<Rightarrow> bool" where
  "pend_ok f \<longleftrightarrow> bt_ok (fr_pend f) \<and> (\<forall>rid. bt_get (fr_pend f) rid \<noteq> None \<longrightarrow> rid < fr_next f)"

lemma front_app_step:
  "front_step E i f act f' \<Longrightarrow> fr_app f' = app_run (e_store E) (ops_of [act]) (fr_app f)"
  by (cases rule: front_step.cases) (auto simp: app_step_def)

lemma front_app_run:
  "front_run E i f acts f' \<Longrightarrow> fr_app f' = app_run (e_store E) (ops_of acts) (fr_app f)"
proof (induction rule: front_run.induct)
  case (more f act f1 acts f2)
  then show ?case
    using front_app_step [OF more.hyps(1)] by (cases act) simp_all
qed simp


lemma mset_bt_insert:
  assumes "bt_get m k = None"
  shows "image_mset snd (mset (bt_insert k v m)) = add_mset v (image_mset snd (mset m))"
proof -
  have "fst e < k \<longleftrightarrow> \<not> k < fst e" if "e \<in> set m" for e
    using assms that by (force simp: bt_get_def map_of_eq_None_iff)
  then have below: "filter (\<lambda>e. fst e < k) m = filter (\<lambda>e. \<not> k < fst e) m"
    by (intro filter_cong) auto
  have "mset m = filter_mset (\<lambda>e. \<not> k < fst e) (mset m) + filter_mset (\<lambda>e. k < fst e) (mset m)"
    by (metis multiset_partition union_commute)
  then have "image_mset snd (mset m) = image_mset snd (mset (filter (\<lambda>e. \<not> k < fst e) m))
      + image_mset snd (mset (filter (\<lambda>e. k < fst e) m))"
    by (metis image_mset_union mset_filter)
  then show ?thesis
    by (simp add: bt_insert_def below)
qed

lemma mset_bt_remove:
  assumes "bt_ok m" "bt_get m k = Some v"
  shows "image_mset snd (mset m) = add_mset v (image_mset snd (mset (bt_remove k m)))"
proof -
  have "bt_insert k v (bt_remove k m) = m"
    using btm.ins_del [OF assms(1)] btm.ins_same [OF assms] by metis
  then show ?thesis
    using mset_bt_insert [of "bt_remove k m" k v] by simp
qed

lemma next_id:
  fixes n :: u64
  assumes "n < - 1"
  shows "n < n + 1" "unat (n + 1) = unat n + 1"
proof -
  have "n + 1 \<noteq> 0"
    using assms by (metis add_eq_0_iff2 order_less_irrefl)
  then show *: "unat (n + 1) = unat n + 1"
    using unatSuc [of n] by (simp add: add.commute)
  then show "n < n + 1"
    by (simp add: word_less_nat_alt)
qed

lemma pend_ok_step:
  assumes "front_step E i f act f'" "pend_ok f" "fr_next f < - 1"
  shows "pend_ok f' \<and> fr_next f \<le> fr_next f'
    \<and> unat (fr_next f') = unat (fr_next f) + (case act of Issued _ _ _ \<Rightarrow> 1 | _ \<Rightarrow> 0)
    \<and> mset (map snd (fr_pend f)) + mset (map snd (asked [act]))
      = mset (map fst (answered [act])) + mset (map snd (fr_pend f'))"
  using assms(1)
proof (cases rule: front_step.cases)
  case (issue argv op w)
  have next_rid: "fr_next f < fr_next f + 1" "unat (fr_next f + 1) = unat (fr_next f) + 1"
    using next_id [OF assms(3)] by simp_all
  then have "bt_get (fr_pend f) (fr_next f) = None"
    using assms(2) by (auto simp: pend_ok_def)
  then show ?thesis
    using assms(2) issue next_rid
    by (auto simp: pend_ok_def mset_bt_insert less_imp_le dest: order_less_trans)
next
  case (answer op st d l r a w)
  then show ?thesis
    using assms(2) mset_bt_remove [of "fr_pend f" "request_id op" w]
    by (auto simp: pend_ok_def)
qed (use assms(2) in \<open>auto simp: pend_ok_def\<close>)


text \<open>Every request is answered once or still waiting, as long as the counter does not wrap.\<close>

definition waiting :: "('st, 'w) front \<Rightarrow> 'w multiset" where
  "waiting f = mset (map snd (fr_pend f))"

lemma front_run_account:
  assumes "front_run E i f acts f'" "pend_ok f" "unat (fr_next f) + length (asked acts) < 2 ^ 64"
  shows "pend_ok f' \<and> waiting f + mset (map snd (asked acts)) = mset (map fst (answered acts)) + waiting f'"
  using assms
proof (induction rule: front_run.induct)
  case (more f act f1 acts f2)
  show ?case
  proof (cases act)
    case (Issued argv w op)
    then have "fr_next f < - 1"
      using more.prems(2) by (simp add: word_less_nat_alt unsigned_minus_1_eq_mask mask_eq_exp_minus_1)
    from pend_ok_step [OF more.hyps(1) more.prems(1) this]
    have f1: "pend_ok f1" "unat (fr_next f1) = Suc (unat (fr_next f))"
      "waiting f1 = add_mset w (waiting f)"
      by (simp_all add: Issued waiting_def)
    have "unat (fr_next f1) + length (asked acts) < 2 ^ 64"
      using more.prems(2) f1(2) Issued by simp
    from more.IH [OF f1(1) this] show ?thesis
      by (simp add: Issued f1(3))
  next
    case (Refused argv w r)
    then have "f1 = f" using more.hyps(1) by (auto elim: front_step_cases)
    with more Refused show ?thesis by simp
  next
    case (Delivered op ans)
    have f1: "pend_ok f1" "fr_next f1 = fr_next f" "waiting f = mset (map fst ans) + waiting f1"
      using more.hyps(1) more.prems(1) unfolding Delivered
      by (auto elim!: front_step_cases simp: pend_ok_def waiting_def mset_bt_remove split: if_splits)
    with more Delivered show ?thesis by simp
  qed
qed simp

text \<open>The meaning of an answer.\<close>

definition applied_reply ::
  "'st store_ops \<Rightarrow> write_op \<Rightarrow> 'st app \<Rightarrow> reply option" where
  "applied_reply S op a = fst (apply_delivered_op_parts S op (fst a) (fst (snd a)) (snd (snd a)))"

lemma front_step_answer:
  assumes "front_step E i f act f'" "(w, r) \<in> set (answered [act])"
  shows "(\<exists>argv. act = Refused argv w r \<and> at_once E (fst (fr_app f)) argv r)
    \<or> (\<exists>op. act = Delivered op [(w, r)] \<and> origin op = i \<and> applied_reply (e_store E) op (fr_app f) = Some r
         \<and> bt_get (fr_pend f) (request_id op) = Some w)"
  using assms by (cases rule: front_step.cases) (auto simp: applied_reply_def)

lemma front_run_split:
  "front_run E i f (as @ act # bs) f' \<longleftrightarrow>
     (\<exists>f1 f2. front_run E i f as f1 \<and> front_step E i f1 act f2 \<and> front_run E i f2 bs f')"
  by (auto simp: front_run_append front_run_Cons)

text \<open>Who waits under an id is who was given it.\<close>

lemma front_step_pend:
  assumes "front_step E i f act f'" "bt_get (fr_pend f') rid = Some w"
  shows "bt_get (fr_pend f) rid = Some w \<or> (\<exists>argv op. act = Issued argv w op \<and> request_id op = rid)"
  using assms by (cases rule: front_step.cases) (auto simp: broadcast_of_def split: if_splits)

lemma front_run_pend:
  assumes "front_run E i f acts f'" "bt_get (fr_pend f') rid = Some w"
  shows "bt_get (fr_pend f) rid = Some w \<or> (\<exists>argv op. Issued argv w op \<in> set acts \<and> request_id op = rid)"
  using assms
proof (induction rule: front_run.induct)
  case (more f act f1 acts f2)
  then show ?case using front_step_pend [OF more.hyps(1), of rid w] by auto
qed simp

text \<open>Every answer comes from one act, at a state that the acts before it lead to.\<close>

lemma answered_split:
  assumes "ans \<in> set (answered acts)"
  shows "\<exists>pre act post. acts = pre @ act # post \<and> ans \<in> set (answered [act])"
  using assms
proof (induction acts)
  case (Cons act acts)
  then consider "ans \<in> set (answered [act])" | "ans \<in> set (answered acts)" by (cases act) auto
  then show ?case
  proof cases
    case 1
    then show ?thesis by (intro exI [of _ "[]"]) auto
  next
    case 2
    from Cons.IH [OF this] show ?thesis by (metis append_Cons)
  qed
qed simp

lemma front_run_answers:
  assumes "front_run E i f acts f'" "(w, r) \<in> set (answered acts)"
  shows "(\<exists>pre argv post. acts = pre @ Refused argv w r # post
            \<and> at_once E (fst (app_run (e_store E) (ops_of pre) (fr_app f))) argv r)
    \<or> (\<exists>pre op post. acts = pre @ Delivered op [(w, r)] # post \<and> origin op = i
         \<and> applied_reply (e_store E) op (app_run (e_store E) (ops_of pre) (fr_app f)) = Some r
         \<and> (bt_get (fr_pend f) (request_id op) = Some w
            \<or> (\<exists>argv op'. Issued argv w op' \<in> set pre \<and> request_id op' = request_id op)))"
proof -
  obtain pre act post where acts: "acts = pre @ act # post" and act: "(w, r) \<in> set (answered [act])"
    using answered_split [OF assms(2)] by blast
  obtain f1 f2 where run: "front_run E i f pre f1" "front_step E i f1 act f2"
    using assms(1) unfolding acts front_run_split by blast
  note app = front_app_run [OF run(1)]
  from front_step_answer [OF run(2) act] show ?thesis
  proof (elim disjE exE conjE)
    fix argv assume "act = Refused argv w r" "at_once E (fst (fr_app f1)) argv r"
    then show ?thesis using acts app by (intro disjI1) auto
  next
    fix op assume op: "act = Delivered op [(w, r)]" "origin op = i"
      "applied_reply (e_store E) op (fr_app f1) = Some r" "bt_get (fr_pend f1) (request_id op) = Some w"
    have "bt_get (fr_pend f) (request_id op) = Some w
        \<or> (\<exists>argv op'. Issued argv w op' \<in> set pre \<and> request_id op' = request_id op)"
      by (rule front_run_pend [OF run(1) op(4)])
    moreover have "acts = pre @ Delivered op [(w, r)] # post"
      "applied_reply (e_store E) op (app_run (e_store E) (ops_of pre) (fr_app f)) = Some r"
      using acts app op by simp_all
    ultimately show ?thesis using op(2) by blast
  qed
qed

subsection \<open>Request ids\<close>

text \<open>The requests that were broadcast, in order, with their envelopes: the k-th carries the id k.\<close>

fun issued :: "'w front_act list \<Rightarrow> (bytes list \<times> 'w \<times> write_op) list" where
  "issued [] = []"
| "issued (Issued argv w op # acts) = (argv, w, op) # issued acts"
| "issued (_ # acts) = issued acts"

lemma issued_append [front_simps]: "issued (as @ bs) = issued as @ issued bs"
  by (induction as rule: issued.induct) simp_all

text \<open>Whose request an envelope carries, and the envelope.\<close>

definition requests_of :: "(bytes list \<times> 'w \<times> write_op) list \<Rightarrow> (bytes list \<times> 'w) list" where
  "requests_of sent = map (\<lambda>(argv, w, op). (argv, w)) sent"

definition sent_ops :: "(bytes list \<times> 'w \<times> write_op) list \<Rightarrow> write_op list" where
  "sent_ops sent = map (\<lambda>(argv, w, op). op) sent"

lemma sent_simps [simp]:
  "requests_of [] = []" "requests_of (x # sent) = (fst x, fst (snd x)) # requests_of sent"
  "requests_of (sent @ sent') = requests_of sent @ requests_of sent'"
  "sent_ops [] = []" "sent_ops (x # sent) = snd (snd x) # sent_ops sent"
  "sent_ops (sent @ sent') = sent_ops sent @ sent_ops sent'"
  "length (sent_ops sent) = length sent"
  by (simp_all add: requests_of_def sent_ops_def split: prod.splits)

lemma issued_asked: "subseq (requests_of (issued acts)) (asked acts)"
  by (induction acts rule: issued.induct) auto

lemma front_run_next:
  "front_run E i f acts f' \<Longrightarrow> fr_next f' = fr_next f + of_nat (length (issued acts))"
proof (induction rule: front_run.induct)
  case (more f act f1 acts f2)
  have "fr_next f1 = fr_next f + of_nat (length (issued [act]))"
    using more.hyps(1) by (cases rule: front_step.cases) simp_all
  with more.IH show ?case by (cases act) simp_all
qed simp

lemma front_run_issued:
  assumes "front_run E i f acts f'" "Issued argv w op \<in> set acts"
  shows "\<exists>pre post. acts = pre @ Issued argv w op # post
    \<and> broadcast_of E (fst (app_run (e_store E) (ops_of pre) (fr_app f))) argv i
        (fr_next f + of_nat (length (issued pre))) op"
proof -
  obtain pre post where acts: "acts = pre @ Issued argv w op # post"
    using assms(2) by (meson split_list)
  obtain f1 f2 where run: "front_run E i f pre f1" "front_step E i f1 (Issued argv w op) f2"
    using assms(1) unfolding acts front_run_split by blast
  have "broadcast_of E (fst (fr_app f1)) argv i (fr_next f1) op"
    using run(2) by (auto elim: front_step_cases)
  then show ?thesis
    using acts front_app_run [OF run(1)] front_run_next [OF run(1)] by auto
qed

text \<open>The k-th envelope sent carries the id k.\<close>

lemma issued_ids:
  assumes "front_run E i f acts f'"
  shows "map op_id (sent_ops (issued acts)) = map (\<lambda>k. (i, fr_next f + of_nat k)) [0 ..< length (issued acts)]"
  using assms
proof (induction rule: front_run.induct)
  case (more f act f1 acts f2)
  show ?case
  proof (cases act)
    case (Issued argv w op)
    then have "op_id op = (i, fr_next f)" "fr_next f1 = fr_next f + 1"
      using more.hyps(1) by (auto elim: front_step_cases)
    then show ?thesis
      using more.IH Issued
      by (simp add: upt_conv_Cons map_Suc_upt [symmetric] algebra_simps del: upt_Suc map_Suc_upt)
  next
    case (Refused argv w r)
    then have "fr_next f1 = fr_next f" using more.hyps(1) by (auto elim: front_step_cases)
    with more.IH Refused show ?thesis by simp
  next
    case (Delivered op ans)
    then have "fr_next f1 = fr_next f" using more.hyps(1) by (auto elim: front_step_cases)
    with more.IH Delivered show ?thesis by simp
  qed
qed simp

text \<open>
  A reply to the client \<open>w\<close>, as the history \<open>ops\<close> of delivered writes explains it: decided at once
  on a store the history passed through, or given for the write whose id the envelope of the
  request carries, which was resolved and sent before that write came.
\<close>

definition explained ::
  "('c, 't, 'p, 'r, 'q, 'd, 'v, 'm, 'st, 'f) env \<Rightarrow> proc_id \<Rightarrow> 'st app \<Rightarrow> write_op list
     \<Rightarrow> (bytes list \<times> 'w) list \<Rightarrow> (bytes list \<times> 'w \<times> write_op) list \<Rightarrow> 'w \<times> reply \<Rightarrow> bool" where
  "explained E i a0 ops requests sent ans \<longleftrightarrow>
     (case ans of (w, r) \<Rightarrow>
        (\<exists>past later argv. ops = past @ later \<and> (argv, w) \<in> set requests
           \<and> at_once E (fst (app_run (e_store E) past a0)) argv r)
        \<or> (\<exists>before between op later k argv op'. ops = before @ between @ op # later
           \<and> k < length sent \<and> sent ! k = (argv, w, op')
           \<and> broadcast_of E (fst (app_run (e_store E) before a0)) argv i (of_nat k) op'
           \<and> op_id op = (i, of_nat k)
           \<and> applied_reply (e_store E) op (app_run (e_store E) (before @ between) a0) = Some r))"

lemma asked_Refused: "Refused argv w r \<in> set acts \<Longrightarrow> (argv, w) \<in> set (asked acts)"
  by (induction acts rule: asked.induct) auto

lemma front_run_explained:
  assumes "front_run E i f acts f'" "fr_pend f = []" "fr_next f = 0" "ans \<in> set (answered acts)"
  shows "explained E i (fr_app f) (ops_of acts) (asked acts) (issued acts) ans"
proof -
  obtain w r where ans: "ans = (w, r)" by fastforce
  have "(w, r) \<in> set (answered acts)" using assms(4) ans by simp
  from front_run_answers [OF assms(1) this] show ?thesis
  proof (elim disjE exE conjE)
    fix pre argv post
    assume "acts = pre @ Refused argv w r # post"
      "at_once E (fst (app_run (e_store E) (ops_of pre) (fr_app f))) argv r"
    then show ?thesis
      unfolding explained_def ans prod.case
      by (intro disjI1 exI [of _ "ops_of pre"] exI [of _ "ops_of post"] exI [of _ argv])
        (simp add: projections_append asked_Refused)
  next
    fix pre op post argv op'
    assume acts: "acts = pre @ Delivered op [(w, r)] # post" "origin op = i"
      and reply: "applied_reply (e_store E) op (app_run (e_store E) (ops_of pre) (fr_app f)) = Some r"
      and op': "Issued argv w op' \<in> set pre" "request_id op' = request_id op"
    obtain f1 where "front_run E i f pre f1"
      using assms(1) unfolding acts(1) front_run_split by blast
    from front_run_issued [OF this op'(1)] obtain p q where pq: "pre = p @ Issued argv w op' # q"
      "broadcast_of E (fst (app_run (e_store E) (ops_of p) (fr_app f))) argv i
         (of_nat (length (issued p))) op'"
      by (auto simp: assms(3))
    then have "op_id op = (i, of_nat (length (issued p)))"
      using broadcast_of_id [OF pq(2)] acts(2) op'(2) by (auto simp: op_id_def)
    then show ?thesis
      unfolding explained_def ans prod.case using pq reply
      by (intro disjI2 exI [of _ "ops_of p"] exI [of _ "ops_of q"] exI [of _ op]
          exI [of _ "ops_of post"] exI [of _ "length (issued p)"] exI [of _ argv] exI [of _ op'])
        (simp add: acts(1) projections_append issued_append nth_append)
  qed (use assms(2) in auto)
qed

end
