(* ===== verification/Core_History.thy ===== *)
theory Core_History
  imports Driver
begin

section \<open>The calls of the ordering core and what it has delivered\<close>

text \<open>
  A driver reaches its core only through the operations of \<open>kernel_ops\<close>. A \<open>core_path\<close> is a
  sequence of such calls with all that was given to the core to broadcast and all that it delivered
  on the way. Two functions of a core's state record it when they grow by exactly that with each
  call; \<open>recording\<close> gives any core such a record, kept beside its state.
\<close>

fun given :: "'t core_input \<Rightarrow> bytes list" where
  "given (LocalBroadcast bs) = [bs]"
| "given _ = []"

inductive core_call ::
  "('c, 't, 'p, 'r, 'q) kernel_ops \<Rightarrow> 'c \<Rightarrow> bytes list \<Rightarrow> payload list \<Rightarrow> 'c \<Rightarrow> bool" for K where
  call_step: "core_step K inp c = (outs, c') \<Longrightarrow> core_call K c (given inp) (delivered outs) c'"
| call_recovery: "core_apply_recovery K plan c = (outs, c') \<Longrightarrow> core_call K c [] (delivered outs) c'"
| call_report: "core_recovery_report K c = (report, c') \<Longrightarrow> core_call K c [] [] c'"
| call_initial: "core_issue_initial K c = (t, c') \<Longrightarrow> core_call K c [] [] c'"
| call_reissue: "core_reissue_train K c = (t, c') \<Longrightarrow> core_call K c [] [] c'"
| call_confirm: "core_call K c [] [] (core_confirm_crash K v c)"
| call_readmit: "core_call K c [] [] (core_readmit_node K v c)"
| call_freeze: "core_call K c [] [] (core_set_frozen K b c)"
| call_import: "core_call K c [] [] (core_import K p c)"

inductive core_path ::
  "('c, 't, 'p, 'r, 'q) kernel_ops \<Rightarrow> 'c \<Rightarrow> bytes list \<Rightarrow> payload list \<Rightarrow> 'c \<Rightarrow> bool" for K where
  path_end: "core_path K c [] [] c"
| path_more: "core_call K c bs ps c1 \<Longrightarrow> core_path K c1 bs' qs c2 \<Longrightarrow> core_path K c (bs @ bs') (ps @ qs) c2"

lemma path_call: "core_call K c bs ps c' \<Longrightarrow> core_path K c bs ps c'"
  using path_more [OF _ path_end] by fastforce

lemma path_trans:
  "core_path K c bs ps c1 \<Longrightarrow> core_path K c1 bs' qs c2 \<Longrightarrow> core_path K c (bs @ bs') (ps @ qs) c2"
  by (induction rule: core_path.induct) (auto intro: path_more)

text \<open>One call after a path, for the operations that are given and deliver nothing.\<close>

lemma path_snoc: "core_path K c bs ps c1 \<Longrightarrow> core_call K c1 [] [] c2 \<Longrightarrow> core_path K c bs ps c2"
  using path_trans [OF _ path_call] by fastforce

locale recorded_core =
  fixes K :: "('c, 't, 'p, 'r, 'q) kernel_ops"
    and gave :: "'c \<Rightarrow> bytes list"
    and hist :: "'c \<Rightarrow> payload list"
  assumes record_call: "core_call K c bs ps c' \<Longrightarrow> gave c' = gave c @ bs \<and> hist c' = hist c @ ps"
begin

lemma record_path: "core_path K c bs ps c' \<Longrightarrow> gave c' = gave c @ bs \<and> hist c' = hist c @ ps"
  by (induction rule: core_path.induct) (simp_all add: record_call)

lemma record_from_new:
  "core_path K c bs ps c' \<Longrightarrow> gave c = [] \<Longrightarrow> hist c = [] \<Longrightarrow> bs = gave c' \<and> ps = hist c'"
  by (simp add: record_path)

end

subsection \<open>Every core can be recorded\<close>

definition recording ::
  "('c, 't, 'p, 'r, 'q) kernel_ops \<Rightarrow> ('c \<times> bytes list \<times> payload list, 't, 'p, 'r, 'q) kernel_ops" where
  "recording K =
     \<lparr>core_step = (\<lambda>inp (c, g, h). case core_step K inp c of
         (outs, c') \<Rightarrow> (outs, (c', g @ given inp, h @ delivered outs))),
      core_export = (\<lambda>(c, _). core_export K c), core_import = (\<lambda>p (c, r). (core_import K p c, r)),
      core_issue_initial = (\<lambda>(c, r). case core_issue_initial K c of (t, c') \<Rightarrow> (t, (c', r))),
      core_confirm_crash = (\<lambda>v (c, r). (core_confirm_crash K v c, r)),
      core_readmit_node = (\<lambda>v (c, r). (core_readmit_node K v c, r)),
      core_recovery_report = (\<lambda>(c, r). case core_recovery_report K c of (rep, c') \<Rightarrow> (rep, (c', r))),
      core_apply_recovery = (\<lambda>plan (c, g, h). case core_apply_recovery K plan c of
         (outs, c') \<Rightarrow> (outs, (c', g, h @ delivered outs))),
      core_reissue_train = (\<lambda>(c, r). case core_reissue_train K c of (t, c') \<Rightarrow> (t, (c', r))),
      core_set_frozen = (\<lambda>b (c, r). (core_set_frozen K b c, r)), train_issuer = train_issuer K\<rparr>"

interpretation recorded: recorded_core "recording K" "\<lambda>s. fst (snd s)" "\<lambda>s. snd (snd s)" for K
  by unfold_locales (erule core_call.cases; auto simp: recording_def split: prod.splits)

text \<open>Recording changes no call: without the record, a path of the recorded core is one of the core.\<close>

lemma recording_call: "core_call (recording K) s bs ps s' \<Longrightarrow> core_call K (fst s) bs ps (fst s')"
  by (erule core_call.cases) (auto simp: recording_def split: prod.splits intro: core_call.intros)

lemma recording_path: "core_path (recording K) s bs ps s' \<Longrightarrow> core_path K (fst s) bs ps (fst s')"
  by (induction rule: core_path.induct) (auto intro: core_path.intros recording_call)

end
