(* ===== verification/Driver_Clients.thy ===== *)
theory Driver_Clients
  imports Front Core_History Driver_Claims
begin

section \<open>Every step of the driver is a run of its front\<close>

text \<open>
  The simulation: each handler of \<open>Driver\<close>, whatever the event, moves the front by acts that answer
  what its effects answer, ask what the event asks and deliver what its calls of the core delivered,
  in that order. So a whole life of a driver, from a cold start or a promotion, is one run of the
  front along one path of the core.
\<close>

definition front_of :: "('c, 'd, 'v, 'st, 'w) driver_state \<Rightarrow> ('st, 'w) front" where
  "front_of st = \<lparr>fr_app = d_app st, fr_pend = d_pending st, fr_next = d_next_rid st\<rparr>"

text \<open>A run that asks nothing, delivers \<open>ops\<close> and answers what the effects answer.\<close>

definition pumps ::
  "('c, 't, 'p, 'r, 'q, 'd, 'v, 'm, 'st, 'f) env \<Rightarrow> proc_id \<Rightarrow> ('c, 'd, 'v, 'st, 'w) driver_state
     \<Rightarrow> write_op list \<Rightarrow> ('t, 'm, 'a, 'w) driver_effect list
     \<Rightarrow> ('c, 'd, 'v, 'st, 'w) driver_state \<Rightarrow> bool" where
  "pumps E i st ops ef st' \<longleftrightarrow>
     (\<exists>acts. front_run E i (front_of st) acts (front_of st')
        \<and> answered acts = replies_of ef \<and> asked acts = [] \<and> ops_of acts = ops)"

text \<open>The same along calls of the core, whose deliveries are the operations.\<close>

definition drives ::
  "('c, 't, 'p, 'r, 'q, 'd, 'v, 'm, 'st, 'f) env \<Rightarrow> proc_id \<Rightarrow> ('c, 'd, 'v, 'st, 'w) driver_state
     \<Rightarrow> ('t, 'm, 'a, 'w) driver_effect list \<Rightarrow> ('c, 'd, 'v, 'st, 'w) driver_state \<Rightarrow> bool" where
  "drives E i st ef st' \<longleftrightarrow>
     (\<exists>ps. core_path (e_core E) (d_core st) [] ps (d_core st') \<and> pumps E i st (decoded (e_wire E) ps) ef st')"

lemma replies_of_other [simp]:
  "replies_of (SendVc m # ef) = replies_of ef" "replies_of (Retarget a # ef) = replies_of ef"
  "replies_of (AbortRing # ef) = replies_of ef"
  "replies_of (AnswerTransfer w snapshot tail # ef) = replies_of ef"
  by (simp_all add: replies_of_def List.map_filter_def)

lemma front_of_update [simp]:
  "front_of (st\<lparr>d_core := c\<rparr>) = front_of st" "front_of (st\<lparr>d_detector := det\<rparr>) = front_of st"
  "front_of (st\<lparr>d_vc := vc\<rparr>) = front_of st" "front_of (st\<lparr>d_dead := dead\<rparr>) = front_of st"
  "front_of (st\<lparr>d_succ := s\<rparr>) = front_of st"
  by (simp_all add: front_of_def d_app_def)

lemma pumps_same: "front_of st' = front_of st \<Longrightarrow> replies_of ef = [] \<Longrightarrow> pumps E i st [] ef st'"
  unfolding pumps_def by (rule exI [of _ "[]"]) (simp add: front_run_Nil)

lemma pumps_trans:
  assumes "pumps E i st ops ef st1" "pumps E i st1 ops' ef' st2"
  shows "pumps E i st (ops @ ops') (ef @ ef') st2"
proof -
  obtain a1 a2 where "front_run E i (front_of st) a1 (front_of st1)"
    "answered a1 = replies_of ef" "asked a1 = []" "ops_of a1 = ops"
    "front_run E i (front_of st1) a2 (front_of st2)"
    "answered a2 = replies_of ef'" "asked a2 = []" "ops_of a2 = ops'"
    using assms unfolding pumps_def by blast
  then show ?thesis
    unfolding pumps_def
    by (intro exI [of _ "a1 @ a2"]) (auto simp: front_run_append projections_append effect_filters(3))
qed

lemma drives_same:
  "front_of st' = front_of st \<Longrightarrow> replies_of ef = [] \<Longrightarrow> core_path (e_core E) (d_core st) [] [] (d_core st')
     \<Longrightarrow> drives E i st ef st'"
  unfolding drives_def by (rule exI [of _ "[]"]) (simp add: pumps_same)

lemma drives_trans:
  assumes "drives E i st ef st1" "drives E i st1 ef' st2"
  shows "drives E i st (ef @ ef') st2"
proof -
  obtain ps qs where "core_path (e_core E) (d_core st) [] ps (d_core st1)"
    "pumps E i st (decoded (e_wire E) ps) ef st1"
    "core_path (e_core E) (d_core st1) [] qs (d_core st2)"
    "pumps E i st1 (decoded (e_wire E) qs) ef' st2"
    using assms unfolding drives_def by blast
  then show ?thesis
    unfolding drives_def
    using path_trans [of "e_core E" "d_core st" "[]" ps _ "[]" qs]
    by (intro exI [of _ "ps @ qs"]) (simp add: pumps_trans)
qed

text \<open>Nothing but the front and the core matters; a silent call may come first.\<close>

lemma drives_from:
  assumes "drives E i s ef st'" "front_of s = front_of st" "core_path (e_core E) (d_core st) [] [] (d_core s)"
  shows "drives E i st ef st'"
  using assms(1) path_trans [OF assms(3)] unfolding drives_def pumps_def assms(2) by fastforce

lemma drives_quiet: "drives E i st ef st' \<Longrightarrow> replies_of ef' = replies_of ef \<Longrightarrow> drives E i st ef' st'"
  by (simp add: drives_def pumps_def)

lemma pump_op_pumps:
  fixes ef :: "('t, 'm, 'a, 'w) driver_effect list"
  assumes "pump_op E i op st = (ef, st')"
  shows "pumps E i st [op] ef st'"
proof -
  obtain res a where p:
    "apply_delivered_op_parts (e_store E) op (d_store st) (d_dedup st) (d_log st) = (res, a)"
    by (rule prod.exhaust)
  have app: "fr_app (front_of st) = (d_store st, d_dedup st, d_log st)"
    by (simp add: front_of_def d_app_def)
  have one: "pumps E i st [op] ef st'"
    if "front_step E i (front_of st) (Delivered op (replies_of ef)) (front_of st')"
    unfolding pumps_def using that
    by (intro exI [of _ "[Delivered op (replies_of ef)]"]) (simp add: front_run_Cons front_run_Nil)
  show ?thesis
  proof (cases "res = None \<or> origin op \<noteq> i \<or> bt_get (d_pending st) (request_id op) = None")
    case True
    from front_step.silent [OF p app, of i] True have
      "front_step E i (front_of st) (Delivered op []) (front_of st\<lparr>fr_app := a\<rparr>)"
      by (auto simp: front_of_def)
    moreover have "front_of st\<lparr>fr_app := a\<rparr> = front_of st'" "replies_of ef = []"
      using assms p True
      by (auto simp: pump_op_def apply_delivered_op_parts_def front_of_def d_app_def
          empty_argv_reply_def Let_def split: prod.splits bool.splits option.splits if_splits)
    ultimately show ?thesis by (intro one) simp
  next
    case False
    then obtain r w where rw: "res = Some r" "origin op = i" "bt_get (d_pending st) (request_id op) = Some w"
      by auto
    from front_step.answer [OF p [unfolded rw(1)] app rw(2), of w] rw(3) have
      "front_step E i (front_of st) (Delivered op [(w, r)])
         (front_of st\<lparr>fr_app := a, fr_pend := bt_remove (request_id op) (d_pending st)\<rparr>)"
      by (simp add: front_of_def)
    moreover have "front_of st\<lparr>fr_app := a, fr_pend := bt_remove (request_id op) (d_pending st)\<rparr>
        = front_of st'" "replies_of ef = [(w, r)]"
      using assms p rw
      by (auto simp: pump_op_def apply_delivered_op_parts_def front_of_def d_app_def
          empty_argv_reply_def Let_def split: prod.splits bool.splits option.splits if_splits)
    ultimately show ?thesis by (intro one) simp
  qed
qed

lemma pump_payloads_pumps:
  fixes ef :: "('t, 'm, 'a, 'w) driver_effect list"
  shows "pump_payloads E i ps st = (ef, st') \<Longrightarrow> pumps E i st (decoded (e_wire E) ps) ef st'"
proof (induction ps arbitrary: st ef st')
  case Nil
  then show ?case by (auto intro: pumps_same)
next
  case (Cons p ps)
  show ?case
  proof (cases "dec_op (e_wire E) (pl_data p)")
    case None
    with Cons show ?thesis by simp
  next
    case (Some op)
    obtain ef1 :: "('t, 'm, 'a, 'w) driver_effect list" and st1 where
      one: "pump_op E i op st = (ef1, st1)" by fastforce
    obtain ef2 :: "('t, 'm, 'a, 'w) driver_effect list" and st2 where
      rest: "pump_payloads E i ps st1 = (ef2, st2)" by fastforce
    have "ef = ef1 @ ef2" "st' = st2"
      using Cons.prems Some one rest by auto
    then show ?thesis
      using pumps_trans [OF pump_op_pumps [OF one] Cons.IH [OF rest]] Some by simp
  qed
qed

lemma pump_outputs_pumps:
  fixes ef :: "('t, 'm, 'a, 'w) driver_effect list"
  shows "pump_outputs E i outs st = (ef, vs, st') \<Longrightarrow> pumps E i st (decoded (e_wire E) (delivered outs)) ef st'"
proof (induction outs arbitrary: st ef vs st')
  case Nil
  then show ?case by (auto intro: pumps_same)
next
  case (Cons out outs)
  show ?case
  proof (cases out)
    case (Deliver ps)
    obtain ef1 :: "('t, 'm, 'a, 'w) driver_effect list" and st1 where
      one: "pump_payloads E i ps st = (ef1, st1)" by fastforce
    obtain ef2 :: "('t, 'm, 'a, 'w) driver_effect list" and vs2 st2 where
      rest: "pump_outputs E i outs st1 = (ef2, vs2, st2)" using prod_cases3 by blast
    have "ef = ef1 @ ef2" "st' = st2"
      using Cons.prems Deliver one rest by auto
    then show ?thesis
      using pumps_trans [OF pump_payloads_pumps [OF one] Cons.IH [OF rest]] Deliver by simp
  next
    case (ForwardTrain t)
    with Cons.prems obtain ef1 where "pump_outputs E i outs st = (ef1, vs, st')" "ef = SendTrain t # ef1"
      by (auto split: prod.splits)
    then show ?thesis using Cons.IH ForwardTrain by (simp add: pumps_def)
  next
    case (DeclareCrash v)
    with Cons.prems show ?thesis using Cons.IH by (auto split: prod.splits)
  qed
qed

lemma pump_op_core: "pump_op E i op st = (ef, st') \<Longrightarrow> d_core st' = d_core st"
  by (auto simp: pump_op_def Let_def split: prod.splits bool.splits option.splits if_splits)

lemma pump_payloads_core: "pump_payloads E i ps st = (ef, st') \<Longrightarrow> d_core st' = d_core st"
  by (induction ps arbitrary: st ef)
    (fastforce split: option.splits prod.splits dest: pump_op_core)+

lemma pump_outputs_core: "pump_outputs E i outs st = (ef, vs, st') \<Longrightarrow> d_core st' = d_core st"
proof (induction outs arbitrary: st ef vs)
  case (Cons out outs)
  show ?case
  proof (cases out)
    case (Deliver ps)
    with Cons show ?thesis
      by (fastforce split: prod.splits dest: pump_payloads_core)
  qed (use Cons in \<open>auto split: prod.splits\<close>)
qed simp

text \<open>A call of the core with its outputs pumped.\<close>

lemma call_drives:
  fixes ef :: "('t, 'm, 'a, 'w) driver_effect list"
  assumes "core_call (e_core E) (d_core st) [] (delivered outs) core'"
    and "pump_outputs E i outs (st\<lparr>d_core := core'\<rparr>) = (ef, vs, st')"
  shows "drives E i st ef st'"
  unfolding drives_def
proof (intro exI conjI)
  show "core_path (e_core E) (d_core st) [] (delivered outs) (d_core st')"
    using path_call [OF assms(1)] pump_outputs_core [OF assms(2)] by simp
  show "pumps E i st (decoded (e_wire E) (delivered outs)) ef st'"
    using pump_outputs_pumps [OF assms(2)] by (simp add: pumps_def)
qed


text \<open>Membership changes touch no client; what the recovery delivers is pumped.\<close>

lemma retarget_front:
  "retarget i n addrs st = Some (ef, st')
     \<Longrightarrow> front_of st' = front_of st \<and> replies_of ef = [] \<and> d_core st' = d_core st"
  by (auto simp: retarget_def bind_eq_Some_conv split: if_splits)

lemma path_freeze:
  "core_call K (core_set_frozen K True c) [] [] c' \<Longrightarrow> core_path K c [] [] c'"
  by (rule path_snoc [OF path_call [OF call_freeze]])

lemma exclude_drives:
  "exclude E v i n addrs st = Some (ef, st') \<Longrightarrow> drives E i st ef st'"
  by (auto simp: exclude_def intro!: drives_same path_end path_freeze call_confirm
      split: if_splits dest!: retarget_front)

lemma readmit_drives:
  "readmit E v i n addrs st = Some (ef, st') \<Longrightarrow> drives E i st ef st'"
  by (auto simp: readmit_def intro!: drives_same path_end path_freeze call_readmit
      split: if_splits dest!: retarget_front)

lemma reissue_drives:
  assumes "(if p then (case core_reissue_train (e_core E) (d_core st) of
              (t, core2) \<Rightarrow> ([SendTrain t], st\<lparr>d_core := core2\<rparr>)) else ([], st)) = (ef, st')"
  shows "drives E i st ef st'"
  using assms
  by (auto intro!: drives_same path_end path_call call_reissue split: if_splits prod.splits)

lemma execute_drives:
  fixes ef :: "('t, 'm, 'a, 'w) driver_effect list"
  shows "execute E as i st = (ef, st') \<Longrightarrow> drives E i st ef st'"
proof (induction as arbitrary: st ef st')
  case Nil
  then show ?case by (auto intro: drives_same path_end)
next
  case (Cons a as)
  show ?case
  proof (cases a)
    case (VcSend msg)
    with Cons.prems obtain ef1 where "execute E as i st = (ef1, st')" "ef = SendVc msg # ef1"
      by (auto split: prod.splits)
    then show ?thesis using drives_quiet [OF Cons.IH, of st ef1 st' ef] by simp
  next
    case (VcApply plan)
    obtain outs core1 where c1: "core_apply_recovery (e_core E) plan (d_core st) = (outs, core1)"
      by fastforce
    obtain ef1 :: "('t, 'm, 'a, 'w) driver_effect list" and vs st1 where
      p: "pump_outputs E i outs (st\<lparr>d_core := core1\<rparr>) = (ef1, vs, st1)" using prod_cases3 by blast
    obtain ef2 :: "('t, 'm, 'a, 'w) driver_effect list" and st2 where
      r: "(if unat i < e_num_trains E then
             (case core_reissue_train (e_core E) (d_core st1) of
                (t, core2) \<Rightarrow> ([SendTrain t], st1\<lparr>d_core := core2\<rparr>))
           else ([], st1)) = (ef2, st2)"
      by fastforce
    obtain ef3 :: "('t, 'm, 'a, 'w) driver_effect list" and st3 where
      x: "execute E as i st2 = (ef3, st3)" by fastforce
    from drives_trans [OF call_drives [OF call_recovery [OF c1] p]
        drives_trans [OF reissue_drives [OF r] Cons.IH [OF x]]]
    show ?thesis
      using Cons.prems VcApply c1 p r x by simp
  qed
qed

text \<open>How a membership change ends: a report, the view-change machine, its actions.\<close>

lemma recovery_tail_drives:
  fixes ef :: "('t, 'm, 'a, 'w) driver_effect list"
  assumes "(case core_recovery_report (e_core E) (d_core st1) of (report, core') \<Rightarrow>
      (case g report of (acts, vc') \<Rightarrow>
        (case execute E acts i (st1\<lparr>d_core := core', d_vc := vc'\<rparr>) of
           (ef', st2) \<Rightarrow> Some (ef1 @ ef', st2)))) = Some (ef, st')"
    and "drives E i st ef1 st1"
  shows "drives E i st ef st'"
proof -
  obtain report core' where r: "core_recovery_report (e_core E) (d_core st1) = (report, core')"
    by fastforce
  obtain acts vc' where g: "g report = (acts, vc')" by fastforce
  obtain ef2 :: "('t, 'm, 'a, 'w) driver_effect list" and st2 where
    x: "execute E acts i (st1\<lparr>d_core := core', d_vc := vc'\<rparr>) = (ef2, st2)" by fastforce
  have "drives E i st1 ef2 st2"
    by (rule drives_from [OF execute_drives [OF x]])
      (use path_call [OF call_report [OF r]] in simp_all)
  from drives_trans [OF assms(2) this] show ?thesis
    using assms(1) r g x by simp
qed

lemma crash_confirmed_drives:
  fixes ef :: "('t, 'm, 'a, 'w) driver_effect list"
  assumes "handle_crash_confirmed E confirmed i n addrs st = Some (ef, st')"
  shows "drives E i st ef st'"
proof -
  obtain ef1 :: "('t, 'm, 'a, 'w) driver_effect list" and st1 where
    x: "exclude E (unat confirmed) i n addrs st = Some (ef1, st1)"
    using assms by (auto simp: handle_crash_confirmed_def bind_eq_Some_conv)
  show ?thesis
    by (rule recovery_tail_drives [OF _ exclude_drives [OF x]])
      (rule assms [unfolded handle_crash_confirmed_def x, simplified])
qed

lemma handle_vc_drives:
  fixes ef :: "('t, 'm, 'a, 'w) driver_effect list"
  assumes "handle_vc E msg i n addrs st = Some (ef, st')"
  shows "drives E i st ef st'"
proof (cases "msg_rejoiner (e_vc E) msg")
  case (Some r)
  obtain ef1 :: "('t, 'm, 'a, 'w) driver_effect list" and st1 where
    x: "readmit E (unat r) i n addrs st = Some (ef1, st1)"
    using assms Some by (auto simp: handle_vc_def bind_eq_Some_conv)
  show ?thesis
    by (rule recovery_tail_drives [OF _ readmit_drives [OF x]])
      (rule assms [unfolded handle_vc_def Some option.case x bind.bind_lunit prod.case])
next
  case None
  show ?thesis
  proof (cases "msg_victim (e_vc E) msg")
    case (Some v)
    obtain ef1 :: "('t, 'm, 'a, 'w) driver_effect list" and st1 where
      x: "exclude E (unat v) i n addrs st = Some (ef1, st1)"
      using assms None Some by (auto simp: handle_vc_def bind_eq_Some_conv)
    show ?thesis
      by (rule recovery_tail_drives [OF _ exclude_drives [OF x]])
        (rule assms [unfolded handle_vc_def None Some option.case x bind.bind_lunit prod.case])
  qed (use assms None in \<open>auto simp: handle_vc_def intro: drives_same path_end\<close>)
qed

lemma process_hints_drives:
  fixes ef :: "('t, 'm, 'a, 'w) driver_effect list"
  shows "process_hints E vs i n rc addrs st = Some (ef, st') \<Longrightarrow> drives E i st ef st'"
proof (induction vs arbitrary: st ef st')
  case Nil
  then show ?case by (auto intro: drives_same path_end)
next
  case (Cons v vs)
  obtain c det' where h: "det_gap_hint (e_det E) v (d_detector st) = (c, det')" by fastforce
  have silent: "drives E i st ef' s" if "drives E i (st\<lparr>d_detector := det'\<rparr>) ef' s"
    for ef' :: "('t, 'm, 'a, 'w) driver_effect list" and s
    by (rule drives_from [OF that]) (simp_all add: path_end)
  show ?case
  proof (cases "det_is_confirmed (e_det E) v (d_detector st)")
    case True
    with Cons show ?thesis by simp
  next
    case False
    show ?thesis
    proof (cases c)
      case None
      with Cons.prems h False have "process_hints E vs i n rc addrs (st\<lparr>d_detector := det'\<rparr>) = Some (ef, st')"
        by simp
      from silent [OF Cons.IH [OF this]] show ?thesis .
    next
      case (Some confirmed)
      let ?st = "st\<lparr>d_detector := det'\<rparr>"
      obtain ef1 :: "('t, 'm, 'a, 'w) driver_effect list" and st1 ef2 where
        one: "(if rc then handle_crash_confirmed E confirmed i n addrs ?st
               else Some ([], ?st\<lparr>d_core := core_confirm_crash (e_core E) confirmed (d_core st)\<rparr>))
              = Some (ef1, st1)"
        and rest: "process_hints E vs i n rc addrs st1 = Some (ef2, st')" "ef = ef1 @ ef2"
        using Cons.prems h False Some by (auto simp: bind_eq_Some_conv split: if_splits)
      have "drives E i ?st ef1 st1"
      proof (cases rc)
        case True
        with one show ?thesis using crash_confirmed_drives by auto
      next
        case False
        have "core_path (e_core E) (d_core ?st) [] [] (core_confirm_crash (e_core E) confirmed (d_core st))"
          using path_call [OF call_confirm] by simp
        then show ?thesis using one False by (intro drives_same) auto
      qed
      from drives_trans [OF silent [OF this] Cons.IH [OF rest(1)]] rest(2) show ?thesis by simp
    qed
  qed
qed

lemma core_turn_drives:
  fixes ef :: "('t, 'm, 'a, 'w) driver_effect list"
  assumes "core_turn E cfg inp st = Some (ef, st')" "given inp = []"
  shows "drives E (cfg_id cfg) st ef st'"
proof -
  obtain outs core' where c: "core_step (e_core E) inp (d_core st) = (outs, core')" by fastforce
  obtain ef1 :: "('t, 'm, 'a, 'w) driver_effect list" and vs st1 where
    p: "pump_outputs E (cfg_id cfg) outs (st\<lparr>d_core := core'\<rparr>) = (ef1, vs, st1)"
    using prod_cases3 by blast
  obtain ef2 where h: "process_hints E vs (cfg_id cfg) (ring_n E cfg) (reconfig cfg)
      (cfg_ring_addrs cfg) st1 = Some (ef2, st')" "ef = ef1 @ ef2"
    using assms c p by (auto simp: core_turn_def bind_eq_Some_conv)
  have "core_call (e_core E) (d_core st) [] (delivered outs) core'"
    using call_step [OF c] assms(2) by simp
  from drives_trans [OF call_drives [OF this p] process_hints_drives [OF h(1)]] h(2)
  show ?thesis by simp
qed


text \<open>The write requests among the events, with their tokens.\<close>

fun writers :: "('t, 'm, 'a, 'w) driver_event list \<Rightarrow> (bytes list \<times> 'w) list" where
  "writers [] = []"
| "writers (EvWrite argv w # evs) = (argv, w) # writers evs"
| "writers (_ # evs) = writers evs"

lemma writers_length: "length (writers evs) \<le> length evs"
  by (induction evs rule: writers.induct) auto

lemma writers_append: "writers (evs @ evs') = writers evs @ writers evs'"
  by (induction evs rule: writers.induct) simp_all

definition serves_events ::
  "('c, 't, 'p, 'r, 'q, 'd, 'v, 'm, 'st, 'f) env \<Rightarrow> proc_id \<Rightarrow> ('c, 'd, 'v, 'st, 'w) driver_state
     \<Rightarrow> ('t, 'm, 'a, 'w) driver_event list \<Rightarrow> ('t, 'm, 'a, 'w) driver_effect list
     \<Rightarrow> ('c, 'd, 'v, 'st, 'w) driver_state \<Rightarrow> bool" where
  "serves_events E i st evs ef st' \<longleftrightarrow>
     (\<exists>acts bs ps. front_run E i (front_of st) acts (front_of st')
        \<and> answered acts = replies_of ef \<and> asked acts = writers evs
        \<and> core_path (e_core E) (d_core st) bs ps (d_core st') \<and> ops_of acts = decoded (e_wire E) ps
        \<and> map (enc_op (e_wire E)) (sent_ops (issued acts)) = map Inr bs)"

lemma issued_unasked: "asked acts = [] \<Longrightarrow> issued acts = []"
  by (induction acts rule: issued.induct) auto

text \<open>One event: a request it brings is filed before anything else happens.\<close>

definition serves_event ::
  "('c, 't, 'p, 'r, 'q, 'd, 'v, 'm, 'st, 'f) env \<Rightarrow> proc_id \<Rightarrow> ('c, 'd, 'v, 'st, 'w) driver_state
     \<Rightarrow> ('t, 'm, 'a, 'w) driver_event \<Rightarrow> ('t, 'm, 'a, 'w) driver_effect list
     \<Rightarrow> ('c, 'd, 'v, 'st, 'w) driver_state \<Rightarrow> bool" where
  "serves_event E i st ev ef st' \<longleftrightarrow>
     (\<exists>acts bs ps. front_run E i (front_of st) acts (front_of st')
        \<and> answered acts = replies_of ef \<and> asked acts = writers [ev] \<and> issued (tl acts) = []
        \<and> core_path (e_core E) (d_core st) bs ps (d_core st') \<and> ops_of acts = decoded (e_wire E) ps
        \<and> map (enc_op (e_wire E)) (sent_ops (issued acts)) = map Inr bs)"

lemma serves_event_events: "serves_event E i st ev ef st' \<Longrightarrow> serves_events E i st [ev] ef st'"
  unfolding serves_event_def serves_events_def by blast

lemma issued_tl: "issued acts = [] \<Longrightarrow> issued (tl acts) = []"
  by (cases acts rule: issued.cases) auto

lemma drives_event: "drives E i st ef st' \<Longrightarrow> writers [ev] = [] \<Longrightarrow> serves_event E i st ev ef st'"
  unfolding drives_def pumps_def serves_event_def using issued_unasked issued_tl by fastforce

lemma serves_drives: "drives E i st ef st' \<Longrightarrow> writers evs = [] \<Longrightarrow> serves_events E i st evs ef st'"
  unfolding drives_def pumps_def serves_events_def using issued_unasked by fastforce

lemma serves_trans:
  assumes "serves_events E i st evs ef st1" "serves_events E i st1 evs' ef' st2"
  shows "serves_events E i st (evs @ evs') (ef @ ef') st2"
proof -
  obtain a1 b1 ps a2 b2 qs where "front_run E i (front_of st) a1 (front_of st1)"
    "answered a1 = replies_of ef" "asked a1 = writers evs"
    "core_path (e_core E) (d_core st) b1 ps (d_core st1)" "ops_of a1 = decoded (e_wire E) ps"
    "map (enc_op (e_wire E)) (sent_ops (issued a1)) = map Inr b1"
    "front_run E i (front_of st1) a2 (front_of st2)"
    "answered a2 = replies_of ef'" "asked a2 = writers evs'"
    "core_path (e_core E) (d_core st1) b2 qs (d_core st2)" "ops_of a2 = decoded (e_wire E) qs"
    "map (enc_op (e_wire E)) (sent_ops (issued a2)) = map Inr b2"
    using assms unfolding serves_events_def by blast
  then show ?thesis
    unfolding serves_events_def
    by (intro exI [of _ "a1 @ a2"] exI [of _ "b1 @ b2"] exI [of _ "ps @ qs"])
      (auto simp: front_run_append projections_append issued_append effect_filters(3) writers_append
        intro: path_trans)
qed

text \<open>A request that is broadcast is filed under the next id before anything is delivered.\<close>

lemma write_request_issued:
  fixes ef :: "('t, 'm, 'a, 'w) driver_effect list"
  assumes "write_action (e_float E) (\<lambda>c. st_query (e_store E) c (d_store st)) argv = ABroadcast argv' rs"
    and "enc_op (e_wire E) (envelope i (d_next_rid st) argv' rs) = Inr bs"
    and "handle_write_request E i argv tx st = (ef, st')"
  shows "\<exists>acts ps. front_run E i (front_of st)
      (Issued argv tx (envelope i (d_next_rid st) argv' rs) # acts) (front_of st')
    \<and> answered acts = replies_of ef \<and> asked acts = []
    \<and> core_path (e_core E) (d_core st) [bs] ps (d_core st') \<and> ops_of acts = decoded (e_wire E) ps"
proof -
  let ?st1 = "st\<lparr>d_next_rid := d_next_rid st + 1, d_pending := bt_insert (d_next_rid st) tx (d_pending st)\<rparr>"
  obtain outs core' where c: "core_step (e_core E) (LocalBroadcast bs) (d_core ?st1) = (outs, core')"
    by fastforce
  obtain ef1 :: "('t, 'm, 'a, 'w) driver_effect list" and vs st2 where
    p: "pump_outputs E i outs (?st1\<lparr>d_core := core'\<rparr>) = (ef1, vs, st2)" using prod_cases3 by blast
  have eq: "ef = ef1" "st' = st2"
    using assms c p by (auto simp: handle_write_request_def Let_def envelope_def [symmetric])
  have "core_path (e_core E) (d_core st) [bs] (delivered outs) (d_core st')"
    using path_call [OF call_step [OF c]] pump_outputs_core [OF p] eq by simp
  moreover have "pumps E i ?st1 (decoded (e_wire E) (delivered outs)) ef st'"
    using pump_outputs_pumps [OF p] eq by (simp add: pumps_def)
  moreover have "front_step E i (front_of st) (Issued argv tx (envelope i (d_next_rid st) argv' rs))
      (front_of ?st1)"
    using front_step.issue [of E "front_of st" argv i "envelope i (d_next_rid st) argv' rs" tx] assms(1)
    by (auto simp: front_of_def d_app_def broadcast_of_def)
  ultimately show ?thesis
    unfolding pumps_def by (auto simp: front_run_Cons)
qed

lemma write_request_serves:
  fixes ef :: "('t, 'm, 'a, 'w) driver_effect list"
  assumes "handle_write_request E i argv tx st = (ef, st')"
  shows "serves_event E i st (EvWrite argv tx) ef st'"
proof -
  have refused: ?thesis if "ef = [ReplyTo tx r]" "st' = st" "at_once E (d_store st) argv r" for r
  proof -
    have "front_step E i (front_of st) (Refused argv tx r) (front_of st)"
      by (rule front_step.refuse) (simp add: front_of_def d_app_def that(3))
    then show ?thesis
      unfolding serves_event_def using that
      by (intro exI [of _ "[Refused argv tx r]"] exI [of _ "[]"] exI [of _ "[]"])
        (simp add: front_run_Cons front_run_Nil path_end)
  qed
  show ?thesis
  proof (cases "write_action (e_float E) (\<lambda>c. st_query (e_store E) c (d_store st)) argv")
    case (AImmediate r)
    then show ?thesis
      using assms by (intro refused [of r]) (auto simp: handle_write_request_def at_once_def)
  next
    case (ABroadcast argv' rs)
    show ?thesis
    proof (cases "enc_op (e_wire E) (envelope i (d_next_rid st) argv' rs)")
      case (Inl e)
      then show ?thesis
        using assms ABroadcast
        by (intro refused [of "reply_error (''ERR failed to encode write for replication: '' @ e)"])
          (auto simp: handle_write_request_def at_once_def Let_def envelope_def [symmetric])
    next
      case (Inr bs)
      let ?op = "envelope i (d_next_rid st) argv' rs"
      from write_request_issued [OF ABroadcast Inr assms] obtain acts ps where
        "front_run E i (front_of st) (Issued argv tx ?op # acts) (front_of st')"
        "answered acts = replies_of ef" "asked acts = []"
        "core_path (e_core E) (d_core st) [bs] ps (d_core st')" "ops_of acts = decoded (e_wire E) ps"
        by blast
      then show ?thesis
        unfolding serves_event_def using issued_unasked [of acts] Inr
        by (intro exI [of _ "Issued argv tx ?op # acts"] exI [of _ "[bs]"] exI [of _ ps]) simp
    qed
  qed
qed

lemma driver_step_serves:
  fixes ef :: "('t, 'm, 'a, 'w) driver_effect list"
  assumes "driver_step E cfg ev st = Some (ef, st', b)"
  shows "serves_event E (cfg_id cfg) st ev ef st'"
proof (cases "\<exists>argv tx. ev = EvWrite argv tx")
  case True
  then show ?thesis
    using assms by (auto simp: driver_step_def split: prod.splits intro: write_request_serves)
next
  case False
  then have quiet: "writers [ev] = []" by (cases ev) auto
  have turn: "drives E (cfg_id cfg) st ef st'"
    if "core_turn E cfg inp s = Some (ef, st')" "given inp = []" "front_of s = front_of st"
      "d_core s = d_core st" for inp s
    by (rule drives_from [OF core_turn_drives [OF that(1,2)]]) (simp_all add: that path_end)
  have crash: "drives E (cfg_id cfg) st ef st'"
    if "handle_crash_confirmed E v (cfg_id cfg) n addrs s = Some (ef, st')" "front_of s = front_of st"
      "d_core s = d_core st" for v n addrs s
    by (rule drives_from [OF crash_confirmed_drives [OF that(1)]]) (simp_all add: that path_end)
  have note_dead: "drives E (cfg_id cfg) st ([] :: ('t, 'm, 'a, 'w) driver_effect list) (st\<lparr>d_detector := det\<rparr>)" for det
    by (rule drives_same) (simp_all add: path_end)
  have "drives E (cfg_id cfg) st ef st'"
    using assms False
    by (cases ev)
      (auto simp: driver_step_def Let_def split: if_splits option.splits prod.splits
        intro: drives_same path_end note_dead turn crash handle_vc_drives)
  then show ?thesis using quiet by (rule drives_event)
qed

lemma driver_run_serves:
  fixes ef :: "('t, 'm, 'a, 'w) driver_effect list"
  shows "driver_run E cfg evs st = Some (ef, st', b) \<Longrightarrow>
    \<exists>handled rest. evs = handled @ rest \<and> (b \<longrightarrow> rest = [])
      \<and> serves_events E (cfg_id cfg) st handled ef st'"
proof (induction evs arbitrary: st ef)
  case Nil
  then show ?case by (auto intro!: serves_drives drives_same path_end)
next
  case (Cons ev evs)
  obtain ef1 st1 go where s: "driver_step E cfg ev st = Some (ef1, st1, go)"
    using Cons.prems by (auto split: option.splits)
  note one = serves_event_events [OF driver_step_serves [OF s]]
  show ?case
  proof (cases go)
    case False
    then have "ef = ef1" "st' = st1" "\<not> b" using Cons.prems s by auto
    then show ?thesis using one by (intro exI [of _ "[ev]"] exI [of _ evs]) simp
  next
    case True
    then obtain ef2 where r: "driver_run E cfg evs st1 = Some (ef2, st', b)" "ef = ef1 @ ef2"
      using Cons.prems s by (auto split: option.splits)
    from Cons.IH [OF r(1)] obtain handled rest where h: "evs = handled @ rest" "b \<longrightarrow> rest = []"
      "serves_events E (cfg_id cfg) st1 handled ef2 st'" by auto
    show ?thesis
      using h serves_trans [OF one h(3)] r(2)
      by (intro exI [of _ "ev # handled"] exI [of _ rest]) simp
  qed
qed


text \<open>What a driver starts from: a fresh front over the store it is given or the seed's state.\<close>

definition start_app :: "'p promote_seed option \<Rightarrow> 'st \<Rightarrow> 'st app" where
  "start_app promote store =
     (case promote of None \<Rightarrow> (store, dedup_new, log_default)
                    | Some seed \<Rightarrow> (store, seed_dedup seed, seed_log seed))"

definition start_front :: "'p promote_seed option \<Rightarrow> 'st \<Rightarrow> ('st, 'w) front" where
  "start_front promote store = \<lparr>fr_app = start_app promote store, fr_pend = [], fr_next = 0\<rparr>"

lemma driver_init_front:
  fixes E :: "('c, 't, 'p, 'r, 'q, 'd, 'v, 'm, 'st, 'f) env"
    and ef :: "('t, 'm, 'a, 'w) driver_effect list"
  assumes "driver_init E cfg core store promote = Some (ef, st)"
  shows "\<exists>acts ps. front_run E (cfg_id cfg) (start_front promote store) acts (front_of st)
    \<and> answered acts = replies_of ef \<and> asked acts = []
    \<and> core_path (e_core E) core [] ps (d_core st) \<and> ops_of acts = decoded (e_wire E) ps"
proof -
  have *: ?thesis if "drives E (cfg_id cfg) s ef st" "front_of s = start_front promote store"
    "core_path (e_core E) core [] [] (d_core s)" for s :: "('c, 'd, 'v, 'st, 'w) driver_state"
    using that(1) path_trans [OF that(3)] unfolding drives_def pumps_def that(2) by fastforce
  show ?thesis
  proof (cases promote)
    case None
    then have "front_of st = start_front promote store" "replies_of ef = []"
      "core_path (e_core E) core [] [] (d_core st)"
      using assms
      by (auto simp: driver_init_def Let_def driver_new_def start_front_def start_app_def front_of_def
          d_app_def intro: path_end path_call [OF call_initial] split: if_splits prod.splits)
    then show ?thesis
      using * [of st] drives_same [of st st ef E "cfg_id cfg"] by (simp add: path_end)
  next
    case (Some seed)
    then obtain st1 where st1: "adopt_seed E cfg seed (driver_new E cfg core store) = Some st1"
      "request_readmission E (cfg_id cfg) st1 = (ef, st)"
      using assms by (auto simp: driver_init_def bind_eq_Some_conv split: if_splits)
    obtain report acts vc' core' where r: "core_recovery_report (e_core E) (d_core st1) = (report, core')"
      and x: "execute E acts (cfg_id cfg) (st1\<lparr>d_core := core', d_vc := vc'\<rparr>) = (ef, st)"
      using st1(2) by (auto simp: request_readmission_def split: prod.splits)
    have "drives E (cfg_id cfg) st1 ef st"
      by (rule drives_from [OF execute_drives [OF x]])
        (use path_call [OF call_report [OF r]] in simp_all)
    moreover have "front_of st1 = start_front promote store"
      using st1(1) Some
      by (auto simp: adopt_seed_def Let_def bind_eq_Some_conv driver_new_def start_front_def
          start_app_def front_of_def d_app_def)
    moreover have "core_path (e_core E) core [] [] (d_core st1)"
      using st1(1) path_snoc [OF path_call [OF call_import] call_readmit]
      by (auto simp: adopt_seed_def Let_def bind_eq_Some_conv driver_new_def)
    ultimately show ?thesis by (rule *)
  qed
qed

lemma driver_life:
  fixes ef0 ef :: "('t, 'm, 'a, 'w) driver_effect list"
  assumes "driver_init E cfg core store promote = Some (ef0, st0)"
    and "driver_run E cfg evs st0 = Some (ef, st, b)"
  obtains handled rest acts bs ps where "evs = handled @ rest" "b \<longrightarrow> rest = []"
    "front_run E (cfg_id cfg) (start_front promote store) acts (front_of st)"
    "answered acts = replies_of (ef0 @ ef)" "asked acts = writers handled"
    "core_path (e_core E) core bs ps (d_core st)" "ops_of acts = decoded (e_wire E) ps"
    "map (enc_op (e_wire E)) (sent_ops (issued acts)) = map Inr bs"
proof -
  obtain a1 ps where a1: "front_run E (cfg_id cfg) (start_front promote store) a1 (front_of st0)"
    "answered a1 = replies_of ef0" "asked a1 = []"
    "core_path (e_core E) core [] ps (d_core st0)" "ops_of a1 = decoded (e_wire E) ps"
    using driver_init_front [OF assms(1)] by blast
  obtain handled rest where h: "evs = handled @ rest" "b \<longrightarrow> rest = []"
    "serves_events E (cfg_id cfg) st0 handled ef st"
    using driver_run_serves [OF assms(2)] by blast
  obtain a2 bs qs where a2: "front_run E (cfg_id cfg) (front_of st0) a2 (front_of st)"
    "answered a2 = replies_of ef" "asked a2 = writers handled"
    "core_path (e_core E) (d_core st0) bs qs (d_core st)" "ops_of a2 = decoded (e_wire E) qs"
    "map (enc_op (e_wire E)) (sent_ops (issued a2)) = map Inr bs"
    using h(3) by (auto simp: serves_events_def)
  have "front_run E (cfg_id cfg) (start_front promote store) (a1 @ a2) (front_of st)"
    using a1(1) a2(1) by (auto simp: front_run_append)
  then show ?thesis
    using that [OF h(1,2) _ _ _ path_trans [OF a1(4) a2(4)]] a1 a2 issued_unasked [OF a1(3)]
    by (simp add: projections_append issued_append)
qed

end
