(* ===== verification/Cluster.thy ===== *)
theory Cluster
  imports Driver_Clients
begin

section \<open>The nodes of a ring together\<close>

text \<open>
  Several drivers whose cores deliver one sequence of payloads, each from the place it joined at: at
  the start, or later with the state of a survivor at that place. Whatever their events, equal
  positions in the sequence mean equal stores and deduplication states, and the answers their
  clients get are those of one store that executes the sequence.
\<close>

subsection \<open>Store and deduplication state do not depend on the log\<close>

definition store_data :: "'st app \<Rightarrow> 'st \<times> write_dedup" where
  "store_data a = (fst a, fst (snd a))"

lemma app_step_data: "store_data a = store_data a' \<Longrightarrow> store_data (app_step S op a) = store_data (app_step S op a')"
  by (cases a; cases a')
    (auto simp: store_data_def app_step_def apply_delivered_op_parts_def Let_def split: prod.splits bool.splits)

lemma app_run_data: "store_data a = store_data a' \<Longrightarrow> store_data (app_run S ops a) = store_data (app_run S ops a')"
proof (induction ops arbitrary: a a')
  case (Cons op ops)
  show ?case using Cons.IH [OF app_step_data [OF Cons.prems]] by simp
qed simp

lemma applied_reply_data: "store_data a = store_data a' \<Longrightarrow> applied_reply S op a = applied_reply S op a'"
  by (cases a; cases a')
    (auto simp: store_data_def applied_reply_def apply_delivered_op_parts_def Let_def
      split: prod.splits bool.splits)

lemma store_data_fst: "store_data a = store_data a' \<Longrightarrow> fst a = fst a'"
  by (simp add: store_data_def)

text \<open>The reply of a write that is applied: the one resolved at its origin, or what its command returns.\<close>

lemma applied_reply_value:
  assumes "applied_reply S op a = Some r" "client_reply op = None" "op_command op = Some cmd"
  shows "r = fst (st_apply S cmd (fst a))"
  using assms
  by (auto simp: applied_reply_def apply_delivered_op_parts_def Let_def split: prod.splits bool.splits)

subsection \<open>A node's life on the ring\<close>

record ('c, 't, 'p, 'r, 'q, 'd, 'v, 'm, 'st, 'f, 'a, 'w) node_life =
  nl_env :: "('c, 't, 'p, 'r, 'q, 'd, 'v, 'm, 'st, 'f) env"
  nl_cfg :: "'a driver_cfg"
  nl_core :: 'c
  nl_store :: 'st
  nl_promote :: "'p promote_seed option"
  nl_events :: "('t, 'm, 'a, 'w) driver_event list"
  nl_effects :: "('t, 'm, 'a, 'w) driver_effect list"
  nl_state :: "('c, 'd, 'v, 'st, 'w) driver_state"

text \<open>It started from what it was given and handled events up to its present state.\<close>

definition life_of ::
  "('c, 't, 'p, 'r, 'q, 'd, 'v, 'm, 'st, 'f) env \<Rightarrow> 'a driver_cfg \<Rightarrow> 'c \<Rightarrow> 'st \<Rightarrow> 'p promote_seed option
     \<Rightarrow> ('t, 'm, 'a, 'w) driver_event list
     \<Rightarrow> ('c, 't, 'p, 'r, 'q, 'd, 'v, 'm, 'st, 'f, 'a, 'w) node_life option" where
  "life_of E cfg core store promote evs =
     do {
       (ef0, st0) \<leftarrow> driver_init E cfg core store promote;
       (ef, st, b) \<leftarrow> driver_run E cfg evs st0;
       Some \<lparr>nl_env = E, nl_cfg = cfg, nl_core = core, nl_store = store, nl_promote = promote,
             nl_events = evs, nl_effects = ef0 @ ef, nl_state = st\<rparr>
     }"

definition lived :: "('c, 't, 'p, 'r, 'q, 'd, 'v, 'm, 'st, 'f, 'a, 'w) node_life \<Rightarrow> bool" where
  "lived n \<longleftrightarrow>
     life_of (nl_env n) (nl_cfg n) (nl_core n) (nl_store n) (nl_promote n) (nl_events n) = Some n"

lemma life_of_lived:
  "life_of E cfg core store promote evs = Some n \<Longrightarrow>
     lived n \<and> nl_env n = E \<and> nl_cfg n = cfg \<and> nl_core n = core \<and> nl_store n = store
     \<and> nl_promote n = promote \<and> nl_events n = evs"
  unfolding lived_def by (auto simp: life_of_def bind_eq_Some_conv)

lemma livedE:
  assumes "lived n"
  obtains ef0 st0 ef b where
    "driver_init (nl_env n) (nl_cfg n) (nl_core n) (nl_store n) (nl_promote n) = Some (ef0, st0)"
    "driver_run (nl_env n) (nl_cfg n) (nl_events n) st0 = Some (ef, nl_state n, b)"
    "nl_effects n = ef0 @ ef"
proof -
  obtain ef0 st0 ef st b where
    "driver_init (nl_env n) (nl_cfg n) (nl_core n) (nl_store n) (nl_promote n) = Some (ef0, st0)"
    "driver_run (nl_env n) (nl_cfg n) (nl_events n) st0 = Some (ef, st, b)"
    and n: "n = \<lparr>nl_env = nl_env n, nl_cfg = nl_cfg n, nl_core = nl_core n, nl_store = nl_store n,
      nl_promote = nl_promote n, nl_events = nl_events n, nl_effects = ef0 @ ef, nl_state = st\<rparr>"
    using assms unfolding lived_def life_of_def by (auto simp: bind_eq_Some_conv)
  moreover have "nl_state n = st" by (subst n) simp
  moreover have "nl_effects n = ef0 @ ef" by (subst n) simp
  ultimately show ?thesis using that by metis
qed

text \<open>
  The total order: from place \<open>base\<close> of \<open>L\<close> on, what the core has delivered to this driver is a
  piece of \<open>L\<close>, where \<open>gave\<close> and \<open>hist\<close> record what the core was given and has delivered.
\<close>

definition on_ring ::
  "('c \<Rightarrow> bytes list) \<Rightarrow> ('c \<Rightarrow> payload list) \<Rightarrow> payload list \<Rightarrow> nat
     \<Rightarrow> ('c, 't, 'p, 'r, 'q, 'd, 'v, 'm, 'st, 'f, 'a, 'w) node_life \<Rightarrow> bool" where
  "on_ring gave hist L base n \<longleftrightarrow>
     recorded_core (e_core (nl_env n)) gave hist \<and> gave (nl_core n) = [] \<and> hist (nl_core n) = []
     \<and> base \<le> length L \<and> prefix (hist (d_core (nl_state n))) (drop base L)"

definition ring_place ::
  "('c \<Rightarrow> payload list) \<Rightarrow> nat \<Rightarrow> ('c, 't, 'p, 'r, 'q, 'd, 'v, 'm, 'st, 'f, 'a, 'w) node_life \<Rightarrow> nat" where
  "ring_place hist base n = base + length (hist (d_core (nl_state n)))"

text \<open>It joined with the store and deduplication state of the ring at that place.\<close>

definition joined_at ::
  "payload list \<Rightarrow> 'st app \<Rightarrow> nat \<Rightarrow> ('c, 't, 'p, 'r, 'q, 'd, 'v, 'm, 'st, 'f, 'a, 'w) node_life \<Rightarrow> bool" where
  "joined_at L a0 base n \<longleftrightarrow>
     store_data (start_app (nl_promote n) (nl_store n))
       = store_data (app_run (e_store (nl_env n)) (decoded (e_wire (nl_env n)) (take base L)) a0)"

lemma take_place:
  assumes "on_ring gave hist L base n"
  shows "take (ring_place hist base n) L = take base L @ hist (d_core (nl_state n))"
    "hist (d_core (nl_state n)) = take (length (hist (d_core (nl_state n)))) (drop base L)"
  using assms by (auto simp: on_ring_def ring_place_def prefix_def take_add)

text \<open>The acts of a life and the record of its core.\<close>

lemma life_run:
  assumes "lived n" "on_ring gave hist L base n"
  obtains acts rest where
    "front_run (nl_env n) (cfg_id (nl_cfg n)) (start_front (nl_promote n) (nl_store n)) acts (front_of (nl_state n))"
    "answered acts = replies_of (nl_effects n)" "prefix (asked acts) (writers (nl_events n))"
    "ops_of acts = decoded (e_wire (nl_env n)) (hist (d_core (nl_state n)))"
    "map (enc_op (e_wire (nl_env n))) (sent_ops (issued acts)) = map Inr (gave (d_core (nl_state n)))"
proof -
  obtain ef0 st0 ef b where l:
    "driver_init (nl_env n) (nl_cfg n) (nl_core n) (nl_store n) (nl_promote n) = Some (ef0, st0)"
    "driver_run (nl_env n) (nl_cfg n) (nl_events n) st0 = Some (ef, nl_state n, b)"
    "nl_effects n = ef0 @ ef"
    by (rule livedE [OF assms(1)])
  obtain handled rest acts bs ps where h: "nl_events n = handled @ rest"
    "front_run (nl_env n) (cfg_id (nl_cfg n)) (start_front (nl_promote n) (nl_store n)) acts (front_of (nl_state n))"
    "answered acts = replies_of (ef0 @ ef)" "asked acts = writers handled"
    "core_path (e_core (nl_env n)) (nl_core n) bs ps (d_core (nl_state n))"
    "ops_of acts = decoded (e_wire (nl_env n)) ps"
    "map (enc_op (e_wire (nl_env n))) (sent_ops (issued acts)) = map Inr bs"
    by (rule driver_life [OF l(1,2)])
  have "bs = gave (d_core (nl_state n))" "ps = hist (d_core (nl_state n))"
    using recorded_core.record_from_new [of "e_core (nl_env n)" gave hist, OF _ h(5)] assms(2)
    by (simp_all add: on_ring_def)
  moreover have "prefix (writers handled) (writers (nl_events n))"
    by (simp add: h(1) writers_append)
  ultimately show ?thesis
    using that [OF h(2)] h l(3) by simp
qed

subsection \<open>Convergence of the drivers\<close>

lemma life_state:
  assumes "lived n" "on_ring gave hist L base n" "joined_at L a0 base n"
  shows "store_data (d_app (nl_state n)) = store_data (app_run (e_store (nl_env n))
    (decoded (e_wire (nl_env n)) (take (ring_place hist base n) L)) a0)"
proof -
  obtain acts where run:
    "front_run (nl_env n) (cfg_id (nl_cfg n)) (start_front (nl_promote n) (nl_store n)) acts (front_of (nl_state n))"
    and ops: "ops_of acts = decoded (e_wire (nl_env n)) (hist (d_core (nl_state n)))"
    by (rule life_run [OF assms(1,2)])
  have "d_app (nl_state n) = app_run (e_store (nl_env n)) (ops_of acts) (start_app (nl_promote n) (nl_store n))"
    using front_app_run [OF run] by (simp add: front_of_def start_front_def)
  then show ?thesis
    using app_run_data [OF assms(3) [unfolded joined_at_def]] take_place(1) [OF assms(2)]
    by (simp add: ops app_run_append)
qed

lemma prefix_decoded: "decoded W (take (k + l) L) = decoded W (take k L) @ decoded W (take l (drop k L))"
  by (simp add: take_add)

subsection \<open>The answers of one store\<close>

text \<open>
  An answer in the common order: decided at once on a store the order passes through; or the request
  was resolved on such a store, and at a later place of the order stands its own envelope, whose
  application at that place gave the answer. A plain write is executed as the client sent it.
\<close>

definition linearized ::
  "('c, 't, 'p, 'r, 'q, 'd, 'v, 'm, 'st, 'f) env \<Rightarrow> proc_id \<Rightarrow> 'st app \<Rightarrow> write_op list
     \<Rightarrow> (bytes list \<times> 'w) list \<Rightarrow> 'w \<times> reply \<Rightarrow> bool" where
  "linearized E i a0 ops requests ans \<longleftrightarrow>
     (case ans of (w, r) \<Rightarrow>
        (\<exists>past later argv. ops = past @ later \<and> (argv, w) \<in> set requests
           \<and> at_once E (fst (app_run (e_store E) past a0)) argv r)
        \<or> (\<exists>before between op later argv rid. ops = before @ between @ op # later
           \<and> (argv, w) \<in> set requests
           \<and> broadcast_of E (fst (app_run (e_store E) before a0)) argv i rid op
           \<and> applied_reply (e_store E) op (app_run (e_store E) (before @ between) a0) = Some r
           \<and> (\<forall>cmd. parse argv = Some cmd \<and> classify (cmd_name cmd) = Write
                \<longrightarrow> r = fst (st_apply (e_store E) cmd (fst (app_run (e_store E) (before @ between) a0))))))"

lemma linearizedI:
  assumes "ops = before @ between @ op # later" "(argv, w) \<in> set requests"
    "broadcast_of E (fst (app_run (e_store E) before a0)) argv i rid op"
    "applied_reply (e_store E) op (app_run (e_store E) (before @ between) a0) = Some r"
  shows "linearized E i a0 ops requests (w, r)"
proof -
  have "r = fst (st_apply (e_store E) cmd (fst (app_run (e_store E) (before @ between) a0)))"
    if "parse argv = Some cmd" "classify (cmd_name cmd) = Write" for cmd
    using assms(3) that
    by (intro applied_reply_value [OF assms(4)])
      (auto simp: broadcast_of_def write_action_def op_command_def)
  then show ?thesis
    unfolding linearized_def prod.case using assms
    by (intro disjI2 exI [of _ before] exI [of _ between] exI [of _ op] exI [of _ later]
        exI [of _ argv] exI [of _ rid]) simp
qed

lemma linearized_requests:
  "linearized E i a0 ops requests ans \<Longrightarrow> set requests \<subseteq> set requests' \<Longrightarrow> linearized E i a0 ops requests' ans"
  unfolding linearized_def by (cases ans) (simp, blast)

lemma word_inj: "m < 2 ^ 64 \<Longrightarrow> k < 2 ^ 64 \<Longrightarrow> (of_nat m :: u64) = of_nat k \<Longrightarrow> m = k"
  by (simp add: word_of_nat_eq_iff take_bit_nat_eq_self_iff take_bit_nat_eq_self)

text \<open>If what comes under this node's name is what it sent, an explained answer is in order.\<close>

lemma explained_linearized:
  assumes "explained E i a ops requests sent (w, r)"
    and "set (requests_of sent) \<subseteq> set requests" "length sent < 2 ^ 64"
    and "map op_id (sent_ops sent) = map (\<lambda>k. (i, of_nat k)) [0 ..< length sent]"
    and "\<And>op. op \<in> set ops \<Longrightarrow> origin op = i \<Longrightarrow> op \<in> set (sent_ops sent)"
  shows "linearized E i a ops requests (w, r)"
  using assms(1) unfolding explained_def prod.case
proof (elim disjE exE conjE)
  fix past later argv
  assume "ops = past @ later" "(argv, w) \<in> set requests"
    "at_once E (fst (app_run (e_store E) past a)) argv r"
  then show ?thesis
    unfolding linearized_def prod.case by blast
next
  fix before between op later k argv op'
  assume ops: "ops = before @ between @ op # later"
    and k: "k < length sent" "sent ! k = (argv, w, op')"
    and sent: "broadcast_of E (fst (app_run (e_store E) before a)) argv i (of_nat k) op'"
    and id: "op_id op = (i, of_nat k)"
    and reply: "applied_reply (e_store E) op (app_run (e_store E) (before @ between) a) = Some r"
  have "origin op = i" using id by (simp add: op_id_def)
  then have "op \<in> set (sent_ops sent)" using assms(5) [of op] ops by simp
  then obtain m where m: "m < length sent" "sent_ops sent ! m = op"
    by (auto simp: in_set_conv_nth)
  have "op_id (sent_ops sent ! m) = (i, of_nat m)"
    using m(1) arg_cong [OF assms(4), of "\<lambda>l. l ! m"] by simp
  then have "m = k"
    using id m k(1) assms(3) word_inj [of m k] by simp
  then have "op' = op"
    using m k by (simp add: sent_ops_def)
  have "(argv, w) \<in> set (requests_of sent)"
    using k nth_mem [of k "requests_of sent"] by (simp add: requests_of_def)
  then have req: "(argv, w) \<in> set requests"
    by (rule subsetD [OF assms(2)])
  show ?thesis
    by (rule linearizedI [OF ops req sent [unfolded \<open>op' = op\<close>] reply])
qed

lemma linearized_shift:
  assumes "linearized E i a ops requests (w, r)"
    and "store_data a = store_data (app_run (e_store E) pre a0)"
  shows "linearized E i a0 (pre @ ops @ post) requests (w, r)"
proof -
  have eq: "store_data (app_run (e_store E) (pre @ xs) a0) = store_data (app_run (e_store E) xs a)" for xs
    using app_run_data [OF assms(2)] by (simp add: app_run_append)
  note same = store_data_fst [OF eq] applied_reply_data [OF eq]
  from assms(1) consider
    past later argv where "ops = past @ later" "(argv, w) \<in> set requests"
      "at_once E (fst (app_run (e_store E) past a)) argv r"
  | before between op later argv rid where "ops = before @ between @ op # later"
      "(argv, w) \<in> set requests" "broadcast_of E (fst (app_run (e_store E) before a)) argv i rid op"
      "applied_reply (e_store E) op (app_run (e_store E) (before @ between) a) = Some r"
    unfolding linearized_def prod.case by blast
  then show ?thesis
  proof cases
    case 1
    then show ?thesis
      unfolding linearized_def prod.case
      by (intro disjI1 exI [of _ "pre @ past"] exI [of _ "later @ post"] exI [of _ argv])
        (simp add: same(1))
  next
    case 2
    have "fst (app_run (e_store E) (pre @ before) a0) = fst (app_run (e_store E) before a)"
      by (rule same(1))
    moreover have "applied_reply (e_store E) op (app_run (e_store E) ((pre @ before) @ between) a0) = Some r"
      using same(2) [of "e_store E" op "before @ between"] 2(4) by simp
    moreover have "pre @ ops @ post = (pre @ before) @ between @ op # (later @ post)"
      using 2(1) by simp
    ultimately show ?thesis
      using 2(2,3) by (metis linearizedI)
  qed
qed

text \<open>
  The order is not forged: what comes under the node's name at or after its place was given to the
  core by this driver in this life.
\<close>

definition own_name ::
  "('c \<Rightarrow> bytes list) \<Rightarrow> payload list \<Rightarrow> nat
     \<Rightarrow> ('c, 't, 'p, 'r, 'q, 'd, 'v, 'm, 'st, 'f, 'a, 'w) node_life \<Rightarrow> bool" where
  "own_name gave L base n \<longleftrightarrow>
     (\<forall>p \<in> set (drop base L). case dec_op (e_wire (nl_env n)) (pl_data p) of
        None \<Rightarrow> True
      | Some op \<Rightarrow> origin op = cfg_id (nl_cfg n) \<longrightarrow> pl_data p \<in> set (gave (d_core (nl_state n))))"

lemma decoded_mem: "op \<in> set (decoded W ps) \<longleftrightarrow> (\<exists>p \<in> set ps. dec_op W (pl_data p) = Some op)"
  by (induction ps) (auto split: option.splits)

lemma sent_decodes:
  assumes "wire_laws W" "map (enc_op W) ops = map Inr bs" "b \<in> set bs" "dec_op W b = Some op"
  shows "op \<in> set ops"
proof -
  have "Inr b \<in> set (map (enc_op W) ops)"
    using assms(2,3) by simp
  then obtain x where "x \<in> set ops" "enc_op W x = Inr b" by auto
  then show ?thesis
    using wire_laws.dec_enc_op [OF assms(1)] assms(4) by fastforce
qed

lemma life_linearized:
  assumes "lived n" "on_ring gave hist L base n" "joined_at L a0 base n"
    and "wire_laws (e_wire (nl_env n))" "own_name gave L base n" "length (nl_events n) < 2 ^ 64"
    and "(w, r) \<in> set (replies_of (nl_effects n))"
  shows "linearized (nl_env n) (cfg_id (nl_cfg n)) a0 (decoded (e_wire (nl_env n)) L)
    (writers (nl_events n)) (w, r)"
proof -
  let ?E = "nl_env n" and ?i = "cfg_id (nl_cfg n)" and ?h = "hist (d_core (nl_state n))"
  let ?a = "start_app (nl_promote n) (nl_store n)"
  obtain acts where
    run: "front_run ?E ?i (start_front (nl_promote n) (nl_store n)) acts (front_of (nl_state n))"
    and acts: "answered acts = replies_of (nl_effects n)" "prefix (asked acts) (writers (nl_events n))"
      "ops_of acts = decoded (e_wire ?E) ?h"
    and sent: "map (enc_op (e_wire ?E)) (sent_ops (issued acts)) = map Inr (gave (d_core (nl_state n)))"
    by (rule life_run [OF assms(1,2)])
  have "explained ?E ?i ?a (decoded (e_wire ?E) ?h) (asked acts) (issued acts) (w, r)"
    using front_run_explained [OF run, of "(w, r)"] assms(7) acts by (simp add: start_front_def)
  moreover have "set (requests_of (issued acts)) \<subseteq> set (asked acts)"
    by (auto elim: list_emb_set [OF issued_asked])
  moreover have "length (issued acts) < 2 ^ 64"
    using list_emb_length [OF issued_asked [of acts]] prefix_length_le [OF acts(2)]
      writers_length [of "nl_events n"] assms(6)
    by (simp add: requests_of_def)
  moreover have "map op_id (sent_ops (issued acts)) = map (\<lambda>k. (?i, of_nat k)) [0 ..< length (issued acts)]"
    using issued_ids [OF run] by (simp add: start_front_def)
  moreover have "op \<in> set (sent_ops (issued acts))"
    if "op \<in> set (decoded (e_wire ?E) ?h)" "origin op = ?i" for op
  proof -
    obtain p where p: "p \<in> set ?h" "dec_op (e_wire ?E) (pl_data p) = Some op"
      using \<open>op \<in> set (decoded (e_wire ?E) ?h)\<close> by (auto simp: decoded_mem)
    have "p \<in> set (drop base L)"
      using p(1) assms(2) by (auto simp: on_ring_def dest: set_mono_prefix)
    then have "pl_data p \<in> set (gave (d_core (nl_state n)))"
      using assms(5) p(2) that(2) by (auto simp: own_name_def)
    from sent_decodes [OF assms(4) sent this p(2)] show ?thesis .
  qed
  ultimately have "linearized ?E ?i ?a (decoded (e_wire ?E) ?h) (asked acts) (w, r)"
    by (rule explained_linearized)
  from linearized_shift [OF this assms(3) [unfolded joined_at_def]]
  have "linearized ?E ?i a0 (decoded (e_wire ?E) (take base L) @ decoded (e_wire ?E) ?h @ post)
      (asked acts) (w, r)" for post .
  moreover obtain rest where "drop base L = ?h @ rest"
    using assms(2) by (auto simp: on_ring_def prefix_def)
  then have "decoded (e_wire ?E) L
      = decoded (e_wire ?E) (take base L) @ decoded (e_wire ?E) ?h @ decoded (e_wire ?E) rest"
    by (metis append_take_drop_id decoded_simps(3))
  ultimately have "linearized ?E ?i a0 (decoded (e_wire ?E) L) (asked acts) (w, r)"
    by simp
  then show ?thesis
    by (rule linearized_requests) (rule set_mono_prefix [OF acts(2)])
qed



end
