(* ===== verification/In_Flight.thy ===== *)
theory In_Flight
  imports Cluster
begin

section \<open>Who waits, and for what\<close>

text \<open>
  A client waits exactly as long as its envelope is on its way: given to the core and not yet
  delivered. At the level of the front that is an invariant of every run in which nothing comes
  under the node's own name before the node sent it.
\<close>

subsection \<open>The invariant of the front\<close>

text \<open>Own writes are delivered only after they were sent; \<open>sent\<close> is what was sent before.\<close>

fun causal :: "proc_id \<Rightarrow> write_op list \<Rightarrow> 'w front_act list \<Rightarrow> bool" where
  "causal i sent [] = True"
| "causal i sent (Issued argv w op # acts) = causal i (sent @ [op]) acts"
| "causal i sent (Delivered op ans # acts) \<longleftrightarrow> (origin op = i \<longrightarrow> op \<in> set sent) \<and> causal i sent acts"
| "causal i sent (Refused argv w r # acts) = causal i sent acts"

definition in_flight :: "proc_id \<Rightarrow> write_op list \<Rightarrow> write_op list \<Rightarrow> ('st, 'w) front \<Rightarrow> bool" where
  "in_flight i sent ops f \<longleftrightarrow>
     bt_ok (fr_pend f) \<and> map op_id sent = map (\<lambda>k. (i, of_nat k)) [0 ..< length sent]
     \<and> fr_next f = of_nat (length sent) \<and> (\<forall>op \<in> set ops. origin op = i \<longrightarrow> op \<in> set sent)
     \<and> (\<forall>rid. bt_get (fr_pend f) rid \<noteq> None \<longleftrightarrow> (\<exists>op \<in> set sent. request_id op = rid \<and> op \<notin> set ops))"

lemma in_flightD:
  assumes "in_flight i sent ops f"
  shows "bt_ok (fr_pend f)" "map op_id sent = map (\<lambda>k. (i, of_nat k)) [0 ..< length sent]"
    "fr_next f = of_nat (length sent)" "\<And>op. op \<in> set ops \<Longrightarrow> origin op = i \<Longrightarrow> op \<in> set sent"
    "\<And>rid. bt_get (fr_pend f) rid \<noteq> None \<longleftrightarrow> (\<exists>op \<in> set sent. request_id op = rid \<and> op \<notin> set ops)"
  using assms unfolding in_flight_def by blast+

text \<open>Ids name envelopes.\<close>

lemma sent_id:
  assumes "map op_id sent = map (\<lambda>k. (i, of_nat k)) [0 ..< length sent]" "op \<in> set sent"
  shows "\<exists>k < length sent. sent ! k = op \<and> op_id op = (i, of_nat k)"
proof -
  obtain k where k: "k < length sent" "sent ! k = op"
    using assms(2) by (auto simp: in_set_conv_nth)
  then have "op_id op = (i, of_nat k)"
    using arg_cong [OF assms(1), of "\<lambda>l. l ! k"] by simp
  with k show ?thesis by blast
qed

lemma sent_unique:
  assumes "map op_id sent = map (\<lambda>k. (i, of_nat k)) [0 ..< length sent]" "length sent < 2 ^ 64"
    and "op \<in> set sent" "op' \<in> set sent" "request_id op = request_id op'"
  shows "op = op'"
proof -
  obtain k where k: "k < length sent" "sent ! k = op" "op_id op = (i, of_nat k)"
    using sent_id [OF assms(1,3)] by blast
  obtain m where m: "m < length sent" "sent ! m = op'" "op_id op' = (i, of_nat m)"
    using sent_id [OF assms(1,4)] by blast
  have "(of_nat k :: u64) = of_nat m"
    using k(3) m(3) assms(5) by (simp add: op_id_def)
  then have "k = m"
    using k(1) m(1) assms(2) word_inj [of k m] by simp
  with k m show ?thesis by simp
qed

lemma sent_origin:
  "map op_id sent = map (\<lambda>k. (i, of_nat k)) [0 ..< length sent] \<Longrightarrow> op \<in> set sent \<Longrightarrow> origin op = i"
  using sent_id by (fastforce simp: op_id_def)

text \<open>An operation is applied exactly when its id is new.\<close>

lemma applied_iff_new:
  assumes "dedup_ok (fst (snd a))" "usable_id (op_id op)"
  shows "applied_reply S op a = None \<longleftrightarrow> op_id op \<in> seen (fst (snd a))"
  using first_seen_spec(2) [OF assms(1), of "request_id op" "origin op"] assms(2)
  by (auto simp: applied_reply_def apply_delivered_op_parts_def usable_id_def op_id_def Let_def
      split: prod.splits bool.splits)

lemma seen_after:
  assumes "dedup_ok (fst (snd a))" "list_all usable_id (map op_id ops)"
  shows "dedup_ok (fst (snd (app_run S ops a)))"
    "seen (fst (snd (app_run S ops a))) = seen (fst (snd a)) \<union> op_id ` set ops"
  using app_run_fresh [OF assms, of S "fst a" "snd (snd a)"] dedup_run_spec [OF assms] by simp_all

lemma in_flight_issue:
  assumes "in_flight i sent ops f" "broadcast_of E store argv i (fr_next f) op" "length sent < 2 ^ 64 - 1"
  shows "in_flight i (sent @ [op]) ops
    (f\<lparr>fr_pend := bt_insert (fr_next f) w (fr_pend f), fr_next := fr_next f + 1\<rparr>)"
proof -
  note inv = in_flightD [OF assms(1)]
  have id: "op_id op = (i, of_nat (length sent))"
    using broadcast_of_id [OF assms(2)] inv(3) by simp
  then have rid: "request_id op = of_nat (length sent)" "origin op = i"
    by (simp_all add: op_id_def)
  have old: "request_id op' \<noteq> of_nat (length sent)" if mem: "op' \<in> set sent" for op'
  proof
    assume eq: "request_id op' = of_nat (length sent)"
    obtain k where "k < length sent" "op_id op' = (i, of_nat k)"
      using sent_id [OF inv(2) mem] by blast
    then show False
      using eq assms(3) word_inj [of k "length sent"] by (auto simp: op_id_def)
  qed
  have "op \<notin> set ops"
    using inv(4) [of op] old [of op] rid by blast
  then have "bt_get (bt_insert (fr_next f) w (fr_pend f)) r \<noteq> None
      \<longleftrightarrow> (\<exists>op' \<in> set (sent @ [op]). request_id op' = r \<and> op' \<notin> set ops)" for r
    using inv(1,3) inv(5) [of r] rid by auto
  then show ?thesis
    using inv id by (auto simp: in_flight_def)
qed

text \<open>A delivery: an own write that is new finds its client, any other finds none.\<close>

lemma in_flight_delivery:
  assumes "in_flight i sent ops f" "length sent < 2 ^ 64"
    and "dedup_ok (fst (snd (fr_app f)))" "usable_id (op_id op)" "origin op = i \<longrightarrow> op \<in> set sent"
    and "seen (fst (snd (fr_app f))) = old \<union> op_id ` set ops" "\<And>rid. (i, rid) \<notin> old"
    and "front_step E i f (Delivered op ans) f'"
  shows "in_flight i sent (ops @ [op]) f'"
proof -
  note inv = in_flightD [OF assms(1)]
  have unique: "x = y" if "x \<in> set sent" "y \<in> set sent" "request_id x = request_id y" for x y
    by (rule sent_unique [OF inv(2) assms(2) that])
  have own: "origin x = i" if "x \<in> set sent" for x
    by (rule sent_origin [OF inv(2) that])
  have again: "op_id op \<in> seen (fst (snd (fr_app f))) \<longleftrightarrow> op \<in> set ops" if mine: "origin op = i"
  proof
    assume "op_id op \<in> seen (fst (snd (fr_app f)))"
    then obtain op' where op': "op' \<in> set ops" "op_id op' = op_id op"
      using assms(6) assms(7) [of "request_id op"] mine by (auto simp: op_id_def)
    then have "op' \<in> set sent" "op \<in> set sent"
      using inv(4) [OF op'(1)] assms(5) mine by (auto simp: op_id_def)
    with op' unique [of op' op] show "op \<in> set ops" by (auto simp: op_id_def)
  qed (use assms(6) in auto)
  have reply: "applied_reply (e_store E) op (fr_app f) = None \<longleftrightarrow> op_id op \<in> seen (fst (snd (fr_app f)))"
    by (rule applied_iff_new [OF assms(3,4)])
  have other: "op' \<notin> set (ops @ [op]) \<longleftrightarrow> op' \<notin> set ops"
    if "op' \<in> set sent" "origin op \<noteq> i \<or> op \<in> set ops" for op'
    using that own by auto
  show ?thesis
    using assms(8)
  proof (cases rule: front_step.cases)
    case (silent st d l res a)
    have "origin op \<noteq> i \<or> op \<in> set ops"
    proof (rule ccontr)
      assume new: "\<not> (origin op \<noteq> i \<or> op \<in> set ops)"
      then have "bt_get (fr_pend f) (request_id op) \<noteq> None"
        using inv(5) assms(5) by auto
      moreover have "applied_reply (e_store E) op (fr_app f) \<noteq> None"
        using new again reply by auto
      ultimately show False
        using silent new by (auto simp: applied_reply_def)
    qed
    then show ?thesis
      using inv other silent(2) unfolding in_flight_def by (auto simp: silent)
  next
    case (answer st d l r a w)
    then have op: "origin op = i" "op \<in> set sent" using assms(5) by simp_all
    have "bt_get (bt_remove (request_id op) (fr_pend f)) rid \<noteq> None
        \<longleftrightarrow> (\<exists>op' \<in> set sent. request_id op' = rid \<and> op' \<notin> set (ops @ [op]))" for rid
      using inv(1) inv(5) [of rid] unique [OF _ op(2)] op(2) by (auto split: if_splits)
    then show ?thesis
      using inv op(2) unfolding in_flight_def by (auto simp: answer)
  qed
qed

lemma front_run_in_flight:
  assumes "front_run E i f acts f'" "in_flight i sent ops f" "causal i sent acts"
    and "fr_app f = app_run (e_store E) ops a0" "dedup_ok (fst (snd a0))"
    and "\<And>rid. (i, rid) \<notin> seen (fst (snd a0))"
    and "list_all usable_id (map op_id (ops @ ops_of acts))" "length sent + length (asked acts) < 2 ^ 64"
  shows "in_flight i (sent @ sent_ops (issued acts)) (ops @ ops_of acts) f'"
  using assms(1-4,7,8)
proof (induction arbitrary: sent ops rule: front_run.induct)
  case (more f act f1 acts f2)
  show ?case
  proof (cases act)
    case (Refused argv w r)
    then have "f1 = f" using more.hyps(1) by (auto elim: front_step_cases)
    with more Refused show ?thesis by simp
  next
    case (Issued argv w op)
    then have b: "broadcast_of E (fst (fr_app f)) argv i (fr_next f) op"
      and f1: "f1 = f\<lparr>fr_pend := bt_insert (fr_next f) w (fr_pend f), fr_next := fr_next f + 1\<rparr>"
      using more.hyps(1) by (auto elim: front_step_cases)
    have "length sent < 2 ^ 64 - 1"
      using more.prems(5) Issued by simp
    from in_flight_issue [OF more.prems(1) b this, of w] have "in_flight i (sent @ [op]) ops f1"
      by (simp add: f1)
    from more.IH [OF this] more.prems show ?thesis
      by (simp add: Issued f1)
  next
    case (Delivered op ans)
    have app: "fr_app f1 = app_run (e_store E) (ops @ [op]) a0"
      using front_app_step [OF more.hyps(1)] more.prems(3) by (simp add: Delivered app_run_append)
    have use: "list_all usable_id (map op_id ops)" "usable_id (op_id op)"
      using more.prems(4) by (simp_all add: Delivered)
    note seen = seen_after [OF assms(5) use(1), of "e_store E", folded more.prems(3)]
    have "length sent < 2 ^ 64" using more.prems(5) by simp
    from in_flight_delivery [OF more.prems(1) this seen(1) use(2) _ seen(2) assms(6)
        more.hyps(1) [unfolded Delivered]]
    have "in_flight i sent (ops @ [op]) f1"
      using more.prems(2) by (simp add: Delivered)
    from more.IH [OF this _ app] more.prems show ?thesis
      by (simp add: Delivered)
  qed
qed simp

text \<open>Where requests come first, it is enough that what was delivered was sent by the end.\<close>

lemma causal_unissued:
  "issued acts = [] \<Longrightarrow> (\<And>op. op \<in> set (ops_of acts) \<Longrightarrow> origin op = i \<Longrightarrow> op \<in> set sent) \<Longrightarrow> causal i sent acts"
  by (induction acts rule: issued.induct) auto

lemma causal_first:
  assumes "issued (tl acts) = []"
    and "\<And>op. op \<in> set (ops_of acts) \<Longrightarrow> origin op = i \<Longrightarrow> op \<in> set (sent @ sent_ops (issued acts))"
  shows "causal i sent acts"
proof (cases "issued acts = []")
  case True
  then show ?thesis using assms(2) by (auto intro: causal_unissued)
next
  case False
  then obtain argv w op rest where "acts = Issued argv w op # rest"
    using assms(1) by (cases acts rule: issued.cases) auto
  then show ?thesis
    using assms by (auto intro!: causal_unissued)
qed


subsection \<open>The invariant of the driver\<close>

text \<open>
  What a core has delivered so far is in order for the node \<open>i\<close>: ids are usable (the last 64-bit
  number is not, see \<open>Dedup\<close>), and what carries the node's name was given to the core.
\<close>

definition orderly ::
  "'p wire \<Rightarrow> ('c \<Rightarrow> bytes list) \<Rightarrow> ('c \<Rightarrow> payload list) \<Rightarrow> proc_id \<Rightarrow> 'c \<Rightarrow> bool" where
  "orderly W gave hist i c \<longleftrightarrow>
     (\<forall>p \<in> set (hist c). case dec_op W (pl_data p) of
        None \<Rightarrow> True
      | Some op \<Rightarrow> usable_id (op_id op) \<and> (origin op = i \<longrightarrow> pl_data p \<in> set (gave c)))"

lemma orderly_ops:
  assumes "orderly W gave hist i c"
  shows "list_all usable_id (map op_id (decoded W (hist c)))"
    "op \<in> set (decoded W (hist c)) \<Longrightarrow> origin op = i \<Longrightarrow> \<exists>b \<in> set (gave c). dec_op W b = Some op"
  using assms by (fastforce simp: orderly_def list_all_iff decoded_mem)+

definition driver_in_flight ::
  "('c, 't, 'p, 'r, 'q, 'd, 'v, 'm, 'st, 'f) env \<Rightarrow> proc_id \<Rightarrow> ('c \<Rightarrow> bytes list) \<Rightarrow> ('c \<Rightarrow> payload list)
     \<Rightarrow> 'st app \<Rightarrow> ('c, 'd, 'v, 'st, 'w) driver_state \<Rightarrow> bool" where
  "driver_in_flight E i gave hist a0 st \<longleftrightarrow>
     (\<exists>sent. map (enc_op (e_wire E)) sent = map Inr (gave (d_core st))
        \<and> in_flight i sent (decoded (e_wire E) (hist (d_core st))) (front_of st)
        \<and> d_app st = app_run (e_store E) (decoded (e_wire E) (hist (d_core st))) a0)"

locale fresh_name = recorded_core K gave hist
  for K :: "('c, 't, 'p, 'r, 'q) kernel_ops" and gave :: "'c \<Rightarrow> bytes list" and hist :: "'c \<Rightarrow> payload list" +
  fixes W :: "'p wire" and i :: proc_id and a0 :: "'st app"
  assumes wire: "wire_laws W"
    and dedup: "dedup_ok (fst (snd a0))"
    and fresh: "(i, rid) \<notin> seen (fst (snd a0))"
begin

text \<open>Acts along a path of the core keep the invariant, if what is delivered is in order.\<close>

lemma acts_in_flight:
  fixes st :: "('c, 'd, 'v, 'st, 'w) driver_state" and f :: "('st, 'w) front"
  assumes "e_core E = K" "e_wire E = W"
    and "front_run E i f acts (front_of st)" "fr_app f = app_run (e_store E) (decoded W (hist c)) a0"
    and "in_flight i sent (decoded W (hist c)) f" "map (enc_op W) sent = map Inr (gave c)"
    and "core_path K c bs ps (d_core st)" "ops_of acts = decoded W ps"
    and "map (enc_op W) (sent_ops (issued acts)) = map Inr bs" "issued (tl acts) = []"
    and "orderly W gave hist i (d_core st)" "length sent + length (asked acts) < 2 ^ 64"
  shows "driver_in_flight E i gave hist a0 st"
proof -
  have rec: "gave (d_core st) = gave c @ bs" "hist (d_core st) = hist c @ ps"
    using record_path [OF assms(7)] by simp_all
  have all_sent: "map (enc_op W) (sent @ sent_ops (issued acts)) = map Inr (gave (d_core st))"
    by (simp add: rec assms(6,9))
  have "op \<in> set (sent @ sent_ops (issued acts))" if mine: "op \<in> set (ops_of acts)" "origin op = i" for op
  proof -
    obtain b where "b \<in> set (gave (d_core st))" "dec_op W b = Some op"
      using orderly_ops(2) [OF assms(11), of op] mine by (auto simp: rec assms(8))
    then show ?thesis by (rule sent_decodes [OF wire all_sent])
  qed
  then have "causal i sent acts" by (rule causal_first [OF assms(10)])
  moreover have "list_all usable_id (map op_id (decoded W (hist c) @ ops_of acts))"
    using orderly_ops(1) [OF assms(11)] by (simp add: rec assms(8))
  ultimately have "in_flight i (sent @ sent_ops (issued acts)) (decoded W (hist c) @ ops_of acts) (front_of st)"
    using front_run_in_flight [OF assms(3,5) _ assms(4) dedup fresh] assms(12) by blast
  moreover have "d_app st = app_run (e_store E) (decoded W (hist (d_core st))) a0"
    using front_app_run [OF assms(3)] assms(4,8) by (simp add: front_of_def rec app_run_append)
  ultimately show ?thesis
    unfolding driver_in_flight_def assms(2) using all_sent
    by (intro exI [of _ "sent @ sent_ops (issued acts)"]) (simp add: rec assms(8))
qed

lemma driver_step_in_flight:
  fixes st st' :: "('c, 'd, 'v, 'st, 'w) driver_state"
    and ef :: "('t, 'm, 'a, 'w) driver_effect list"
  assumes "e_core E = K" "e_wire E = W" "cfg_id cfg = i"
    and "driver_step E cfg ev st = Some (ef, st', b)" "driver_in_flight E i gave hist a0 st"
    and "orderly W gave hist i (d_core st')" "length (gave (d_core st)) < 2 ^ 64 - 1"
  shows "driver_in_flight E i gave hist a0 st' \<and> length (gave (d_core st')) \<le> length (gave (d_core st)) + 1"
proof -
  obtain acts bs ps where acts: "front_run E i (front_of st) acts (front_of st')"
    "asked acts = writers [ev]" "issued (tl acts) = []"
    "core_path (e_core E) (d_core st) bs ps (d_core st')" "ops_of acts = decoded (e_wire E) ps"
    "map (enc_op (e_wire E)) (sent_ops (issued acts)) = map Inr bs"
    using driver_step_serves [OF assms(4)] unfolding serves_event_def assms(3) by blast
  obtain sent where sent: "map (enc_op W) sent = map Inr (gave (d_core st))"
    "in_flight i sent (decoded W (hist (d_core st))) (front_of st)"
    "d_app st = app_run (e_store E) (decoded W (hist (d_core st))) a0"
    using assms(2,5) by (auto simp: driver_in_flight_def)
  have one: "length (asked acts) \<le> 1"
    using acts(2) writers_length [of "[ev]"] by simp
  have "length (issued acts) \<le> 1"
    using list_emb_length [OF issued_asked [of acts]] one by (simp add: requests_of_def)
  then have bs: "length bs \<le> 1"
    using arg_cong [OF acts(6), of length] by simp
  have "length sent + length (asked acts) < 2 ^ 64"
    using one assms(7) arg_cong [OF sent(1), of length] by simp
  from acts_in_flight [OF assms(1,2) acts(1) _ sent(2,1) acts(4) [unfolded assms(1)]
      acts(5) [unfolded assms(2)] acts(6) [unfolded assms(2)] acts(3) assms(6) this]
  show ?thesis
    using sent(3) bs record_path [OF acts(4) [unfolded assms(1)]] by (simp add: front_of_def)
qed

lemma driver_run_in_flight:
  fixes st st' :: "('c, 'd, 'v, 'st, 'w) driver_state"
    and ef :: "('t, 'm, 'a, 'w) driver_effect list"
  assumes "e_core E = K" "e_wire E = W" "cfg_id cfg = i"
    and "driver_run E cfg evs st = Some (ef, st', b)" "driver_in_flight E i gave hist a0 st"
    and "\<And>evs' (ef' :: ('t, 'm, 'a, 'w) driver_effect list) s b'. evs' \<in> set (prefixes evs)
      \<Longrightarrow> driver_run E cfg evs' st = Some (ef', s, b') \<Longrightarrow> orderly W gave hist i (d_core s)"
    and "length (gave (d_core st)) + length evs < 2 ^ 64"
  shows "driver_in_flight E i gave hist a0 st'"
  using assms(4-7)
proof (induction evs arbitrary: st ef)
  case (Cons ev evs)
  obtain ef1 st1 go where s: "driver_step E cfg ev st = Some (ef1, st1, go)"
    using Cons.prems(1) by (auto split: option.splits)
  have "driver_run E cfg [ev] st = Some (ef1, st1, go)"
    using s by (cases go) simp_all
  then have "orderly W gave hist i (d_core st1)"
    using Cons.prems(3) [of "[ev]"] by simp
  from driver_step_in_flight [OF assms(1-3) s Cons.prems(2) this]
  have one: "driver_in_flight E i gave hist a0 st1" "length (gave (d_core st1)) \<le> length (gave (d_core st)) + 1"
    using Cons.prems(4) by simp_all
  show ?case
  proof (cases go)
    case False
    then show ?thesis using Cons.prems(1) s one by simp
  next
    case True
    then obtain ef2 where r: "driver_run E cfg evs st1 = Some (ef2, st', b)"
      using Cons.prems(1) s by (auto split: option.splits)
    show ?thesis
    proof (rule Cons.IH [OF r one(1)])
      fix evs' and ef' :: "('t, 'm, 'a, 'w) driver_effect list" and s b'
      assume "evs' \<in> set (prefixes evs)" "driver_run E cfg evs' st1 = Some (ef', s, b')"
      then show "orderly W gave hist i (d_core s)"
        using Cons.prems(3) [of "ev # evs'" "ef1 @ ef'" s b'] True \<open>driver_step E cfg ev st = _\<close> by simp
    qed (use one(2) Cons.prems(4) in simp)
  qed
qed simp

lemma driver_init_in_flight:
  fixes st :: "('c, 'd, 'v, 'st, 'w) driver_state" and ef :: "('t, 'm, 'a, 'w) driver_effect list"
  assumes "e_core E = K" "e_wire E = W" "cfg_id cfg = i"
    and "driver_init E cfg core store promote = Some (ef, st)" "a0 = start_app promote store"
    and "gave core = []" "hist core = []" "orderly W gave hist i (d_core st)"
  shows "driver_in_flight E i gave hist a0 st \<and> gave (d_core st) = []"
proof -
  obtain acts ps where acts: "front_run E i (start_front promote store) acts (front_of st)"
    "asked acts = []" "core_path (e_core E) core [] ps (d_core st)" "ops_of acts = decoded (e_wire E) ps"
    using driver_init_front [OF assms(4)] unfolding assms(3) by blast
  have iss: "issued acts = []" "issued (tl acts) = []"
    using issued_unasked [OF acts(2)] issued_tl by auto
  have start: "in_flight i [] (decoded W (hist core)) (start_front promote store)"
    by (simp add: in_flight_def start_front_def assms(7))
  have app: "fr_app (start_front promote store) = app_run (e_store E) (decoded W (hist core)) a0"
    by (simp add: start_front_def assms(5,7))
  have "driver_in_flight E i gave hist a0 st"
    using acts_in_flight [OF assms(1,2) acts(1) app start _ acts(3) [unfolded assms(1)]
        acts(4) [unfolded assms(2)] _ iss(2) assms(8)] iss acts(2) assms(6) by simp
  then show ?thesis
    using record_path [OF acts(3) [unfolded assms(1)]] assms(6) by simp
qed

end

text \<open>A node with a fresh deduplication state, on any core with its record.\<close>

interpretation cold_node:
  fresh_name "recording K" "\<lambda>s. fst (snd s)" "\<lambda>s. snd (snd s)" wire0 i "(store, dedup_new, log_default)"
  for K i store
  by unfold_locales (auto simp: ref_wire_nat.wire_laws_axioms dedup_ok_new seen_new)

subsection \<open>The invariant over a life\<close>

text \<open>At every moment of the life what the core has delivered was in order.\<close>

definition orderly_life ::
  "('c \<Rightarrow> bytes list) \<Rightarrow> ('c \<Rightarrow> payload list)
     \<Rightarrow> ('c, 't, 'p, 'r, 'q, 'd, 'v, 'm, 'st, 'f, 'a, 'w) node_life \<Rightarrow> bool" where
  "orderly_life gave hist n \<longleftrightarrow>
     (\<forall>evs \<in> set (prefixes (nl_events n)).
        case life_of (nl_env n) (nl_cfg n) (nl_core n) (nl_store n) (nl_promote n) evs of
          None \<Rightarrow> True
        | Some m \<Rightarrow> orderly (e_wire (nl_env n)) gave hist (cfg_id (nl_cfg n)) (d_core (nl_state m)))"

text \<open>The node starts with a deduplication state that holds none of its own ids.\<close>

definition new_name :: "('c, 't, 'p, 'r, 'q, 'd, 'v, 'm, 'st, 'f, 'a, 'w) node_life \<Rightarrow> bool" where
  "new_name n \<longleftrightarrow>
     dedup_ok (fst (snd (start_app (nl_promote n) (nl_store n))))
     \<and> cfg_id (nl_cfg n) \<notin> fst ` seen (fst (snd (start_app (nl_promote n) (nl_store n))))"

lemma life_in_flight:
  assumes "lived n" "recorded_core (e_core (nl_env n)) gave hist"
    and "gave (nl_core n) = []" "hist (nl_core n) = []" "wire_laws (e_wire (nl_env n))"
    and "new_name n" "orderly_life gave hist n" "length (nl_events n) < 2 ^ 64"
  shows "driver_in_flight (nl_env n) (cfg_id (nl_cfg n)) gave hist
    (start_app (nl_promote n) (nl_store n)) (nl_state n)"
proof -
  let ?E = "nl_env n" and ?cfg = "nl_cfg n" and ?a = "start_app (nl_promote n) (nl_store n)"
  obtain ef0 st0 ef b where l:
    "driver_init ?E ?cfg (nl_core n) (nl_store n) (nl_promote n) = Some (ef0, st0)"
    "driver_run ?E ?cfg (nl_events n) st0 = Some (ef, nl_state n, b)"
    by (rule livedE [OF assms(1)])
  have order: "orderly (e_wire ?E) gave hist (cfg_id ?cfg) (d_core s)"
    if "evs \<in> set (prefixes (nl_events n))" "driver_run ?E ?cfg evs st0 = Some (ef', s, b')" for evs ef' s b'
    using bspec [OF assms(7) [unfolded orderly_life_def] that(1)] l(1) that(2) by (simp add: life_of_def)
  have N: "fresh_name (e_core ?E) gave hist (e_wire ?E) (cfg_id ?cfg) ?a"
    using assms(2,5,6)
    by (intro fresh_name.intro fresh_name_axioms.intro) (force simp: new_name_def)+
  have "orderly (e_wire ?E) gave hist (cfg_id ?cfg) (d_core st0)"
    by (rule order [of "[]"]) simp_all
  from fresh_name.driver_init_in_flight [OF N refl refl refl l(1) refl assms(3,4) this]
  have start: "driver_in_flight ?E (cfg_id ?cfg) gave hist ?a st0" "gave (d_core st0) = []" by simp_all
  show ?thesis
    by (rule fresh_name.driver_run_in_flight [OF N refl refl refl l(2) start(1) order])
      (use start(2) assms(8) in simp_all)
qed

text \<open>Read off for the table of the driver.\<close>

lemma waiting_in_flight:
  assumes "driver_in_flight E i gave hist a0 st" "wire_laws (e_wire E)"
  shows "bt_get (d_pending st) rid \<noteq> None \<longleftrightarrow>
    (\<exists>b \<in> set (gave (d_core st)). \<exists>op. dec_op (e_wire E) b = Some op \<and> op_id op = (i, rid)
       \<and> op \<notin> set (decoded (e_wire E) (hist (d_core st))))"
proof -
  obtain sent where enc: "map (enc_op (e_wire E)) sent = map Inr (gave (d_core st))"
    and inv: "in_flight i sent (decoded (e_wire E) (hist (d_core st))) (front_of st)"
    using assms(1) by (auto simp: driver_in_flight_def)
  have sent: "op \<in> set sent \<longleftrightarrow> (\<exists>b \<in> set (gave (d_core st)). dec_op (e_wire E) b = Some op)" for op
  proof
    assume "op \<in> set sent"
    then have "enc_op (e_wire E) op \<in> set (map Inr (gave (d_core st)))"
      unfolding enc [symmetric] by simp
    then show "\<exists>b \<in> set (gave (d_core st)). dec_op (e_wire E) b = Some op"
      using wire_laws.dec_enc_op [OF assms(2)] by fastforce
  qed (use sent_decodes [OF assms(2) enc] in blast)
  have "bt_get (d_pending st) rid \<noteq> None \<longleftrightarrow>
      (\<exists>op \<in> set sent. request_id op = rid \<and> op \<notin> set (decoded (e_wire E) (hist (d_core st))))"
    using in_flightD(5) [OF inv, of rid] by (simp add: front_of_def)
  also have "\<dots> \<longleftrightarrow>
      (\<exists>op. op \<in> set sent \<and> op_id op = (i, rid) \<and> op \<notin> set (decoded (e_wire E) (hist (d_core st))))"
    using sent_origin [OF in_flightD(2) [OF inv]] by (auto simp: op_id_def)
  finally show ?thesis
    unfolding sent by blast
qed

lemma bt_all_none:
  assumes "\<And>k. bt_get m k = None"
  shows "m = []"
  using assms [of "fst (hd m)"] by (cases m) (auto simp: bt_get_def)

text \<open>The account of a life: what was asked was answered or waits.\<close>

lemma life_account:
  fixes n :: "('c, 't, 'p, 'r, 'q, 'd, 'v, 'm, 'st, 'f, 'a, 'w) node_life"
  assumes "lived n" "length (nl_events n) < 2 ^ 64"
  shows "\<exists>handled rest. nl_events n = handled @ rest
    \<and> mset (map snd (writers handled))
        = mset (map fst (replies_of (nl_effects n))) + mset (map snd (d_pending (nl_state n)))"
proof -
  let ?f = "start_front (nl_promote n) (nl_store n) :: ('st, 'w) front"
  obtain ef0 st0 ef b where l:
    "driver_init (nl_env n) (nl_cfg n) (nl_core n) (nl_store n) (nl_promote n) = Some (ef0, st0)"
    "driver_run (nl_env n) (nl_cfg n) (nl_events n) st0 = Some (ef, nl_state n, b)"
    "nl_effects n = ef0 @ ef"
    by (rule livedE [OF assms(1)])
  obtain handled rest acts where h: "nl_events n = handled @ rest"
    and run: "front_run (nl_env n) (cfg_id (nl_cfg n)) ?f acts (front_of (nl_state n))"
    and acts: "answered acts = replies_of (ef0 @ ef)" "asked acts = writers handled"
    by (rule driver_life [OF l(1,2)])
  have fresh: "pend_ok ?f" "waiting ?f = {#}" "fr_next ?f = 0"
    by (simp_all add: start_front_def pend_ok_def waiting_def)
  have "unat (fr_next ?f) + length (asked acts) < 2 ^ 64"
    using assms(2) h writers_length [of handled] fresh(3) by (simp add: acts(2))
  from front_run_account [OF run fresh(1) this] have
    "mset (map snd (writers handled))
       = mset (map fst (replies_of (ef0 @ ef))) + mset (map snd (d_pending (nl_state n)))"
    by (simp add: acts fresh(2)) (simp add: waiting_def front_of_def)
  then show ?thesis using h l(3) by metis
qed

end
