(* ===== verification/Cluster_Claims.thy ===== *)
theory Cluster_Claims
  imports Cluster
begin

section \<open>Claims about the nodes of a ring together\<close>

text \<open>
  The two promises of the whole system: the nodes are copies of one store, and their clients are
  answered as by one store. Both rest on what the ordering core documents, a total order of all
  that is delivered, stated on the record of each node's core (\<open>on_ring\<close>, \<open>own_name\<close>). The witnesses
  run three drivers on the echo core with its record.
\<close>

text \<open>
  C2: the nodes of a ring are copies of one store: when their cores deliver one sequence and each
  node joined at some place of it with the ring's state there (at the start, or as a promoted
  standby), each node's store and deduplication state are what the sequence up to its place makes of
  the ring's start; nodes at the same place have equal ones, and a node that is behind needs just the
  part of the sequence between the two places to have those of the other, whatever client requests,
  ticks, crashes and view changes each of them handled.
\<close>

theorem cluster_converges:
  fixes N :: "('c, 't, 'p, 'r, 'q, 'd, 'v, 'm, 'st, 'f, 'a, 'w) node_life set"
  assumes "\<forall>n \<in> N. lived n \<and> on_ring gave hist L (base n) n \<and> joined_at L a0 (base n) n
      \<and> e_store (nl_env n) = S \<and> e_wire (nl_env n) = W"
  shows "\<forall>m \<in> N. \<forall>n \<in> N. let j = ring_place hist (base m) m; k = ring_place hist (base n) n in
    store_data (d_app (nl_state m)) = store_data (app_run S (decoded W (take j L)) a0)
    \<and> (j = k \<longrightarrow> d_store (nl_state m) = d_store (nl_state n) \<and> d_dedup (nl_state m) = d_dedup (nl_state n))
    \<and> (j \<le> k \<longrightarrow> store_data (d_app (nl_state n))
         = store_data (app_run S (decoded W (take (k - j) (drop j L))) (d_app (nl_state m))))"
proof (intro ballI)
  fix m n assume mn: "m \<in> N" "n \<in> N"
  let ?j = "ring_place hist (base m) m" and ?k = "ring_place hist (base n) n"
  have state: "store_data (d_app (nl_state x))
      = store_data (app_run S (decoded W (take (ring_place hist (base x) x) L)) a0)" if "x \<in> N" for x
    using life_state [of x gave hist L "base x" a0] assms that by auto
  have same: "d_store (nl_state m) = d_store (nl_state n) \<and> d_dedup (nl_state m) = d_dedup (nl_state n)"
    if "?j = ?k"
    using state [OF mn(1)] state [OF mn(2)] that by (simp add: store_data_def d_app_def)
  have ahead: "store_data (d_app (nl_state n))
      = store_data (app_run S (decoded W (take (?k - ?j) (drop ?j L))) (d_app (nl_state m)))" if "?j \<le> ?k"
    using state [OF mn(2)] app_run_data [OF state [OF mn(1)]] that prefix_decoded [of W ?j "?k - ?j" L]
    by (simp add: app_run_append)
  show "let j = ?j; k = ?k in
    store_data (d_app (nl_state m)) = store_data (app_run S (decoded W (take j L)) a0)
    \<and> (j = k \<longrightarrow> d_store (nl_state m) = d_store (nl_state n) \<and> d_dedup (nl_state m) = d_dedup (nl_state n))
    \<and> (j \<le> k \<longrightarrow> store_data (d_app (nl_state n))
         = store_data (app_run S (decoded W (take (k - j) (drop j L))) (d_app (nl_state m))))"
    unfolding Let_def using state [OF mn(1)] same ahead by blast
qed

text \<open>
  C3: the ring answers as one store: under the hypotheses on the order above, and as long as what
  comes under a node's name is what that node gave its core, every reply any client gets at any node
  is one decided at once on a store the common order passes through, or the result, at its place in
  that order, of the very request that client made: its own envelope, resolved on an earlier store of
  the same order. For a plain write that is what the client's command returns on the store at that
  place.
\<close>

theorem writes_linearized:
  fixes N :: "('c, 't, 'p, 'r, 'q, 'd, 'v, 'm, 'st, 'f, 'a, 'w) node_life set"
  assumes "\<forall>n \<in> N. lived n \<and> on_ring gave hist L (base n) n \<and> joined_at L a0 (base n) n
      \<and> own_name gave L (base n) n \<and> e_wire (nl_env n) = W \<and> length (nl_events n) < 2 ^ 64"
    and "wire_laws W"
  shows "\<forall>n \<in> N. \<forall>ans \<in> set (replies_of (nl_effects n)).
    linearized (nl_env n) (cfg_id (nl_cfg n)) a0 (decoded W L) (writers (nl_events n)) ans"
proof (intro ballI)
  fix n ans assume n: "n \<in> N" and ans: "ans \<in> set (replies_of (nl_effects n))"
  obtain w r where "ans = (w, r)" by fastforce
  then show "linearized (nl_env n) (cfg_id (nl_cfg n)) a0 (decoded W L) (writers (nl_events n)) ans"
    using life_linearized [of n gave hist L "base n" a0 w r] bspec [OF assms(1) n] ans assms(2) by simp
qed

subsection \<open>Three nodes of a ring\<close>

text \<open>
  Node 0 broadcasts a client's write and gets it back, node 1 gets it, node 2 joins after it with a
  survivor's state. The core is the echo core with its record.
\<close>

definition ring_env_on ::
  "'st store_ops
     \<Rightarrow> (nat \<times> bytes list \<times> payload list, bytes, nat, nat, nat, nat, nat, nat, 'st, int option) env" where
  "ring_env_on S =
     \<lparr>e_core = recording echo_kernel, e_det = count_detector, e_vc = send_vc, e_wire = wire0,
      e_store = S, e_float = int_floats, e_ring_size = 3, e_num_trains = 1\<rparr>"

abbreviation ring_env ::
  "(nat \<times> bytes list \<times> payload list, bytes, nat, nat, nat, nat, nat, nat, mem_store, int option) env" where
  "ring_env \<equiv> ring_env_on mem0"

definition ring_cfg :: "proc_id \<Rightarrow> nat driver_cfg" where
  "ring_cfg i = \<lparr>cfg_id = i, cfg_issue_initial = False, cfg_ring_addrs = [0, 1, 2]\<rparr>"

definition ring_write :: bytes where
  "ring_write = cput c_write_op (op_set 0 0 ''k'' ''v'')"

definition ring_seed :: "write_dedup \<Rightarrow> u64 \<Rightarrow> nat promote_seed" where
  "ring_seed d h =
     \<lparr>seed_dedup = d, seed_log = log_run h 2 [], seed_protocol = 0,
      seed_view = \<lparr>vi_installed_view = 0, vi_dead = []\<rparr>\<rparr>"

text \<open>The state such a node starts its loop in, and its life.\<close>

definition ring_start ::
  "proc_id \<Rightarrow> 'st \<Rightarrow> write_dedup \<Rightarrow> u64
     \<Rightarrow> (nat \<times> bytes list \<times> payload list, nat, nat, 'st, nat) driver_state" where
  "ring_start i store d h =
     \<lparr>d_core = (1, [], []), d_store = store, d_pending = [], d_next_rid = 0, d_dedup = d,
      d_log = log_run h 2 [], d_detector = 0, d_vc = 0, d_dead = [], d_succ = (unat i + 1) mod 3\<rparr>"

lemma ring_init:
  "driver_init (ring_env_on S) (ring_cfg i) (0, [], []) store (Some (ring_seed d h))
     = Some ([SendVc 9], ring_start i store d h)"
  by (simp add: driver_init_def adopt_seed_def request_readmission_def driver_new_def ring_env_on_def
      ring_cfg_def ring_seed_def ring_start_def recording_def echo_kernel_def send_vc_def
      count_detector_def ring_n_def reconfig_def next_alive_def next_alive_loop.simps bs_contains_def
      Let_def)

definition ring_life_on ::
  "'st store_ops \<Rightarrow> proc_id \<Rightarrow> 'st \<Rightarrow> write_dedup \<Rightarrow> u64 \<Rightarrow> (bytes, nat, nat, nat) driver_event list
     \<Rightarrow> (bytes, nat, nat, nat) driver_effect list
     \<Rightarrow> (nat \<times> bytes list \<times> payload list, nat, nat, 'st, nat) driver_state
     \<Rightarrow> (nat \<times> bytes list \<times> payload list, bytes, nat, nat, nat, nat, nat, nat, 'st, int option,
         nat, nat) node_life" where
  "ring_life_on S i store d h evs ef st =
     \<lparr>nl_env = ring_env_on S, nl_cfg = ring_cfg i, nl_core = (0, [], []), nl_store = store,
      nl_promote = Some (ring_seed d h), nl_events = evs, nl_effects = SendVc 9 # ef, nl_state = st\<rparr>"

abbreviation ring_life ::
  "proc_id \<Rightarrow> mem_store \<Rightarrow> write_dedup \<Rightarrow> u64 \<Rightarrow> (bytes, nat, nat, nat) driver_event list
     \<Rightarrow> (bytes, nat, nat, nat) driver_effect list
     \<Rightarrow> (nat \<times> bytes list \<times> payload list, nat, nat, mem_store, nat) driver_state
     \<Rightarrow> (nat \<times> bytes list \<times> payload list, bytes, nat, nat, nat, nat, nat, nat, mem_store, int option,
         nat, nat) node_life" where
  "ring_life \<equiv> ring_life_on mem0"

lemma ring_life_parts [simp]:
  "nl_env (ring_life_on S i store d h evs ef st) = ring_env_on S"
  "nl_cfg (ring_life_on S i store d h evs ef st) = ring_cfg i"
  "nl_core (ring_life_on S i store d h evs ef st) = (0, [], [])"
  "nl_store (ring_life_on S i store d h evs ef st) = store"
  "nl_promote (ring_life_on S i store d h evs ef st) = Some (ring_seed d h)"
  "nl_events (ring_life_on S i store d h evs ef st) = evs" "nl_state (ring_life_on S i store d h evs ef st) = st"
  by (simp_all add: ring_life_on_def)

lemma ring_life_of:
  "life_of (ring_env_on S) (ring_cfg i) (0, [], []) store (Some (ring_seed d h)) evs
     = map_option (\<lambda>(ef, st, b). ring_life_on S i store d h evs ef st)
         (driver_run (ring_env_on S) (ring_cfg i) evs (ring_start i store d h))"
  by (auto simp: life_of_def ring_init ring_life_on_def split: Option.bind_splits)

lemma ring_lived:
  "driver_run (ring_env_on S) (ring_cfg i) evs (ring_start i store d h) = Some (ef, st, b)
     \<Longrightarrow> lived (ring_life_on S i store d h evs ef st)"
  by (simp add: lived_def life_of_def ring_life_on_def ring_init)

text \<open>The common order is the one write; the third node joins after it.\<close>

definition ring_order :: "payload list" where
  "ring_order = [\<lparr>pl_data = ring_write\<rparr>]"

definition ring_origin :: "mem_store app" where
  "ring_origin = (mem_new, dedup_new, log_run 0 2 [])"

definition ring_after :: "mem_store app" where
  "ring_after = app_run mem0 [op_set 0 0 ''k'' ''v''] ring_origin"

definition ring_base ::
  "(nat \<times> bytes list \<times> payload list, bytes, nat, nat, nat, nat, nat, nat, mem_store, int option,
    nat, nat) node_life \<Rightarrow> nat" where
  "ring_base n = (if cfg_id (nl_cfg n) = 2 then 1 else 0)"

definition ring_events :: "proc_id \<Rightarrow> (bytes, nat, nat, nat) driver_event list" where
  "ring_events i =
     (if i = 0 then [EvWrite [''SET'', ''k'', ''v''] 41, EvTick, EvTrain ring_write]
      else if i = 1 then [EvTrain ring_write] else [EvTick])"

lemma ring_parts:
  "e_wire (ring_env_on S) = wire0" "e_store (ring_env_on S) = S"
  "e_core (ring_env_on S) = recording echo_kernel"
  by (simp_all add: ring_env_on_def)

lemma ring_decoded: "decoded wire0 ring_order = [op_set 0 0 ''k'' ''v'']"
  by code_simp

text \<open>What each of them needs to be a node of that ring.\<close>

definition ring_ok ::
  "(nat \<times> bytes list \<times> payload list, bytes, nat, nat, nat, nat, nat, nat, mem_store, int option,
    nat, nat) node_life \<Rightarrow> bool" where
  "ring_ok n \<longleftrightarrow> lived n \<and> on_ring (\<lambda>s. fst (snd s)) (\<lambda>s. snd (snd s)) ring_order (ring_base n) n
     \<and> joined_at ring_order ring_origin (ring_base n) n
     \<and> own_name (\<lambda>s. fst (snd s)) ring_order (ring_base n) n
     \<and> nl_env n = ring_env \<and> length (nl_events n) < 2 ^ 64"

lemma ring_okD:
  assumes "ring_ok n"
  shows "lived n" "on_ring (\<lambda>s. fst (snd s)) (\<lambda>s. snd (snd s)) ring_order (ring_base n) n"
    "joined_at ring_order ring_origin (ring_base n) n"
    "own_name (\<lambda>s. fst (snd s)) ring_order (ring_base n) n"
    "e_store (nl_env n) = mem0" "e_wire (nl_env n) = wire0" "length (nl_events n) < 2 ^ 64"
  using assms by (simp_all add: ring_ok_def ring_parts)

lemma ring_ok_early:
  assumes "driver_run ring_env (ring_cfg i) (ring_events i) (ring_start i mem_new dedup_new 0) = Some (ef, st, b)"
    and "snd (d_core st) = ((if i = 0 then [ring_write] else []), ring_order)" "i \<noteq> 2"
  shows "ring_ok (ring_life i mem_new dedup_new 0 (ring_events i) ef st)"
  using ring_lived [OF assms(1)] assms(2,3) ring_decoded
  by (auto simp: ring_ok_def on_ring_def joined_at_def own_name_def ring_life_on_def ring_base_def
      ring_cfg_def ring_order_def ring_parts ring_seed_def start_app_def ring_origin_def store_data_def
      ring_events_def recorded.recorded_core_axioms op_set_def write_op_new_def
      split: option.splits if_splits)

lemma ring_ok_late:
  assumes "driver_run ring_env (ring_cfg 2) (ring_events 2)
      (ring_start 2 (fst ring_after) (fst (snd ring_after)) 1) = Some (ef, st, b)"
    and "snd (d_core st) = ([], [])"
  shows "ring_ok (ring_life 2 (fst ring_after) (fst (snd ring_after)) 1 (ring_events 2) ef st)"
  using ring_lived [OF assms(1)] assms(2) ring_decoded
  by (auto simp: ring_ok_def on_ring_def joined_at_def own_name_def ring_life_on_def ring_base_def
      ring_cfg_def ring_order_def ring_parts ring_seed_def start_app_def ring_after_def store_data_def
      ring_events_def recorded.recorded_core_axioms split: option.splits if_splits)

subsection \<open>The claims at that ring\<close>

lemma ring_runs:
  "\<exists>ef st. driver_run ring_env (ring_cfg 0) (ring_events 0) (ring_start 0 mem_new dedup_new 0)
       = Some (ef :: (bytes, nat, nat, nat) driver_effect list, st, True)
     \<and> replies_of ef = [(41, reply_ok)] \<and> snd (d_core st) = ([ring_write], ring_order)"
  "\<exists>ef st. driver_run ring_env (ring_cfg 1) (ring_events 1) (ring_start 1 mem_new dedup_new 0)
       = Some (ef :: (bytes, nat, nat, nat) driver_effect list, st, True)
     \<and> snd (d_core st) = ([], ring_order)"
  "\<exists>ef st. driver_run ring_env (ring_cfg 2) (ring_events 2)
         (ring_start 2 (fst ring_after) (fst (snd ring_after)) 1)
       = Some (ef :: (bytes, nat, nat, nat) driver_effect list, st, True)
     \<and> snd (d_core st) = ([], [])"
proof -
  have *: "map_option (\<lambda>(ef, st, b). (replies_of ef, snd (d_core st), b))
      (driver_run ring_env (ring_cfg 0) (ring_events 0) (ring_start 0 mem_new dedup_new 0))
      = Some ([(41, reply_ok)], ([ring_write], ring_order), True)"
    "map_option (\<lambda>(ef, st, b). (replies_of ef, snd (d_core st), b))
      (driver_run ring_env (ring_cfg 1) (ring_events 1) (ring_start 1 mem_new dedup_new 0))
      = Some ([], ([], ring_order), True)"
    "map_option (\<lambda>(ef, st, b). (replies_of ef, snd (d_core st), b))
      (driver_run ring_env (ring_cfg 2) (ring_events 2)
         (ring_start 2 (fst ring_after) (fst (snd ring_after)) 1))
      = Some ([], ([], []), True)"
    by code_simp+
  from *(1) show "\<exists>ef st. driver_run ring_env (ring_cfg 0) (ring_events 0) (ring_start 0 mem_new dedup_new 0)
       = Some (ef :: (bytes, nat, nat, nat) driver_effect list, st, True)
     \<and> replies_of ef = [(41, reply_ok)] \<and> snd (d_core st) = ([ring_write], ring_order)"
    by auto
  from *(2) show "\<exists>ef st. driver_run ring_env (ring_cfg 1) (ring_events 1) (ring_start 1 mem_new dedup_new 0)
       = Some (ef :: (bytes, nat, nat, nat) driver_effect list, st, True)
     \<and> snd (d_core st) = ([], ring_order)"
    by auto
  from *(3) show "\<exists>ef st. driver_run ring_env (ring_cfg 2) (ring_events 2)
         (ring_start 2 (fst ring_after) (fst (snd ring_after)) 1)
       = Some (ef :: (bytes, nat, nat, nat) driver_effect list, st, True)
     \<and> snd (d_core st) = ([], [])"
    by auto
qed

theorem cluster_converges_witness:
  "\<exists>ef0 st0 ef1 st1 ef2 st2.
     driver_run ring_env (ring_cfg 0) (ring_events 0) (ring_start 0 mem_new dedup_new 0)
       = Some (ef0 :: (bytes, nat, nat, nat) driver_effect list, st0, True)
     \<and> driver_run ring_env (ring_cfg 1) (ring_events 1) (ring_start 1 mem_new dedup_new 0)
       = Some (ef1 :: (bytes, nat, nat, nat) driver_effect list, st1, True)
     \<and> driver_run ring_env (ring_cfg 2) (ring_events 2)
         (ring_start 2 (fst ring_after) (fst (snd ring_after)) 1)
       = Some (ef2 :: (bytes, nat, nat, nat) driver_effect list, st2, True)
     \<and> d_store st0 = d_store st1 \<and> d_dedup st0 = d_dedup st1
     \<and> d_store st0 = d_store st2 \<and> d_dedup st0 = d_dedup st2"
proof -
  obtain ef0 st0 where r0:
    "driver_run ring_env (ring_cfg 0) (ring_events 0) (ring_start 0 mem_new dedup_new 0)
       = Some (ef0 :: (bytes, nat, nat, nat) driver_effect list, st0, True)"
    "snd (d_core st0) = ([ring_write], ring_order)"
    using ring_runs(1) by blast
  obtain ef1 st1 where r1:
    "driver_run ring_env (ring_cfg 1) (ring_events 1) (ring_start 1 mem_new dedup_new 0)
       = Some (ef1 :: (bytes, nat, nat, nat) driver_effect list, st1, True)"
    "snd (d_core st1) = ([], ring_order)"
    using ring_runs(2) by blast
  obtain ef2 st2 where r2:
    "driver_run ring_env (ring_cfg 2) (ring_events 2)
         (ring_start 2 (fst ring_after) (fst (snd ring_after)) 1)
       = Some (ef2 :: (bytes, nat, nat, nat) driver_effect list, st2, True)"
    "snd (d_core st2) = ([], [])"
    using ring_runs(3) by blast
  define n0 where "n0 = ring_life 0 mem_new dedup_new 0 (ring_events 0) ef0 st0"
  define n1 where "n1 = ring_life 1 mem_new dedup_new 0 (ring_events 1) ef1 st1"
  define n2 where "n2 = ring_life 2 (fst ring_after) (fst (snd ring_after)) 1 (ring_events 2) ef2 st2"
  have "ring_ok n0" "ring_ok n1" "ring_ok n2"
    using ring_ok_early [OF r0(1)] ring_ok_early [OF r1(1)] ring_ok_late [OF r2] r0(2) r1(2)
    by (simp_all add: n0_def n1_def n2_def)
  then have ok: "ring_ok n" if "n \<in> {n0, n1, n2}" for n using that by blast
  have place: "ring_place (\<lambda>s. snd (snd s)) (ring_base n) n = 1" if "n \<in> {n0, n1, n2}" for n
    using that r0(2) r1(2) r2(2)
    by (auto simp: n0_def n1_def n2_def ring_place_def ring_base_def ring_life_on_def ring_cfg_def ring_order_def)
  have "\<forall>n \<in> {n0, n1, n2}. lived n
      \<and> on_ring (\<lambda>s. fst (snd s)) (\<lambda>s. snd (snd s)) ring_order (ring_base n) n
      \<and> joined_at ring_order ring_origin (ring_base n) n
      \<and> e_store (nl_env n) = mem0 \<and> e_wire (nl_env n) = wire0"
    by (intro ballI conjI) (simp_all only: ring_okD [OF ok])
  note converges = cluster_converges [OF this]
  have same: "d_store (nl_state m) = d_store (nl_state n) \<and> d_dedup (nl_state m) = d_dedup (nl_state n)"
    if "m \<in> {n0, n1, n2}" "n \<in> {n0, n1, n2}" for m n
    using bspec [OF bspec [OF converges that(1)] that(2)]
    unfolding Let_def place [OF that(1)] place [OF that(2)] by blast
  have "nl_state n0 = st0" "nl_state n1 = st1" "nl_state n2 = st2"
    by (simp_all add: n0_def n1_def n2_def ring_life_on_def)
  then show ?thesis
    using r0(1) r1(1) r2(1) same [of n0 n1] same [of n0 n2]
    by (intro exI [of _ ef0] exI [of _ st0] exI [of _ ef1] exI [of _ st1] exI [of _ ef2] exI [of _ st2])
      simp
qed

theorem writes_linearized_witness:
  "linearized ring_env 0 ring_origin [op_set 0 0 ''k'' ''v''] [([''SET'', ''k'', ''v''], 41 :: nat)] (41, reply_ok)"
proof -
  obtain ef0 st0 where r0:
    "driver_run ring_env (ring_cfg 0) (ring_events 0) (ring_start 0 mem_new dedup_new 0)
       = Some (ef0 :: (bytes, nat, nat, nat) driver_effect list, st0, True)"
    "replies_of ef0 = [(41, reply_ok)]" "snd (d_core st0) = ([ring_write], ring_order)"
    using ring_runs(1) by blast
  define n0 where "n0 = ring_life 0 mem_new dedup_new 0 (ring_events 0) ef0 st0"
  have "ring_ok n0"
    using ring_ok_early [OF r0(1)] r0(3) by (simp add: n0_def)
  then have "\<forall>n \<in> {n0}. \<forall>ans \<in> set (replies_of (nl_effects n)).
      linearized (nl_env n) (cfg_id (nl_cfg n)) ring_origin (decoded wire0 ring_order)
        (writers (nl_events n)) ans"
    by (intro writes_linearized [of "{n0}" "\<lambda>s. fst (snd s)" "\<lambda>s. snd (snd s)" ring_order ring_base
          ring_origin wire0]) (auto dest: ring_okD simp: ref_wire_nat.wire_laws_axioms)
  then show ?thesis
    using r0(2)
    by (simp add: n0_def ring_life_on_def ring_cfg_def ring_decoded ring_events_def)
qed

end
