(* ===== verification/Client_Claims.thy ===== *)
theory Client_Claims
  imports Client_Loop In_Flight Cluster_Claims
begin

section \<open>Claims about the clients of a node\<close>

text \<open>
  The account of all requests over a driver's life, and what one connection may rely on: the
  connection loop of \<open>Client_Loop\<close> composed with the driver it talks to (\<open>proxy.rs\<close>, \<open>client_loop\<close>
  and \<open>driver_loop\<close>).
\<close>

subsection \<open>The account of a driver's life\<close>

text \<open>
  C10: a driver accounts for every client: in any life from a cold start or a promotion, as long as
  the request counter does not wrap, the write requests it took are, as multisets, those it answered
  and those still waiting, so none is lost and none answered twice; what it gave the core to
  broadcast are the encoded envelopes of some of these requests, in order and numbered from 0; its
  store, dedup state and log are what the writes its core delivered, call by call, make of its start
  state; and each answer is either one decided at once on a store that history passed through, or
  the result of the first delivery of a write with this node's id and the number of that very
  request, which had been resolved and sent before that delivery.
\<close>

theorem clients_accounted:
  fixes E :: "('c, 't, 'p, 'r, 'q, 'd, 'v, 'm, 'st, 'f) env"
    and ef0 ef :: "('t, 'm, 'a, 'w) driver_effect list"
  assumes "driver_init E cfg core store promote = Some (ef0, st0)"
    and "driver_run E cfg evs st0 = Some (ef, st, b)"
    and "length evs < 2 ^ 64"
  shows "\<exists>handled rest bs ps sent. evs = handled @ rest \<and> (b \<longrightarrow> rest = [])
    \<and> mset (map snd (writers handled)) = mset (map fst (replies_of (ef0 @ ef))) + mset (map snd (d_pending st))
    \<and> subseq (requests_of sent) (writers handled)
    \<and> map (enc_op (e_wire E)) (sent_ops sent) = map Inr bs
    \<and> map op_id (sent_ops sent) = map (\<lambda>k. (cfg_id cfg, of_nat k)) [0 ..< length sent]
    \<and> core_path (e_core E) core bs ps (d_core st)
    \<and> d_app st = app_run (e_store E) (decoded (e_wire E) ps) (start_app promote store)
    \<and> (\<forall>ans \<in> set (replies_of (ef0 @ ef)).
         explained E (cfg_id cfg) (start_app promote store) (decoded (e_wire E) ps) (writers handled) sent ans)"
proof -
  let ?f = "start_front promote store :: ('st, 'w) front"
  obtain handled rest acts bs ps where h: "evs = handled @ rest" "b \<longrightarrow> rest = []"
    and run: "front_run E (cfg_id cfg) ?f acts (front_of st)"
    and ans: "answered acts = replies_of (ef0 @ ef)" and ask: "asked acts = writers handled"
    and core: "core_path (e_core E) core bs ps (d_core st)" "ops_of acts = decoded (e_wire E) ps"
      "map (enc_op (e_wire E)) (sent_ops (issued acts)) = map Inr bs"
    by (rule driver_life [OF assms(1,2)])
  have fresh: "pend_ok ?f" "waiting ?f = {#}" "fr_pend ?f = []" "fr_next ?f = 0"
    "fr_app ?f = start_app promote store"
    by (simp_all add: start_front_def pend_ok_def waiting_def)
  have "unat (fr_next ?f) + length (asked acts) < 2 ^ 64"
    using assms(3) h(1) writers_length [of handled] by (simp add: ask start_front_def)
  from front_run_account [OF run fresh(1) this] have
    "mset (map snd (writers handled)) = mset (map fst (replies_of (ef0 @ ef))) + mset (map snd (d_pending st))"
    by (simp add: ans ask fresh(2)) (simp add: waiting_def front_of_def)
  moreover have "d_app st = app_run (e_store E) (ops_of acts) (start_app promote store)"
    using front_app_run [OF run] fresh(5) by (simp add: front_of_def)
  moreover have "\<forall>a \<in> set (replies_of (ef0 @ ef)).
      explained E (cfg_id cfg) (start_app promote store) (ops_of acts) (writers handled) (issued acts) a"
    using front_run_explained [OF run fresh(3,4)] fresh(5) by (simp add: ans ask)
  moreover have "map op_id (sent_ops (issued acts)) = map (\<lambda>k. (cfg_id cfg, of_nat k)) [0 ..< length (issued acts)]"
    using issued_ids [OF run] fresh(4) by simp
  ultimately show ?thesis
    using h issued_asked [of acts] core ask by metis
qed

lemma driver_run_goes_on:
  "driver_run E cfg evs st = Some (ef, st', b) \<Longrightarrow> EvCrash \<notin> set evs \<Longrightarrow> EvClosed \<notin> set evs \<Longrightarrow> b"
proof (induction evs arbitrary: st ef)
  case (Cons ev evs)
  then have "driver_step E cfg ev st \<noteq> Some (ef1, st1, False)" for ef1 st1
    by (cases ev) (auto simp: driver_step_def Let_def split: prod.splits)
  with Cons show ?case
    by (auto split: option.splits bool.splits)
qed simp

theorem clients_accounted_witness:
  "\<exists>ef0 st0 ef st b.
     driver_init demo_env demo_cfg 0 mem_new None = Some (ef0 :: (bytes, nat, nat, nat) driver_effect list, st0)
     \<and> driver_run demo_env demo_cfg
          [EvWrite [''SET'', ''k'', ''v''] 41, EvTick, EvWrite [''GET'', ''k''] 42, EvConfirmCrash 2] st0
        = Some (ef :: (bytes, nat, nat, nat) driver_effect list, st, b)
     \<and> {#41, 42#} = mset (map fst (replies_of (ef0 @ ef))) + mset (map snd (d_pending st))"
proof -
  let ?evs = "[EvWrite [''SET'', ''k'', ''v''] 41, EvTick, EvWrite [''GET'', ''k''] 42, EvConfirmCrash 2]"
  have ok: "cfg_ok demo_env demo_cfg"
    by (simp add: cfg_ok_def demo_cfg_def ring_n_def reconfig_def)
  obtain ef0 :: "(bytes, nat, nat, nat) driver_effect list" and st0 where
    i: "driver_init demo_env demo_cfg 0 mem_new None = Some (ef0, st0)"
    "member_ok (cfg_id demo_cfg) (ring_n demo_env demo_cfg) st0"
    using driver_init_ok [OF ok, of 0 mem_new None] by (auto simp: safe_result_iff)
  obtain ef :: "(bytes, nat, nat, nat) driver_effect list" and st b where
    r: "driver_run demo_env demo_cfg ?evs st0 = Some (ef, st, b)"
    using driver_run_ok [OF ok i(2), of ?evs] by (auto simp: step_result_def)
  have "b" by (rule driver_run_goes_on [OF r]) simp_all
  with clients_accounted [OF i(1) r] have
    "mset (map snd (writers ?evs)) = mset (map fst (replies_of (ef0 @ ef))) + mset (map snd (d_pending st))"
    by auto
  then show ?thesis using i(1) r by auto
qed


subsection \<open>One write and its delivery\<close>

text \<open>Only the delivery of an own write of its id takes a client off the waiting table.\<close>

lemma front_run_waits:
  "front_run E i f acts f' \<Longrightarrow> asked acts = [] \<Longrightarrow> (i, rid) \<notin> op_id ` set (ops_of acts)
     \<Longrightarrow> bt_get (fr_pend f') rid = bt_get (fr_pend f) rid"
proof (induction rule: front_run.induct)
  case (more f act f1 acts f2)
  from more.hyps(1) more.prems have "bt_get (fr_pend f1) rid = bt_get (fr_pend f) rid"
    by (cases rule: front_step.cases) (auto simp: op_id_def)
  moreover have "asked acts = []" "(i, rid) \<notin> op_id ` set (ops_of acts)"
    using more.prems by (cases act; simp)+
  ultimately show ?case using more.IH by simp
qed simp

text \<open>So after a broadcast the client waits until the id of its write has been applied.\<close>

lemma issued_waits:
  assumes "recorded_core (e_core E) gave hist"
    and "write_action (e_float E) (\<lambda>c. st_query (e_store E) c (d_store st)) argv = ABroadcast argv' rs"
    and "enc_op (e_wire E) (envelope i (d_next_rid st) argv' rs) = Inr bs"
    and "handle_write_request E i argv tx st = (ef, st1)"
    and "dedup_ok (d_dedup st)" "list_all (\<lambda>op. usable_id (op_id op)) (decoded (e_wire E) (hist (d_core st1)))"
    and "(i, d_next_rid st) \<notin> seen (d_dedup st1)"
  shows "gave (d_core st1) = gave (d_core st) @ [bs] \<and> dedup_ok (d_dedup st1)
    \<and> bt_get (d_pending st1) (d_next_rid st) = Some tx"
proof -
  let ?op = "envelope i (d_next_rid st) argv' rs"
  obtain acts ps where run: "front_run E i (front_of st) (Issued argv tx ?op # acts) (front_of st1)"
    and acts: "asked acts = []" "ops_of acts = decoded (e_wire E) ps"
    and path: "core_path (e_core E) (d_core st) [bs] ps (d_core st1)"
    using write_request_issued [OF assms(2-4)] by blast
  have rec: "gave (d_core st1) = gave (d_core st) @ [bs]" "hist (d_core st1) = hist (d_core st) @ ps"
    using recorded_core.record_path [OF assms(1) path] by simp_all
  have usable: "list_all usable_id (map op_id (ops_of acts))"
    using assms(6) by (simp add: rec acts list_all_iff)
  have app: "d_app st1 = app_run (e_store E) (ops_of acts) (d_app st)"
    using front_app_run [OF run] by (simp add: front_of_def)
  have ded: "fst (snd (d_app st)) = d_dedup st" "fst (snd (d_app st1)) = d_dedup st1"
    by (simp_all add: d_app_def)
  have seen: "dedup_ok (d_dedup st1)" "seen (d_dedup st1) = seen (d_dedup st) \<union> op_id ` set (ops_of acts)"
    using seen_after [of "d_app st", OF _ usable, where S = "e_store E"] assms(5)
    by (simp_all add: ded app [symmetric])
  obtain f1 where f1: "front_step E i (front_of st) (Issued argv tx ?op) f1" "front_run E i f1 acts (front_of st1)"
    using run by (auto simp: front_run_Cons)
  have "bt_get (fr_pend f1) (d_next_rid st) = Some tx"
    using f1(1) by (auto elim!: front_step_cases simp: front_of_def)
  moreover have "(i, d_next_rid st) \<notin> op_id ` set (ops_of acts)"
    using assms(7) seen(2) by simp
  ultimately have "bt_get (fr_pend (front_of st1)) (d_next_rid st) = Some tx"
    using front_run_waits [OF f1(2) acts(1)] by simp
  then show ?thesis
    using rec seen(1) by (simp add: front_of_def)
qed

text \<open>
  C15: a write is answered. When a request that is to be broadcast has been handled, the driver has
  given the core one envelope more; if the id it used is not applied yet, whatever the core delivered
  meanwhile, then the client is waiting, and the delivery of the very bytes the core was given
  answers this client, and nobody else, with the reply resolved at the origin if there is one and
  otherwise the result of applying the command to the store it finds; the command has been applied
  and the client no longer waits.
\<close>

theorem write_answered:
  assumes "wire_laws (e_wire E)" "recorded_core (e_core E) gave hist"
    and "write_action (e_float E) (\<lambda>c. st_query (e_store E) c (d_store st)) argv = ABroadcast argv' rs"
    and "enc_op (e_wire E) (envelope i (d_next_rid st) argv' rs) = Inr bs"
    and "handle_write_request E i argv tx st = (ef, st1)"
    and "dedup_ok (d_dedup st)" "list_all (\<lambda>op. usable_id (op_id op)) (decoded (e_wire E) (hist (d_core st1)))"
    and "d_next_rid st \<noteq> - 1" "(i, d_next_rid st) \<notin> seen (d_dedup st1)"
    and "parse argv' = Some cmd" "st_apply (e_store E) cmd (d_store st1) = (r, store')"
    and "pump_outputs E i [Deliver [\<lparr>pl_data = last (gave (d_core st1))\<rparr>]] st1 = (ef', vs, st2)"
  shows "gave (d_core st1) = gave (d_core st) @ [bs]
    \<and> bt_get (d_pending st1) (d_next_rid st) = Some tx
    \<and> ef' = [ReplyTo tx (case rs of Some x \<Rightarrow> x | None \<Rightarrow> r)]
    \<and> d_store st2 = store' \<and> bt_get (d_pending st2) (d_next_rid st) = None"
proof -
  note waits = issued_waits [OF assms(2-7,9)]
  have dec: "dec_op (e_wire E) bs = Some (envelope i (d_next_rid st) argv' rs)"
    by (rule wire_laws.dec_enc_op [OF assms(1,4)])
  have pump: "pump_op E i (envelope i (d_next_rid st) argv' rs) st1 = (ef', st2)"
    using deliver_single [OF dec, of i st1 ef' vs st2] assms(12) waits by simp
  obtain d where d: "first_seen i (d_next_rid st) (d_dedup st1) = (True, d)"
    using first_seen_spec(2) [of "d_dedup st1" "d_next_rid st" i] assms(8,9) waits
    by (cases "first_seen i (d_next_rid st) (d_dedup st1)") auto
  show ?thesis
    using pump d assms(10,11) waits by (auto simp: pump_op_def op_command_def Let_def)
qed

text \<open>A set member popped by a client of the demo ring.\<close>

theorem write_answered_witness:
  "\<exists>ef st1 ef' vs st2.
     handle_write_request ring_env 0 [''spop'', ''s''] 41
       (ring_start 0 \<lparr>data = [(''s'', Set [''a'', ''b''])], ttl = []\<rparr> dedup_new 0)
       = (ef :: (bytes, nat, nat, nat) driver_effect list, st1)
     \<and> pump_outputs ring_env 0 [Deliver [\<lparr>pl_data = last (fst (snd (d_core st1)))\<rparr>]] st1
       = (ef' :: (bytes, nat, nat, nat) driver_effect list, vs, st2)
     \<and> ef' = [ReplyTo 41 (Bulk ''a'')] \<and> d_store st2 = \<lparr>data = [(''s'', Set [''b''])], ttl = []\<rparr>"
proof -
  let ?st = "ring_start 0 \<lparr>data = [(''s'', Set [''a'', ''b''])], ttl = []\<rparr> dedup_new 0"
  let ?cmd = "\<lparr>cmd_name = ''SREM'', cmd_argv = [''SREM'', ''s'', ''a'']\<rparr>"
  obtain ef :: "(bytes, nat, nat, nat) driver_effect list" and st1 where
    h: "handle_write_request ring_env 0 [''spop'', ''s''] 41 ?st = (ef, st1)" by fastforce
  obtain ef' :: "(bytes, nat, nat, nat) driver_effect list" and vs st2 where
    p: "pump_outputs ring_env 0 [Deliver [\<lparr>pl_data = last (fst (snd (d_core st1)))\<rparr>]] st1 = (ef', vs, st2)"
    using prod_cases3 by blast
  have laws: "wire_laws (e_wire ring_env)" "recorded_core (e_core ring_env) (\<lambda>s. fst (snd s)) (\<lambda>s. snd (snd s))"
    by (simp_all add: ring_parts ref_wire_nat.wire_laws_axioms recorded.recorded_core_axioms)
  have rid: "d_next_rid ?st = 0" by (simp add: ring_start_def)
  have act: "write_action (e_float ring_env) (\<lambda>c. st_query (e_store ring_env) c (d_store ?st)) [''spop'', ''s'']
      = ABroadcast [''SREM'', ''s'', ''a''] (Some (Bulk ''a''))"
    by code_simp
  have enc: "enc_op (e_wire ring_env) (envelope 0 (d_next_rid ?st) [''SREM'', ''s'', ''a''] (Some (Bulk ''a'')))
      = Inr (cput c_write_op (envelope 0 0 [''SREM'', ''s'', ''a''] (Some (Bulk ''a''))))"
    by (simp add: ring_parts ref_wire_def rid)
  have "(case handle_write_request ring_env 0 [''spop'', ''s''] 41 ?st of
      (_ :: (bytes, nat, nat, nat) driver_effect list, s) \<Rightarrow> (d_dedup s, d_store s, snd (snd (d_core s))))
      = (dedup_new, d_store ?st, [])"
    by code_simp
  then have st1: "d_dedup st1 = dedup_new" "d_store st1 = d_store ?st" "snd (snd (d_core st1)) = []"
    by (simp_all add: h)
  have id: "dedup_ok (d_dedup ?st)"
    "list_all (\<lambda>op. usable_id (op_id op)) (decoded (e_wire ring_env) (snd (snd (d_core st1))))"
    "d_next_rid ?st \<noteq> - 1" "(0, d_next_rid ?st) \<notin> seen (d_dedup st1)"
    by (simp_all add: st1 rid ring_start_def)
  have cmd: "parse [''SREM'', ''s'', ''a''] = Some ?cmd" by (simp add: effect_simps)
  have run: "st_apply (e_store ring_env) ?cmd (d_store st1)
      = (Integer 1, \<lparr>data = [(''s'', Set [''b''])], ttl = []\<rparr>)"
    unfolding st1(2) by code_simp
  from write_answered [OF laws act enc h id cmd run p] show ?thesis
    using h p by auto
qed

subsection \<open>A connection on a running node\<close>







subsection \<open>History only grows\<close>



















end
