(* ===== verification/In_Flight_Claims.thy ===== *)
theory In_Flight_Claims
  imports In_Flight Cluster_Claims
begin

section \<open>Claims about waiting clients\<close>

text \<open>
  Nobody waits for nothing. The claim is about a node with a new name; \<open>promoted_write_lost\<close> shows
  what becomes of a node that rejoins under its old one.
\<close>

text \<open>
  C11: clients wait exactly for what is in flight: in a life of a node whose deduplication state
  starts without ids of its own, and whose core at every moment has delivered under the node's name
  only what it had been given, a request id is in the waiting table if and only if its envelope was
  given to the core and has not been delivered. So once the core has delivered all it was given, no
  client waits, and every write request the driver took has been answered exactly once.
\<close>

theorem waiting_is_in_flight:
  assumes "lived n" "recorded_core (e_core (nl_env n)) gave hist"
    and "gave (nl_core n) = []" "hist (nl_core n) = []" "wire_laws (e_wire (nl_env n))"
    and "new_name n" "orderly_life gave hist n" "length (nl_events n) < 2 ^ 64"
  shows "let c = d_core (nl_state n); W = e_wire (nl_env n) in
    (\<forall>rid. bt_get (d_pending (nl_state n)) rid \<noteq> None \<longleftrightarrow>
       (\<exists>b \<in> set (gave c). \<exists>op. dec_op W b = Some op \<and> op_id op = (cfg_id (nl_cfg n), rid)
          \<and> op \<notin> set (decoded W (hist c))))
    \<and> (set (gave c) \<subseteq> pl_data ` set (hist c) \<longrightarrow>
        d_pending (nl_state n) = []
        \<and> (\<exists>handled rest. nl_events n = handled @ rest
             \<and> mset (map snd (writers handled)) = mset (map fst (replies_of (nl_effects n)))))"
proof -
  let ?c = "d_core (nl_state n)" and ?W = "e_wire (nl_env n)" and ?i = "cfg_id (nl_cfg n)"
  note wait = waiting_in_flight [OF life_in_flight [OF assms] assms(5)]
  have quiet: "d_pending (nl_state n) = []" if "set (gave ?c) \<subseteq> pl_data ` set (hist ?c)"
  proof (rule bt_all_none)
    show "bt_get (d_pending (nl_state n)) rid = None" for rid
      using wait [of rid] that by (force simp: decoded_mem)
  qed
  obtain handled rest where h: "nl_events n = handled @ rest"
    "mset (map snd (writers handled))
       = mset (map fst (replies_of (nl_effects n))) + mset (map snd (d_pending (nl_state n)))"
    using life_account [OF assms(1,8)] by blast
  show ?thesis
    unfolding Let_def using wait quiet h by fastforce
qed

text \<open>Node 0 of the demo ring: at each moment what its core has recorded is in order.\<close>

lemma ring_prefixes:
  "list_all (\<lambda>evs.
     case driver_run ring_env (ring_cfg 0) evs (ring_start 0 mem_new dedup_new 0) of
       None \<Rightarrow> True
     | Some (ef :: (bytes, nat, nat, nat) driver_effect list, st, b) \<Rightarrow>
         snd (d_core st) \<in> {([], []), ([ring_write], []), ([ring_write], ring_order)})
     (prefixes (ring_events 0))"
  by code_simp

lemma ring_orderly:
  "snd c \<in> {([], []), ([ring_write], []), ([ring_write], ring_order)}
     \<Longrightarrow> orderly wire0 (\<lambda>s. fst (snd s)) (\<lambda>s. snd (snd s)) 0 c"
  using ring_decoded
  by (auto simp: orderly_def ring_order_def usable_id_def op_id_def op_set_def write_op_new_def
      split: option.splits)

lemma ring_life_orderly:
  "orderly_life (\<lambda>s. fst (snd s)) (\<lambda>s. snd (snd s)) (ring_life 0 mem_new dedup_new 0 (ring_events 0) ef st)"
proof -
  have *: "orderly wire0 (\<lambda>s. fst (snd s)) (\<lambda>s. snd (snd s)) 0 (d_core s)"
    if "evs \<in> set (prefixes (ring_events 0))"
      "driver_run ring_env (ring_cfg 0) evs (ring_start 0 mem_new dedup_new 0)
         = Some (ef' :: (bytes, nat, nat, nat) driver_effect list, s, b)" for evs ef' s b
    using ring_prefixes [unfolded list_all_iff, rule_format, OF that(1)] that(2)
    by (intro ring_orderly) simp
  have "cfg_id (ring_cfg 0) = 0" by (simp add: ring_cfg_def)
  then show ?thesis
    by (auto simp: orderly_life_def ring_life_of ring_parts split: option.split intro!: *)
qed

theorem waiting_is_in_flight_witness:
  "\<exists>ef st. driver_run ring_env (ring_cfg 0) (ring_events 0) (ring_start 0 mem_new dedup_new 0)
      = Some (ef :: (bytes, nat, nat, nat) driver_effect list, st, True)
    \<and> d_pending st = []"
proof -
  obtain ef st where r:
    "driver_run ring_env (ring_cfg 0) (ring_events 0) (ring_start 0 mem_new dedup_new 0)
       = Some (ef :: (bytes, nat, nat, nat) driver_effect list, st, True)"
    "snd (d_core st) = ([ring_write], ring_order)"
    using ring_runs(1) by blast
  let ?n = "ring_life 0 mem_new dedup_new 0 (ring_events 0) ef st"
  have parts: "e_core (nl_env ?n) = recording echo_kernel" "nl_core ?n = (0, [], [])"
    "e_wire (nl_env ?n) = wire0" "nl_state ?n = st" "length (nl_events ?n) < 2 ^ 64" "new_name ?n"
    by (simp_all add: ring_parts ring_events_def new_name_def start_app_def ring_seed_def)
  have rec: "recorded_core (e_core (nl_env ?n)) (\<lambda>s. fst (snd s)) (\<lambda>s. snd (snd s))"
    unfolding parts by (rule recorded.recorded_core_axioms)
  have wire: "wire_laws (e_wire (nl_env ?n))"
    unfolding parts by (rule ref_wire_nat.wire_laws_axioms)
  have new: "fst (snd (nl_core ?n)) = []" "snd (snd (nl_core ?n)) = []"
    by (simp_all add: parts)
  note waits = waiting_is_in_flight [OF ring_lived [OF r(1)] rec new wire parts(6) ring_life_orderly parts(5)]
  have "set (fst (snd (d_core (nl_state ?n)))) \<subseteq> pl_data ` set (snd (snd (d_core (nl_state ?n))))"
    by (simp add: parts r(2) ring_order_def)
  then have "d_pending (nl_state ?n) = []"
    using waits [unfolded Let_def, THEN conjunct2] by blast
  then show ?thesis using r(1) parts(4) by auto
qed

end
