(* ===== verification/Ideal.thy ===== *)
theory Ideal
  imports Cluster Backend
begin

section \<open>A ring as one ideal store\<close>

text \<open>
  The ideal machine executes each write once, by its id, on one abstract state; there are no logs,
  no deduplication windows and no containers. A store that refines an abstract specification lifts to
  the replicated store: what a node makes of a history is what the ideal machine makes of it, reply
  by reply. \<open>MemStore\<close> refines the specification of \<open>Store_Spec\<close>; a backend in step with its engine
  refines the engine.
\<close>

subsection \<open>The ideal machine\<close>

type_synonym 'a ideal = "'a \<times> (proc_id \<times> u64) set"

definition ideal_step ::
  "(command \<Rightarrow> 'a \<Rightarrow> reply \<times> 'a) \<Rightarrow> write_op \<Rightarrow> 'a ideal \<Rightarrow> reply option \<times> 'a ideal" where
  "ideal_step spec op A =
     (case A of (s, ids) \<Rightarrow>
        if op_id op \<in> ids then (None, s, ids)
        else
          (case (case op_command op of Some cmd \<Rightarrow> spec cmd s | None \<Rightarrow> (empty_argv_reply, s)) of
             (r, s') \<Rightarrow>
               (Some (case client_reply op of Some r' \<Rightarrow> r' | None \<Rightarrow> r), s', insert (op_id op) ids)))"

definition ideal_run :: "(command \<Rightarrow> 'a \<Rightarrow> reply \<times> 'a) \<Rightarrow> write_op list \<Rightarrow> 'a ideal \<Rightarrow> 'a ideal" where
  "ideal_run spec ops A = fold (\<lambda>op A. snd (ideal_step spec op A)) ops A"

lemma ideal_run_simps [simp]:
  "ideal_run spec [] A = A"
  "ideal_run spec (op # ops) A = ideal_run spec ops (snd (ideal_step spec op A))"
  by (simp_all add: ideal_run_def)

text \<open>An operation the refinement speaks of, and the abstraction of the replicated state.\<close>

definition op_fits :: "(command \<Rightarrow> bool) \<Rightarrow> write_op \<Rightarrow> bool" where
  "op_fits fits op \<longleftrightarrow> usable_id (op_id op) \<and> (case op_command op of None \<Rightarrow> True | Some cmd \<Rightarrow> fits cmd)"

definition app_ok :: "('st \<Rightarrow> bool) \<Rightarrow> 'st app \<Rightarrow> bool" where
  "app_ok ok a \<longleftrightarrow> ok (fst a) \<and> dedup_ok (fst (snd a))"

definition abs_app :: "('st \<Rightarrow> 'a) \<Rightarrow> 'st app \<Rightarrow> 'a ideal" where
  "abs_app view a = (view (fst a), seen (fst (snd a)))"

lemma abs_app_data: "store_data a = store_data b \<Longrightarrow> abs_app view a = abs_app view b"
  by (simp add: abs_app_def store_data_def)

lemma app_ok_data: "store_data a = store_data b \<Longrightarrow> app_ok ok a \<longleftrightarrow> app_ok ok b"
  by (simp add: app_ok_def store_data_def)

subsection \<open>Stores that refine a specification\<close>

locale refined_store =
  fixes S :: "'st store_ops"
    and ok :: "'st \<Rightarrow> bool"
    and view :: "'st \<Rightarrow> 'a"
    and spec :: "command \<Rightarrow> 'a \<Rightarrow> reply \<times> 'a"
    and fits :: "command \<Rightarrow> bool"
  assumes apply_refines: "ok s \<Longrightarrow> fits cmd \<Longrightarrow> st_apply S cmd s = (r, s')
    \<Longrightarrow> spec cmd (view s) = (r, view s') \<and> ok s'"
begin

lemma step_refines:
  assumes "app_ok ok a" "op_fits fits op"
  shows "ideal_step spec op (abs_app view a) = (applied_reply S op a, abs_app view (app_step S op a))
    \<and> app_ok ok (app_step S op a)"
proof -
  obtain st d l where a: "a = (st, d, l)" by (cases a)
  have rid: "request_id op \<noteq> - 1" and ok: "ok st" "dedup_ok d"
    using assms by (simp_all add: op_fits_def usable_id_def op_id_def app_ok_def a)
  note seen = first_seen_spec [OF ok(2) rid, of "origin op"]
  obtain new d' where new: "first_seen (origin op) (request_id op) d = (new, d')" by fastforce
  obtain r st' where run:
    "(case op_command op of Some cmd \<Rightarrow> st_apply S cmd st | None \<Rightarrow> (empty_argv_reply, st)) = (r, st')"
    by fastforce
  have spec: "(case op_command op of Some cmd \<Rightarrow> spec cmd (view st) | None \<Rightarrow> (empty_argv_reply, view st))
      = (r, view st') \<and> ok st'"
    using run assms(2) ok(1) apply_refines by (auto simp: op_fits_def split: option.splits)
  show ?thesis
    using seen new run spec ok
    by (cases new)
      (simp_all add: a ideal_step_def abs_app_def app_ok_def applied_reply_def app_step_def
        apply_delivered_op_parts_def op_id_def Let_def insert_absorb)
qed

lemma run_refines:
  "app_ok ok a \<Longrightarrow> list_all (op_fits fits) ops \<Longrightarrow>
     ideal_run spec ops (abs_app view a) = abs_app view (app_run S ops a) \<and> app_ok ok (app_run S ops a)"
proof (induction ops arbitrary: a)
  case (Cons op ops)
  have "op_fits fits op" "list_all (op_fits fits) ops" using Cons.prems(2) by simp_all
  with step_refines [OF Cons.prems(1)] show ?case
    using Cons.IH [of "app_step S op a"] by simp
qed simp

lemma reply_refines:
  assumes "app_ok ok a" "list_all (op_fits fits) (ops @ [op])"
  shows "fst (ideal_step spec op (ideal_run spec ops (abs_app view a))) = applied_reply S op (app_run S ops a)"
proof -
  have *: "list_all (op_fits fits) ops" "op_fits fits op" using assms(2) by simp_all
  show ?thesis
    using run_refines [OF assms(1) *(1)] step_refines [OF _ *(2), of "app_run S ops a"] by simp
qed

end

interpretation mem_ideal: refined_store "mem_ops enc dec now" store_ok abs_store spec_apply "\<lambda>_. True"
  for enc dec now
proof
  fix s cmd r s'
  assume "store_ok s" "st_apply (mem_ops enc dec now) cmd s = (r, s')"
  then show "spec_apply cmd (abs_store s) = (r, abs_store s') \<and> store_ok s'"
    using refines_mem_apply [of cmd] by (auto simp: mem_ops_def refines_def dest!: spec [of _ s])
qed

subsection \<open>A backend as the store of a node\<close>

definition in_step :: "'e redis_backend \<Rightarrow> bool" where
  "in_step b \<longleftrightarrow> rb_incoming b = []"

text \<open>
  A store that is a backend on a link: applying a command is the round trip of \<open>apply\<close>, reply,
  engine and connection; a read is the round trip of \<open>query\<close>, and leaves the engine and the
  connection as they were. The last is a condition on the engine: \<open>query\<close> works through a shared
  reference, so a read that changes the engine, such as one that removes an expired key, is not a
  store in this sense.
\<close>

definition backend_store :: "'e engine_link \<Rightarrow> 'e redis_backend store_ops \<Rightarrow> bool" where
  "backend_store L S \<longleftrightarrow>
     (\<forall>b argv cmd. in_step b \<and> request_fits argv \<and> parse argv = Some cmd \<longrightarrow>
        backend_apply L cmd b = Some (st_apply S cmd b)
        \<and> (classify (cmd_name cmd) = Read \<longrightarrow> backend_query L cmd b = Some (st_query S cmd b, b)))"

lemma from_stream_eq: "in_step b \<Longrightarrow> from_stream (rb_engine b) = b"
  by (cases b) (simp add: in_step_def from_stream_def)

lemma backend_refined:
  fixes L :: "'e engine_link"
  assumes "speaks L ex" "backend_store L S"
  shows "refined_store S in_step rb_engine (\<lambda>cmd. ex (cmd_argv cmd))
    (\<lambda>cmd. request_fits (cmd_argv cmd) \<and> parse (cmd_argv cmd) = Some cmd)"
proof
  fix b :: "'e redis_backend" and cmd r b'
  assume b: "in_step b" "request_fits (cmd_argv cmd) \<and> parse (cmd_argv cmd) = Some cmd"
    "st_apply S cmd b = (r, b')"
  have "backend_apply L cmd b
      = Some (fst (ex (cmd_argv cmd) (rb_engine b)), from_stream (snd (ex (cmd_argv cmd) (rb_engine b))))"
    using backend_command_speaks [OF assms(1), of "cmd_argv cmd" "rb_engine b"] b(2) from_stream_eq [OF b(1)]
    by (simp add: backend_apply_def)
  moreover have "backend_apply L cmd b = Some (r, b')"
    using assms(2) b by (auto simp: backend_store_def)
  ultimately show "ex (cmd_argv cmd) (rb_engine b) = (r, rb_engine b') \<and> in_step b'"
    by (auto simp: in_step_def from_stream_def prod_eq_iff)
qed

lemma ops_parse:
  "list_all (op_fits (\<lambda>cmd. request_fits (cmd_argv cmd))) ops
     \<Longrightarrow> list_all (op_fits (\<lambda>cmd. request_fits (cmd_argv cmd) \<and> parse (cmd_argv cmd) = Some cmd)) ops"
  by (auto simp: list_all_iff op_fits_def op_command_def parse_argv split: option.splits)

text \<open>An engine whose reads change nothing, behind a link it keeps its contract on, is such a store.\<close>

lemma backend_storeI:
  fixes L :: "'e engine_link"
  assumes "speaks L ex"
    and "\<And>argv cmd e. parse argv = Some cmd \<Longrightarrow> classify (cmd_name cmd) = Read \<Longrightarrow> snd (ex argv e) = e"
    and "\<And>cmd b. st_apply S cmd b
      = (fst (ex (cmd_argv cmd) (rb_engine b)), from_stream (snd (ex (cmd_argv cmd) (rb_engine b))))"
    and "\<And>cmd b. st_query S cmd b = fst (ex (cmd_argv cmd) (rb_engine b))"
  shows "backend_store L S"
proof -
  have "backend_apply L cmd b = Some (st_apply S cmd b)
      \<and> (classify (cmd_name cmd) = Read \<longrightarrow> backend_query L cmd b = Some (st_query S cmd b, b))"
    if b: "in_step b" "request_fits argv" "parse argv = Some cmd" for b :: "'e redis_backend" and argv cmd
    using backend_command_speaks [OF assms(1) b(2), of "rb_engine b", unfolded from_stream_eq [OF b(1)]]
      assms(2) [OF b(3), of "rb_engine b"] from_stream_eq [OF b(1)]
    by (simp add: backend_apply_def backend_query_def assms(3,4) parse_argv [OF b(3)])
  then show ?thesis
    unfolding backend_store_def by blast
qed

text \<open>
  A backend whose exchange fails answers with an error reply, and the replication layer takes it for
  the result of the write, so the write counts as applied.
\<close>

lemma failed_exchange_counts:
  assumes "lk_write L (encode_request (cmd_argv cmd)) (rb_engine b) = (Inl e, s)"
    and "backend_apply L cmd b = Some (st_apply S cmd b)"
    and "first_seen (origin op) (request_id op) d = (True, d')" "op_command op = Some cmd" "client_reply op = None"
  shows "apply_delivered_op_parts S op b d l
    = (Some (reply_error (''ERR backend write failed: '' @ io_message e)), b\<lparr>rb_engine := s\<rparr>, d',
       snd (append_op op l))"
proof -
  have "st_apply S cmd b = (reply_error (''ERR backend write failed: '' @ io_message e), b\<lparr>rb_engine := s\<rparr>)"
    using assms(1,2) by (simp add: backend_apply_def backend_command_def)
  then show ?thesis
    using assms(3-5) by (simp add: apply_delivered_op_parts_def Let_def)
qed

subsection \<open>The nodes of a ring as the ideal machine\<close>

text \<open>
  The answers of the ideal machine: decided at once on a store the order passes through, or what
  the machine replies to the client's own envelope at its place.
\<close>

definition ideal_answer ::
  "('c, 't, 'p, 'r, 'q, 'd, 'v, 'm, 'st, 'f) env \<Rightarrow> proc_id \<Rightarrow> 'st app
     \<Rightarrow> (command \<Rightarrow> 'a \<Rightarrow> reply \<times> 'a) \<Rightarrow> 'a ideal \<Rightarrow> write_op list
     \<Rightarrow> (bytes list \<times> 'w) list \<Rightarrow> 'w \<times> reply \<Rightarrow> bool" where
  "ideal_answer E i a0 spec A0 ops requests ans \<longleftrightarrow>
     (case ans of (w, r) \<Rightarrow>
        (\<exists>past later argv. ops = past @ later \<and> (argv, w) \<in> set requests
           \<and> at_once E (fst (app_run (e_store E) past a0)) argv r)
        \<or> (\<exists>before between op later argv rid. ops = before @ between @ op # later
           \<and> (argv, w) \<in> set requests
           \<and> broadcast_of E (fst (app_run (e_store E) before a0)) argv i rid op
           \<and> fst (ideal_step spec op (ideal_run spec (before @ between) A0)) = Some r
           \<and> (\<forall>cmd. parse argv = Some cmd \<and> classify (cmd_name cmd) = Write
                \<longrightarrow> r = fst (spec cmd (fst (ideal_run spec (before @ between) A0))))))"

text \<open>A plain write in the ideal machine.\<close>

lemma ideal_plain:
  assumes "fst (ideal_step spec op A) = Some r" "client_reply op = None" "op_command op = Some cmd"
  shows "r = fst (spec cmd (fst A))"
  using assms by (auto simp: ideal_step_def split: prod.splits if_splits)

context refined_store
begin

lemma linearized_ideal:
  assumes "linearized E i a0 ops requests ans" "e_store E = S"
    and "app_ok ok a0" "list_all (op_fits fits) ops"
  shows "ideal_answer E i a0 spec (abs_app view a0) ops requests ans"
proof -
  obtain w r where ans: "ans = (w, r)" by fastforce
  from assms(1) consider
    past later argv where "ops = past @ later" "(argv, w) \<in> set requests"
      "at_once E (fst (app_run (e_store E) past a0)) argv r"
  | before between op later argv rid where "ops = before @ between @ op # later"
      "(argv, w) \<in> set requests" "broadcast_of E (fst (app_run (e_store E) before a0)) argv i rid op"
      "applied_reply S op (app_run S (before @ between) a0) = Some r"
    unfolding linearized_def ans prod.case assms(2) by blast
  then show ?thesis
  proof cases
    case 1
    then show ?thesis unfolding ideal_answer_def ans prod.case by blast
  next
    case 2
    have "list_all (op_fits fits) ((before @ between) @ [op])"
      using assms(4) 2(1) by simp
    from reply_refines [OF assms(3) this]
    have r: "fst (ideal_step spec op (ideal_run spec (before @ between) (abs_app view a0))) = Some r"
      using 2(4) by simp
    have "r = fst (spec cmd (fst (ideal_run spec (before @ between) (abs_app view a0))))"
      if "parse argv = Some cmd" "classify (cmd_name cmd) = Write" for cmd
      using 2(3) that
      by (intro ideal_plain [OF r]) (auto simp: broadcast_of_def write_action_def op_command_def)
    then show ?thesis
      unfolding ideal_answer_def ans prod.case using 2 r
      by (intro disjI2 exI [of _ before] exI [of _ between] exI [of _ op] exI [of _ later]
          exI [of _ argv] exI [of _ rid]) simp
  qed
qed

text \<open>State and answers of a life.\<close>

lemma life_ideal:
  assumes "lived n" "on_ring gave hist L base n" "joined_at L a0 base n" "e_store (nl_env n) = S"
    and "app_ok ok a0" "list_all (op_fits fits) (decoded (e_wire (nl_env n)) L)"
  shows "abs_app view (d_app (nl_state n))
      = ideal_run spec (decoded (e_wire (nl_env n)) (take (ring_place hist base n) L)) (abs_app view a0)
    \<and> app_ok ok (d_app (nl_state n))"
proof -
  let ?past = "decoded (e_wire (nl_env n)) (take (ring_place hist base n) L)"
  have "decoded (e_wire (nl_env n)) L
      = ?past @ decoded (e_wire (nl_env n)) (drop (ring_place hist base n) L)"
    by (metis append_take_drop_id decoded_simps(3))
  then have "list_all (op_fits fits) ?past"
    using assms(6) by simp
  note run = run_refines [OF assms(5) this]
  note state = life_state [OF assms(1-3), unfolded assms(4)]
  show ?thesis
    using run by (simp add: abs_app_data [OF state] app_ok_data [OF state])
qed

end

end
