(* ===== verification/Ideal_Claims.thy ===== *)
theory Ideal_Claims
  imports Ideal Cluster_Claims Backend_Claims
begin

section \<open>Claims about a ring as one ideal store\<close>

text \<open>
  From the clients of all nodes down to the arms of the store: the ring over \<open>MemStore\<close> behaves as
  one store of maps and sets, the ring over engine backends as one engine.
\<close>

text \<open>
  C1: a ring of nodes with the in-memory store is one store of strings, maps and sets that executes
  each write once: the abstract store and the set of executed ids of every node are those the ideal
  machine reaches on the common order up to the node's place, and every reply at any node is one
  decided at once, or what the specification of the client's own command returns at its place in the
  order; for a plain write that is the specification of exactly the command the client sent.
\<close>

theorem ring_refines_spec:
  fixes N :: "('c, 't, 'p, 'r, 'q, 'd, 'v, 'm, mem_store, 'f, 'a, 'w) node_life set"
  assumes "\<forall>n \<in> N. lived n \<and> on_ring gave hist L (base n) n \<and> joined_at L a0 (base n) n
      \<and> own_name gave L (base n) n \<and> e_wire (nl_env n) = W \<and> length (nl_events n) < 2 ^ 64
      \<and> e_store (nl_env n) = mem_ops enc dec (now n)"
    and "wire_laws W" "app_ok store_ok a0" "list_all (\<lambda>op. usable_id (op_id op)) (decoded W L)"
  shows "\<forall>n \<in> N.
    abs_app abs_store (d_app (nl_state n))
      = ideal_run spec_apply (decoded W (take (ring_place hist (base n) n) L)) (abs_app abs_store a0)
    \<and> (\<forall>ans \<in> set (replies_of (nl_effects n)).
         ideal_answer (nl_env n) (cfg_id (nl_cfg n)) a0 spec_apply (abs_app abs_store a0) (decoded W L)
           (writers (nl_events n)) ans)"
proof (intro ballI conjI)
  fix n assume n: "n \<in> N"
  note h = bspec [OF assms(1) n]
  have fits: "list_all (op_fits (\<lambda>_. True)) (decoded W L)"
    using assms(4) by (auto simp: list_all_iff op_fits_def split: option.split)
  show "abs_app abs_store (d_app (nl_state n))
      = ideal_run spec_apply (decoded W (take (ring_place hist (base n) n) L)) (abs_app abs_store a0)"
    using mem_ideal.life_ideal [of n gave hist L "base n" a0 enc dec "now n"] h assms(3) fits by simp
  fix ans assume ans: "ans \<in> set (replies_of (nl_effects n))"
  obtain w r where wr: "ans = (w, r)" by fastforce
  have "linearized (nl_env n) (cfg_id (nl_cfg n)) a0 (decoded W L) (writers (nl_events n)) ans"
    using life_linearized [of n gave hist L "base n" a0 w r] h assms(2) ans wr by simp
  then show "ideal_answer (nl_env n) (cfg_id (nl_cfg n)) a0 spec_apply (abs_app abs_store a0) (decoded W L)
      (writers (nl_events n)) ans"
    using mem_ideal.linearized_ideal [of "nl_env n" _ a0 _ _ ans enc dec "now n"] h assms(3) fits by blast
qed

theorem ring_refines_spec_witness:
  "\<exists>ef st. driver_run ring_env (ring_cfg 0) (ring_events 0) (ring_start 0 mem_new dedup_new 0)
      = Some (ef :: (bytes, nat, nat, nat) driver_effect list, st, True)
    \<and> abs_app abs_store (d_app st)
        = ideal_run spec_apply [op_set 0 0 ''k'' ''v''] (abs_store mem_new, {})"
proof -
  obtain ef st where r:
    "driver_run ring_env (ring_cfg 0) (ring_events 0) (ring_start 0 mem_new dedup_new 0)
       = Some (ef :: (bytes, nat, nat, nat) driver_effect list, st, True)"
    "snd (d_core st) = ([ring_write], ring_order)"
    using ring_runs(1) by blast
  let ?n = "ring_life 0 mem_new dedup_new 0 (ring_events 0) ef st"
  have ok: "ring_ok ?n"
    using ring_ok_early [OF r(1)] r(2) by simp
  have node: "\<forall>n \<in> {?n}. lived n
      \<and> on_ring (\<lambda>s. fst (snd s)) (\<lambda>s. snd (snd s)) ring_order (ring_base n) n
      \<and> joined_at ring_order ring_origin (ring_base n) n
      \<and> own_name (\<lambda>s. fst (snd s)) ring_order (ring_base n) n
      \<and> e_wire (nl_env n) = wire0 \<and> length (nl_events n) < 2 ^ 64
      \<and> e_store (nl_env n) = mem_ops (cput c_mem_store) (decode_whole c_mem_store) (0, 0)"
    using ring_okD [OF ok] by (simp add: ref_mem_ops_def)
  have start: "app_ok store_ok ring_origin" "abs_app abs_store ring_origin = (abs_store mem_new, {})"
    by (simp_all add: app_ok_def abs_app_def ring_origin_def store_ok_new)
  have ids: "list_all (\<lambda>op. usable_id (op_id op)) (decoded wire0 ring_order)"
    by (simp add: ring_decoded usable_id_def op_id_def op_set_def write_op_new_def)
  have "ring_place (\<lambda>s. snd (snd s)) (ring_base ?n) ?n = length ring_order"
    by (simp add: ring_place_def ring_base_def ring_cfg_def r(2))
  then have "abs_app abs_store (d_app st)
      = ideal_run spec_apply [op_set 0 0 ''k'' ''v''] (abs_store mem_new, {})"
    using ring_refines_spec [OF node ref_wire_nat.wire_laws_axioms start(1) ids]
    by (simp add: start(2) ring_decoded)
  then show ?thesis using r(1) by blast
qed

text \<open>
  C12: a ring of nodes whose stores are backends, with exchanges that succeed, on engines that
  change by the commands they execute alone and by no read, is one engine: the engine behind every
  node is what running each write of the common order once, up to the node's place, makes of the first
  engine, its connection stays in step, and every reply at any node is one decided at once or what the
  engine answers to the client's own command at its place in the order. No write in the order carries
  the name of a node that did not give it. Engines with a clock are outside: what they let expire
  between two writes is not the same on all nodes.
\<close>

theorem engines_agree:
  fixes N :: "('c, 't, 'p, 'r, 'q, 'd, 'v, 'm, 'e redis_backend, 'f, 'a, 'w) node_life set"
  assumes "\<forall>n \<in> N. lived n \<and> on_ring gave hist L (base n) n \<and> joined_at L a0 (base n) n
      \<and> own_name gave L (base n) n \<and> e_wire (nl_env n) = W \<and> length (nl_events n) < 2 ^ 64
      \<and> backend_store link (e_store (nl_env n))"
    and "wire_laws W" "speaks link ex" "app_ok in_step a0"
    and "list_all (op_fits (\<lambda>cmd. request_fits (cmd_argv cmd))) (decoded W L)"
  shows "\<forall>n \<in> N. in_step (d_store (nl_state n))
    \<and> abs_app rb_engine (d_app (nl_state n))
        = ideal_run (\<lambda>cmd. ex (cmd_argv cmd)) (decoded W (take (ring_place hist (base n) n) L))
            (abs_app rb_engine a0)
    \<and> (\<forall>ans \<in> set (replies_of (nl_effects n)).
         ideal_answer (nl_env n) (cfg_id (nl_cfg n)) a0 (\<lambda>cmd. ex (cmd_argv cmd)) (abs_app rb_engine a0)
           (decoded W L) (writers (nl_events n)) ans)"
proof (intro ballI conjI)
  fix n assume n: "n \<in> N"
  note h = bspec [OF assms(1) n]
  note R = backend_refined [OF assms(3), of "e_store (nl_env n)"]
  note fits = ops_parse [OF assms(5)]
  have life: "abs_app rb_engine (d_app (nl_state n))
      = ideal_run (\<lambda>cmd. ex (cmd_argv cmd)) (decoded W (take (ring_place hist (base n) n) L))
          (abs_app rb_engine a0) \<and> app_ok in_step (d_app (nl_state n))"
    using refined_store.life_ideal [OF R, of n gave hist L "base n" a0] h assms(4) fits by simp
  then show "abs_app rb_engine (d_app (nl_state n))
      = ideal_run (\<lambda>cmd. ex (cmd_argv cmd)) (decoded W (take (ring_place hist (base n) n) L))
          (abs_app rb_engine a0)" "in_step (d_store (nl_state n))"
    by (simp_all add: app_ok_def d_app_def)
  fix ans assume ans: "ans \<in> set (replies_of (nl_effects n))"
  obtain w r where wr: "ans = (w, r)" by fastforce
  have "linearized (nl_env n) (cfg_id (nl_cfg n)) a0 (decoded W L) (writers (nl_events n)) ans"
    using life_linearized [of n gave hist L "base n" a0 w r] h assms(2) ans wr by simp
  then show "ideal_answer (nl_env n) (cfg_id (nl_cfg n)) a0 (\<lambda>cmd. ex (cmd_argv cmd)) (abs_app rb_engine a0)
      (decoded W L) (writers (nl_events n)) ans"
    using refined_store.linearized_ideal [OF R, of "nl_env n" _ a0 _ _ ans] h assms(4) fits by blast
qed

text \<open>
  A node on an engine that is one switch, to which a \<open>SET\<close> of another node is delivered.
\<close>

definition switch_engine :: "bytes list \<Rightarrow> bool \<Rightarrow> reply \<times> bool" where
  "switch_engine argv s =
     (case argv of
        [c, k, v] \<Rightarrow> if c = ''SET'' then (reply_ok, v = ''on'') else (NilReply, s)
      | [c, k] \<Rightarrow> if c = ''GET'' then (Bulk (if s then ''on'' else ''off''), s) else (NilReply, s)
      | _ \<Rightarrow> (NilReply, s))"

definition switch_link :: "bool engine_link" where
  "switch_link =
     \<lparr>lk_write = (\<lambda>req s.
        case next_command (feed req decoder_new) of
          (Inr (Some argv), _) \<Rightarrow> (Inr (to_bytes (fst (switch_engine argv s))), snd (switch_engine argv s))
        | _ \<Rightarrow> (Inr [], s)),
      lk_connect = (\<lambda>k a. Inr False)\<rparr>"

lemma switch_speaks: "speaks switch_link switch_engine"
proof -
  have next_req: "next_command (feed (encode_request argv) decoder_new) = (Inr (Some argv), decoder_new)"
    if "request_fits argv" for argv
    using next_command_request [OF that, of "[]"] by (simp add: feed_def decoder_new_def)
  have clean: "reply_clean (Bulk ''on'')" "reply_clean (Bulk ''off'')" "reply_clean reply_ok" "reply_clean NilReply"
    by code_simp+
  have "reply_clean (fst (switch_engine argv s))" for argv s
    using clean by (auto simp: switch_engine_def split: list.split)
  then show ?thesis
    using next_req by (simp add: speaks_def switch_link_def)
qed

definition switch_ops :: "bool redis_backend store_ops" where
  "switch_ops =
     \<lparr>st_apply = (\<lambda>cmd b. case switch_engine (cmd_argv cmd) (rb_engine b) of (r, e) \<Rightarrow> (r, from_stream e)),
      st_query = (\<lambda>cmd b. fst (switch_engine (cmd_argv cmd) (rb_engine b))),
      st_export = (\<lambda>b. if rb_engine b then ''on'' else ''off''),
      st_import = (\<lambda>bs b. Inr (from_stream (bs = ''on'')))\<rparr>"

lemma switch_store: "backend_store switch_link switch_ops"
proof (rule backend_storeI [OF switch_speaks])
  fix argv cmd e assume cmd: "parse argv = Some cmd" "classify (cmd_name cmd) = Read"
  have "argv \<noteq> [''SET'', k, v]" for k v
    using cmd by (auto simp: effect_simps classify_iff connection_commands_def read_commands_def)
  then show "snd (switch_engine argv e) = e"
    by (auto simp: switch_engine_def split: list.split)
qed (simp_all add: switch_ops_def split_def)

definition switch_op :: write_op where
  "switch_op = write_op_new 1 0 [''SET'', ''k'', ''on'']"

definition switch_order :: "payload list" where
  "switch_order = [\<lparr>pl_data = cput c_write_op switch_op\<rparr>]"

lemma switch_decoded: "decoded wire0 switch_order = [switch_op]"
  by code_simp

lemma switch_run:
  "\<exists>ef st. driver_run (ring_env_on switch_ops) (ring_cfg 0) [EvTrain (cput c_write_op switch_op)]
        (ring_start 0 (from_stream False) dedup_new 0)
      = Some (ef :: (bytes, nat, nat, nat) driver_effect list, st, True)
    \<and> snd (d_core st) = ([], switch_order)"
proof -
  have "map_option (\<lambda>(ef :: (bytes, nat, nat, nat) driver_effect list, st, b). (snd (d_core st), b))
      (driver_run (ring_env_on switch_ops) (ring_cfg 0) [EvTrain (cput c_write_op switch_op)]
        (ring_start 0 (from_stream False) dedup_new 0))
      = Some (([], switch_order), True)"
    by code_simp
  then show ?thesis by auto
qed

theorem engines_agree_witness:
  "\<exists>ef st. driver_run (ring_env_on switch_ops) (ring_cfg 0) [EvTrain (cput c_write_op switch_op)]
        (ring_start 0 (from_stream False) dedup_new 0)
      = Some (ef :: (bytes, nat, nat, nat) driver_effect list, st, True)
    \<and> in_step (d_store st) \<and> rb_engine (d_store st)"
proof -
  obtain ef st where r:
    "driver_run (ring_env_on switch_ops) (ring_cfg 0) [EvTrain (cput c_write_op switch_op)]
        (ring_start 0 (from_stream False) dedup_new 0)
      = Some (ef :: (bytes, nat, nat, nat) driver_effect list, st, True)"
    "snd (d_core st) = ([], switch_order)"
    using switch_run by blast
  let ?n = "ring_life_on switch_ops 0 (from_stream False) dedup_new 0 [EvTrain (cput c_write_op switch_op)] ef st"
  let ?a = "(from_stream False, dedup_new, log_run 0 2 []) :: bool redis_backend app"
  have id: "cfg_id (ring_cfg 0) = 0" by (simp add: ring_cfg_def)
  have node: "\<forall>n \<in> {?n}. lived n \<and> on_ring (\<lambda>s. fst (snd s)) (\<lambda>s. snd (snd s)) switch_order 0 n
      \<and> joined_at switch_order ?a 0 n \<and> own_name (\<lambda>s. fst (snd s)) switch_order 0 n
      \<and> e_wire (nl_env n) = wire0 \<and> length (nl_events n) < 2 ^ 64
      \<and> backend_store switch_link (e_store (nl_env n))"
    using ring_lived [OF r(1)] switch_decoded switch_store
    by (auto simp: on_ring_def joined_at_def own_name_def ring_parts id r(2) recorded.recorded_core_axioms
        start_app_def ring_seed_def store_data_def switch_order_def switch_op_def write_op_new_def
        split: option.splits)
  have fits: "list_all (op_fits (\<lambda>cmd. request_fits (cmd_argv cmd))) (decoded wire0 switch_order)"
    unfolding switch_decoded
    by (auto simp: op_fits_def usable_id_def op_id_def switch_op_def write_op_new_def op_command_def parse_def
        request_fits_short arg_fits_small)
  have start: "app_ok in_step ?a"
    by (simp add: app_ok_def in_step_def from_stream_def)
  have "ring_place (\<lambda>s. snd (snd s)) 0 ?n = length switch_order"
    by (simp add: ring_place_def r(2))
  then have "in_step (d_store st) \<and> abs_app rb_engine (d_app st)
      = ideal_run (\<lambda>cmd. switch_engine (cmd_argv cmd)) [switch_op] (abs_app rb_engine ?a)"
    using engines_agree [OF node ref_wire_nat.wire_laws_axioms switch_speaks start fits]
    by (simp add: switch_decoded)
  moreover have "fst (ideal_run (\<lambda>cmd. switch_engine (cmd_argv cmd)) [switch_op] (abs_app rb_engine ?a))"
    by (simp add: ideal_step_def abs_app_def switch_op_def write_op_new_def op_command_def parse_def
        switch_engine_def)
  ultimately show ?thesis
    using r(1) by (simp add: abs_app_def d_app_def) (metis fst_conv)
qed

end
