(* ===== verification/Spec2Isabelle.thy ===== *)
theory Spec2Isabelle
  imports Protocol_Claims Effect Delivered_Log Dedup Reply_Types Replica_Claims Driver_Claims
    Passive_Claims Conn_Gate Client_Loop Backend_Claims Chaos_Main Handle Client_Claims Cluster_Claims
    In_Flight_Claims Ideal_Claims
begin

text \<open>
  A verification of the replicated Redis proxy \<open>src/crates/trains-valkey\<close>.

  \<^bold>\<open>The program.\<close> Each node of a ring runs a proxy in front of a Redis-like store. Clients speak RESP
  to it. Reads are answered from the local store; a write is turned into an effect, wrapped in an
  envelope with the node's id and a request number, and broadcast over a ring that delivers all
  envelopes in one total order to all nodes. What is delivered is deduplicated, applied to the
  store and logged, and where it is the node's own the waiting client is answered. When a node
  crashes the others exclude it by a view change; when it restarts it first tails a survivor as
  a read-only standby, then may be readmitted.

  \<^bold>\<open>Theories and sources.\<close> All paths are below \<open>src/crates/trains-valkey/src\<close>.
  \<^item> \<open>Prelude\<close>, \<open>Rust_Std\<close>: ordered maps and sets as sorted association lists (\<open>BTreeMap\<close>,
    \<open>BTreeSet\<close>), 64-bit integers, decimal printing and parsing, UTF-8, ASCII case, trimming.
  \<^item> \<open>Resp\<close>, \<open>Reply_Reader\<close>, \<open>Protocol_Claims\<close>: \<open>resp.rs\<close>. Encoding of replies and requests, the
    incremental request decoder, the blocking reply reader; round trips, independence of chunking.
  \<^item> \<open>Command\<close>: \<open>command.rs\<close> and \<open>classify.rs\<close>. Commands, the \<open>WriteOp\<close> envelope, the routing table,
    and the interface \<open>wire_codec\<close> of an encoding that decodes to what was encoded.
  \<^item> \<open>Store\<close>, \<open>Store_Spec\<close>, \<open>Reply_Types\<close>: \<open>store.rs\<close>. One definition per arm of \<open>apply\<close> and
    \<open>query\<close>; the specification over partial maps and sets and the refinement; error replies;
    logical TTLs; the type of the reply of each command.
  \<^item> \<open>Effect\<close>: \<open>effect.rs\<close>. The effects that non-deterministic commands are resolved to.
  \<^item> \<open>Delivered_Log\<close>: \<open>delivered_log.rs\<close>. The bounded log and the tails it serves.
  \<^item> \<open>Dedup\<close>, \<open>Replica\<close>, \<open>Replica_Laws\<close>, \<open>Replica_Claims\<close>: \<open>replica.rs\<close>. Deduplication by watermark and
    window refines a set of ids; the replica on top of the ordering core, convergence, exactly-once
    application, transfers by tail and by snapshot.
  \<^item> \<open>Core_Interface\<close>, \<open>Ref_Codec\<close>: what is used of the ordering core and of the codecs, and a
    reference codec on which the witnesses run.
  \<^item> \<open>Driver\<close>, \<open>Driver_Loop\<close>, \<open>Driver_Laws\<close>, \<open>Driver_Claims\<close>: the driver of \<open>proxy.rs\<close>
    (\<open>driver_loop\<close>, \<open>handle_write_request\<close>, \<open>pump_outputs\<close>, \<open>handle_vc\<close>, \<open>exclude\<close>, \<open>readmit\<close>,
    \<open>next_alive\<close> and the rest). It refines the replica; membership is kept.
  \<^item> \<open>Target\<close>: the addresses the driver points its transport at. Over any run the last one is the
    topology's for the successor; a promotion points it at none.
  \<^item> \<open>Front\<close>, \<open>Core_History\<close>, \<open>Driver_Clients\<close>: the same driver seen from its clients and from its core.
    \<open>Front\<close> is the abstract machine that decides a request at once, files it under the next id, or
    applies a delivered write and answers whoever waits for it; \<open>Core_History\<close> is what a core was given
    and has delivered, call by call; \<open>Driver_Clients\<close> shows that every handler, and so every life of a
    driver, is a run of the machine along a path of its core.
  \<^item> \<open>Client_Claims\<close>: the account of all requests of a life; a broadcast write whose envelope comes
    back answers its client; and \<open>client_loop\<close> composed with the driver it talks to: a connection
    reads its own writes.
  \<^item> \<open>Cluster\<close>, \<open>Cluster_Claims\<close>: several nodes whose cores deliver one order, those that joined late
    with a survivor's state among them. They converge, and all clients of all nodes are answered as
    by one store that executes the order.
  \<^item> \<open>In_Flight\<close>, \<open>In_Flight_Claims\<close>: what clients wait for. At every moment of a life the waiting
    table is the requests given to the core and not yet delivered, so nobody waits for nothing.
  \<^item> \<open>Ideal\<close>, \<open>Ideal_Claims\<close>: the ring against a machine that executes each write once on one
    abstract state, without logs, windows or containers. With \<open>MemStore\<close> the ring is the store of
    maps and sets of \<open>Store_Spec\<close>; with backends (\<open>backend_store\<close>) on engines that change by the
    commands they execute alone and by no read it is one engine.
  \<^item> \<open>Passive\<close>, \<open>Passive_Claims\<close>: \<open>passive_catch_up\<close> and the rejoin task of \<open>proxy.rs\<close>. The standby's
    copy of the transfer refines the replica's; against a quiet survivor it is promoted.
  \<^item> \<open>Conn_Gate\<close>, \<open>Client_Loop\<close>: \<open>ConnGate\<close>, \<open>listener_loop\<close> and \<open>client_loop\<close> of \<open>proxy.rs\<close>. The
    account of permits and counters; the connection as a server of the decoded stream.
  \<^item> \<open>Backend\<close>, \<open>Backend_Claims\<close>: \<open>backend.rs\<close>, the store that is an external engine.
  \<^item> \<open>Chaos\<close>, \<open>Chaos_Claims\<close>, \<open>Chaos_Main\<close>: \<open>chaos.rs\<close> and \<open>bin/chaos.rs\<close>, the workload of
    acknowledged writes over a socket whose replies \<open>read_reply\<close> reads, the two verifiers, and the
    binary from its options to its exit code and files. \<open>load_run\<close> specifies the workload on its own.
  \<^item> \<open>Config\<close>, \<open>Node\<close>: \<open>main.rs\<close> and \<open>run_proxy_node\<close> of \<open>proxy.rs\<close>. From the command line to a running
    ring member or standby.
  \<^item> \<open>Handle\<close>: \<open>ProxyHandle\<close> and \<open>DriverCtrl\<close> of \<open>proxy.rs\<close>, \<open>serve\<close> of \<open>main.rs\<close>. The control channel
    to the driver and aborting the tasks.

  \<^bold>\<open>Conventions.\<close> Bytes and strings are character lists; ids and counters that the source keeps at
  a width are words (\<open>proc_id\<close> 8 bits, \<open>u32\<close>, \<open>u64\<close>), \<open>i64\<close> values are integers with \<open>i64_ok\<close>. State is
  a record that an operation returns updated. A \<open>Result\<close> is a sum with the error on the left. A panic
  or an endless loop is \<open>None\<close> where a component can reach one, so every claim that an operation
  returns says so. Calls of packages outside the repository are record fields: the ordering core
  and the view-change machine and failure detector (\<open>env\<close>), the store behind the \<open>RedisStore\<close> trait
  (\<open>store_ops\<close>), \<open>bincode\<close> (\<open>wire\<close> and the codec arguments), \<open>serde_json\<close>, 64-bit floats
  (\<open>float_ops\<close>), sockets and engines (\<open>client_world\<close>, \<open>engine_link\<close>, \<open>load_net\<close>, \<open>node_host\<close>). Messages
  sent are the list of effects a step returns, in the order of the source; a \<open>oneshot\<close> sender is a
  token. The clock of \<open>TIME\<close> is an argument.

  \<^bold>\<open>Interfaces.\<close> What a client relies on is a locale, interpreted in the theory of the component that
  provides it: codecs (\<open>wire_codec\<close>), stores whose snapshots restore them and the state transfer on
  top of both (\<open>Core_Interface\<close>, \<open>Replica_Laws\<close>); the interpretations on \<open>MemStore\<close> and the reference
  codec discharge their laws. \<open>recorded_core\<close> is a core with a record of what it was given and has
  delivered, interpreted on \<open>recording K\<close>, which keeps that record for any core \<open>K\<close>; \<open>fresh_name\<close> extends it for a node whose
  name is new to the ring. \<open>refined_store\<close> is a store that implements a specification; it is
  interpreted on \<open>MemStore\<close>, and \<open>backend_refined\<close> gives it for a backend whose engine keeps its
  contract and is not changed by reads. That the records of all nodes are pieces of one order is the promise of the ordering core, a hypothesis of the claims
  about the ring.

  \<^bold>\<open>Termination and bounds.\<close> Decoders recurse on the bytes left; \<open>next_alive\<close> searches at most the ring
  size when the id is a ring position, and is \<open>None\<close> otherwise; \<open>scan_loop\<close> is a partial function
  that is shown to return when the engine's cursors come back to 0. No model uses fuel. The
  assumptions on magnitudes are that a log index does not wrap at 64 bits (\<open>no_wrap\<close>) and that a life
  of a node has fewer than \<open>2 ^ 64\<close> events, so that its request ids do not.

  \<^bold>\<open>Not modelled.\<close>
  \<^item> The crates \<open>trains_core\<close>, \<open>trains_recovery\<close> and \<open>trains_net\<close> are not in the repository.
  \<^item> The TLS configuration of \<open>build_client_acceptor\<close> is glue over an external package; the host of
    \<open>Node\<close> answers whether it can be built. The grammar of the command lines is the argument
    parser's; \<open>cli\<close> and \<open>chaos_cli\<close> are what it returns.
  \<^item> The store is locked per operation in the source: between two operations that one delivery
    applies a client read sees the store in the middle. The driver's step returns only its end;
    the read in \<open>Client_Loop\<close> may see any world, which covers it.
  \<^item> Engines with a clock, and engines that a read changes, are outside the claim that a ring of
    backends is one engine; the backend itself is modelled for any engine. Of the transport the
    addresses of retargets are modelled, not the connection it opens to \<open>--successor\<close> at its start.
  \<^item> Logging, allocation failure, timeouts (a reply that is late is an I/O error of its exchange) and
    the pause of the chaos workload (any change of the network).
  \<^item> Two parameters have documented behaviour only where a claim needs it: 64-bit floats (finiteness
    and printing) and the view-change machine (none: the claims about membership hold whatever it
    decides).
\<close>

end
